(* ===== verification/Prelude.thy ===== *)
theory Prelude
  imports Main "HOL-Library.Word" "HOL-Library.Multiset"
begin

text \<open>
  The vocabulary the components share: the base types of the Go code, commands over an
  outside world (a Go function that talks to Postgres, Redis or the broker), the way a
  Go function stops at its first error, and what it means that a command leaves a part
  of the world alone.
\<close>

section \<open>Collections of facts\<close>

named_theorems cmd_simps \<open>inversion of a command that ended in a given way\<close>
named_theorems keeps_intros \<open>commands that leave a part of the world alone\<close>
named_theorems sql_simps \<open>effects of the statements on the tables\<close>
named_theorems wf_intros \<open>operations that keep the schema's constraints\<close>

section \<open>Base types\<close>

text \<open>
  \<open>uuid.UUID\<close> is 16 bytes; its zero value \<open>uuid.Nil\<close> is 0. An instant
  (\<open>time.Time\<close>) and a span (\<open>time.Duration\<close>) are counted in nanoseconds.
  A Go string and a \<open>[]byte\<close> are both sequences of bytes, that is, \<open>string\<close>.
\<close>

type_synonym uuid = "128 word"
type_synonym time = int
type_synonym duration = int

abbreviation nanosecond :: duration where "nanosecond \<equiv> 1"
abbreviation second :: duration where "second \<equiv> 1000000000"
abbreviation minute :: duration where "minute \<equiv> 60 * second"
abbreviation hour :: duration where "hour \<equiv> 60 * minute"

section \<open>Commands\<close>

text \<open>
  A Go function \<open>func (\<dots>) (a, error)\<close> that talks to the outside is a function of the
  world it finds: it answers with an error (\<open>Inl\<close>) or a value (\<open>Inr\<close>), and leaves a
  world behind in both cases.
\<close>

type_synonym ('w, 'e, 'a) cmd = "'w \<Rightarrow> ('e + 'a) \<times> 'w"

definition okE :: "'a \<Rightarrow> ('w, 'e, 'a) cmd" where
  "okE a w = (Inr a, w)"

definition failE :: "'e \<Rightarrow> ('w, 'e, 'a) cmd" where
  "failE e w = (Inl e, w)"

text \<open>\<open>x, err := m(); if err != nil { return err }; f(x)\<close>\<close>

definition bindE :: "('w, 'e, 'a) cmd \<Rightarrow> ('a \<Rightarrow> ('w, 'e, 'b) cmd) \<Rightarrow> ('w, 'e, 'b) cmd" where
  "bindE m f w = (case m w of (Inl e, w') \<Rightarrow> (Inl e, w') | (Inr a, w') \<Rightarrow> f a w')"

text \<open>A command whose answer, error or value, is looked at or dropped by the code that follows.\<close>

definition bindS :: "('w \<Rightarrow> 'a \<times> 'w) \<Rightarrow> ('a \<Rightarrow> 'w \<Rightarrow> 'b \<times> 'w) \<Rightarrow> 'w \<Rightarrow> 'b \<times> 'w" where
  "bindS m f w = (case m w of (a, w') \<Rightarrow> f a w')"

lemma okE_eq [cmd_simps]: "okE a w = (r, w') \<longleftrightarrow> r = Inr a \<and> w' = w"
  by (auto simp: okE_def)

lemma failE_eq [cmd_simps]: "failE e w = (r, w') \<longleftrightarrow> r = Inl e \<and> w' = w"
  by (auto simp: failE_def)

lemma bindE_Inr [cmd_simps]:
  "bindE m f w = (Inr b, w') \<longleftrightarrow> (\<exists>a w1. m w = (Inr a, w1) \<and> f a w1 = (Inr b, w'))"
  by (auto simp: bindE_def split: prod.splits sum.splits)

lemma bindE_Inl [cmd_simps]:
  "bindE m f w = (Inl e, w') \<longleftrightarrow>
     m w = (Inl e, w') \<or> (\<exists>a w1. m w = (Inr a, w1) \<and> f a w1 = (Inl e, w'))"
  by (auto simp: bindE_def split: prod.splits sum.splits)

lemma bindS_eq [cmd_simps]: "bindS m f w = y \<longleftrightarrow> (\<exists>a w1. m w = (a, w1) \<and> f a w1 = y)"
  by (auto simp: bindS_def split: prod.splits)

lemma bindE_ok: "m w = (Inr a, w1) \<Longrightarrow> bindE m f w = f a w1"
  by (simp add: bindE_def)

lemma bindE_fail: "m w = (Inl e, w1) \<Longrightarrow> bindE m f w = (Inl e, w1)"
  by (simp add: bindE_def)

lemma bindS_run: "m w = (a, w1) \<Longrightarrow> bindS m f w = f a w1"
  by (simp add: bindS_def)

section \<open>What a command leaves alone\<close>

text \<open>\<open>keeps obs m\<close>: whatever \<open>m\<close> answers, the part of the world that \<open>obs\<close> reads is as before.\<close>

definition keeps :: "('w \<Rightarrow> 'o) \<Rightarrow> ('w \<Rightarrow> 'a \<times> 'w) \<Rightarrow> bool" where
  "keeps obs m \<longleftrightarrow> (\<forall>w. obs (snd (m w)) = obs w)"

lemma keepsI: "(\<And>w a w'. m w = (a, w') \<Longrightarrow> obs w' = obs w) \<Longrightarrow> keeps obs m"
  by (metis keeps_def prod.collapse)

lemma keepsD: "keeps obs m \<Longrightarrow> m w = (a, w') \<Longrightarrow> obs w' = obs w"
  by (metis keeps_def snd_conv)

lemma keeps_okE [keeps_intros]: "keeps obs (okE a)"
  by (simp add: keeps_def okE_def)

lemma keeps_failE [keeps_intros]: "keeps obs (failE e)"
  by (simp add: keeps_def failE_def)

lemma keeps_bindE [keeps_intros]:
  "keeps obs m \<Longrightarrow> (\<And>a. keeps obs (f a)) \<Longrightarrow> keeps obs (bindE m f)"
  by (auto simp: keeps_def bindE_def split: prod.splits sum.splits) (metis snd_conv)+

lemma keeps_bindS [keeps_intros]:
  "keeps obs m \<Longrightarrow> (\<And>a. keeps obs (f a)) \<Longrightarrow> keeps obs (bindS m f)"
  by (auto simp: keeps_def bindS_def split: prod.splits) (metis snd_conv)

lemma keeps_if [keeps_intros]:
  "(b \<Longrightarrow> keeps obs m) \<Longrightarrow> (\<not> b \<Longrightarrow> keeps obs n) \<Longrightarrow> keeps obs (if b then m else n)"
  by simp

lemma keeps_option [keeps_intros]:
  "(x = None \<Longrightarrow> keeps obs m) \<Longrightarrow> (\<And>a. x = Some a \<Longrightarrow> keeps obs (f a)) \<Longrightarrow>
   keeps obs (case x of None \<Rightarrow> m | Some a \<Rightarrow> f a)"
  by (cases x) auto

lemma keeps_sum [keeps_intros]:
  "(\<And>e. x = Inl e \<Longrightarrow> keeps obs (f e)) \<Longrightarrow> (\<And>a. x = Inr a \<Longrightarrow> keeps obs (g a)) \<Longrightarrow>
   keeps obs (case x of Inl e \<Rightarrow> f e | Inr a \<Rightarrow> g a)"
  by (cases x) auto

lemma keeps_pair: "keeps f m \<Longrightarrow> keeps g m \<Longrightarrow> keeps (\<lambda>w. (f w, g w)) m"
  by (simp add: keeps_def)

lemma keeps_comp: "keeps f m \<Longrightarrow> keeps (\<lambda>w. h (f w)) m"
  by (simp add: keeps_def)

section \<open>Lists\<close>

lemma distinct_map_filter: "distinct (map f xs) \<Longrightarrow> distinct (map f (filter P xs))"
  by (induction xs) auto

lemma distinct_map_inj_eq:
  "distinct (map f xs) \<Longrightarrow> x \<in> set xs \<Longrightarrow> y \<in> set xs \<Longrightarrow> f x = f y \<Longrightarrow> x = y"
  by (auto simp: distinct_map inj_on_def)

lemma map_key_cong: "(\<And>x. k (f x) = k x) \<Longrightarrow> map k (map f xs) = map k xs"
  by (induction xs) auto

lemma image_update:
  assumes "\<And>m. P m \<longleftrightarrow> Q (k m)" and "\<And>m. k (f m) = g (k m)"
  shows "k ` set (map (\<lambda>m. if P m then f m else m) ms) = (\<lambda>x. if Q x then g x else x) ` (k ` set ms)"
  unfolding set_map image_image by (rule image_cong) (simp_all add: assms)

text \<open>The values a partial function finds in a list, in order: GORM scanning rows into a slice of models.\<close>

fun collect :: "('a \<Rightarrow> 'b option) \<Rightarrow> 'a list \<Rightarrow> 'b list" where
  "collect f [] = []"
| "collect f (x # xs) = (case f x of None \<Rightarrow> collect f xs | Some y \<Rightarrow> y # collect f xs)"

lemma set_collect: "set (collect f xs) = {y. \<exists>x\<in>set xs. f x = Some y}"
  by (induction xs) (auto split: option.splits)

lemma collect_append: "collect f (xs @ ys) = collect f xs @ collect f ys"
  by (induction xs) (auto split: option.splits)

lemma collect_map: "(\<And>x. x \<in> set xs \<Longrightarrow> f (g x) = Some (h x)) \<Longrightarrow> collect f (map g xs) = map h xs"
  by (induction xs) auto

lemma mset_collect_add:
  "mset (collect f (x # xs)) =
     (case f x of None \<Rightarrow> mset (collect f xs) | Some y \<Rightarrow> add_mset y (mset (collect f xs)))"
  by (simp split: option.splits)

lemma mset_collect: "mset xs = mset ys \<Longrightarrow> mset (collect f xs) = mset (collect f ys)"
proof (induction xs arbitrary: ys)
  case Nil
  then show ?case by simp
next
  case (Cons x xs)
  then obtain us vs where ys: "ys = us @ x # vs"
    by (metis list.set_intros(1) set_mset_mset split_list)
  with Cons.prems have "mset xs = mset (us @ vs)" by simp
  from Cons.IH [OF this] show ?case
    by (simp add: ys collect_append split: option.splits)
qed

end
