(* ===== verification/Contracts.thy ===== *)
theory Contracts
  imports Prelude
begin

text \<open>
  How the development states what a service outside the repository promises. The world
  is of any type; a \<open>window\<close> on it names what a service holds (\<open>seen\<close>, one view per
  connection or context), everything else (\<open>rest\<close>), and whether the service is
  reachable (\<open>up\<close>). A contract says of each command what its answer means for the view
  and what it does to it. A command may fail at any time while the service is not up.
\<close>

section \<open>Windows\<close>

record ('c, 'w, 's, 'o) window =
  seen :: "'c \<Rightarrow> 'w \<Rightarrow> 's"
  rest :: "'w \<Rightarrow> 'o"
  up :: "'w \<Rightarrow> bool"

definition untouched :: "('c, 'w, 's, 'o) window \<Rightarrow> 'w \<Rightarrow> 'w \<Rightarrow> bool" where
  "untouched V w w' \<longleftrightarrow>
     (\<forall>d. seen V d w' = seen V d w) \<and> rest V w' = rest V w \<and> (up V w \<longrightarrow> up V w')"

definition touched :: "('c, 'w, 's, 'o) window \<Rightarrow> 'c \<Rightarrow> 'w \<Rightarrow> 'w \<Rightarrow> bool" where
  "touched V c w w' \<longleftrightarrow>
     (\<forall>d. d \<noteq> c \<longrightarrow> seen V d w' = seen V d w) \<and> rest V w' = rest V w \<and> (up V w \<longrightarrow> up V w')"

text \<open>
  \<open>reads V c Q m\<close>: \<open>m\<close> changes nothing, and its answer is related by \<open>Q\<close> to the view
  that \<open>c\<close> has (and to whether the service was up). \<open>writes V c Q m\<close>: \<open>m\<close> changes at
  most that view, from the one state to the other as \<open>Q\<close> says.
\<close>

definition reads ::
  "('c, 'w, 's, 'o) window \<Rightarrow> 'c \<Rightarrow> (bool \<Rightarrow> 's \<Rightarrow> 'r \<Rightarrow> bool) \<Rightarrow> ('w \<Rightarrow> 'r \<times> 'w) \<Rightarrow> bool" where
  "reads V c Q m \<longleftrightarrow>
     (\<forall>w r w'. m w = (r, w') \<longrightarrow> untouched V w w' \<and> Q (up V w) (seen V c w) r)"

definition writes ::
  "('c, 'w, 's, 'o) window \<Rightarrow> 'c \<Rightarrow> (bool \<Rightarrow> 's \<Rightarrow> 'r \<Rightarrow> 's \<Rightarrow> bool) \<Rightarrow> ('w \<Rightarrow> 'r \<times> 'w) \<Rightarrow> bool" where
  "writes V c Q m \<longleftrightarrow>
     (\<forall>w r w'. m w = (r, w') \<longrightarrow> touched V c w w' \<and> Q (up V w) (seen V c w) r (seen V c w'))"

lemma readsD: "reads V c Q m \<Longrightarrow> m w = (r, w') \<Longrightarrow> untouched V w w' \<and> Q (up V w) (seen V c w) r"
  by (auto simp: reads_def)

lemma writesD:
  "writes V c Q m \<Longrightarrow> m w = (r, w') \<Longrightarrow> touched V c w w' \<and> Q (up V w) (seen V c w) r (seen V c w')"
  by (auto simp: writes_def)

lemma readsI:
  "(\<And>w r w'. m w = (r, w') \<Longrightarrow> untouched V w w' \<and> Q (up V w) (seen V c w) r) \<Longrightarrow> reads V c Q m"
  by (auto simp: reads_def)

lemma writesI:
  "(\<And>w r w'. m w = (r, w') \<Longrightarrow> touched V c w w' \<and> Q (up V w) (seen V c w) r (seen V c w')) \<Longrightarrow>
   writes V c Q m"
  by (auto simp: writes_def)

lemma reads_weaken: "reads V c Q m \<Longrightarrow> (\<And>h s r. Q h s r \<Longrightarrow> Q' h s r) \<Longrightarrow> reads V c Q' m"
  by (auto simp: reads_def)

lemma writes_weaken:
  "writes V c Q m \<Longrightarrow> (\<And>h s r s'. Q h s r s' \<Longrightarrow> Q' h s r s') \<Longrightarrow> writes V c Q' m"
  by (auto simp: writes_def)

lemma untouched_refl [simp]: "untouched V w w"
  by (simp add: untouched_def)

lemma touched_refl [simp]: "touched V c w w"
  by (simp add: touched_def)

lemma untouched_trans: "untouched V w w1 \<Longrightarrow> untouched V w1 w2 \<Longrightarrow> untouched V w w2"
  by (simp add: untouched_def)

lemma touched_trans: "touched V c w w1 \<Longrightarrow> touched V c w1 w2 \<Longrightarrow> touched V c w w2"
  by (simp add: touched_def)

lemma untouched_touched: "untouched V w w' \<Longrightarrow> touched V c w w'"
  by (simp add: untouched_def touched_def)

lemma untouched_seen: "untouched V w w' \<Longrightarrow> seen V d w' = seen V d w"
  by (simp add: untouched_def)

lemma untouched_rest: "untouched V w w' \<Longrightarrow> rest V w' = rest V w"
  by (simp add: untouched_def)

lemma untouched_up: "untouched V w w' \<Longrightarrow> up V w \<Longrightarrow> up V w'"
  by (simp add: untouched_def)

lemma touched_seen: "touched V c w w' \<Longrightarrow> d \<noteq> c \<Longrightarrow> seen V d w' = seen V d w"
  by (simp add: touched_def)

lemma touched_rest: "touched V c w w' \<Longrightarrow> rest V w' = rest V w"
  by (simp add: touched_def)

lemma touched_up: "touched V c w w' \<Longrightarrow> up V w \<Longrightarrow> up V w'"
  by (simp add: touched_def)

lemmas untouchedD = untouched_seen untouched_rest untouched_up
lemmas touchedD = touched_seen touched_rest touched_up

section \<open>What answers mean\<close>

text \<open>
  \<open>found\<close>: a lookup of one entity; \<open>listed\<close>: a list of all entities; \<open>changed\<close>: a
  change that either happened as \<open>F\<close> says or failed and left the view as it was; while
  the service is up it fails only where \<open>possible\<close> does not hold.
\<close>

definition found :: "'e \<Rightarrow> bool \<Rightarrow> 'a set \<Rightarrow> 'e + 'a \<Rightarrow> bool" where
  "found missing h X r \<longleftrightarrow>
     (case r of Inr x \<Rightarrow> x \<in> X
              | Inl e \<Rightarrow> (e = missing \<longrightarrow> X = {}) \<and> (h \<longrightarrow> e = missing))"

definition answered :: "bool \<Rightarrow> ('a \<Rightarrow> bool) \<Rightarrow> 'e + 'a \<Rightarrow> bool" where
  "answered h P r \<longleftrightarrow> (case r of Inr x \<Rightarrow> P x | Inl e \<Rightarrow> \<not> h)"

definition changed ::
  "bool \<Rightarrow> bool \<Rightarrow> ('a \<Rightarrow> 's \<Rightarrow> bool) \<Rightarrow> 's \<Rightarrow> 'e + 'a \<Rightarrow> 's \<Rightarrow> bool" where
  "changed h possible F s r s' \<longleftrightarrow>
     (case r of Inr a \<Rightarrow> F a s' | Inl e \<Rightarrow> s' = s \<and> \<not> (h \<and> possible))"

text \<open>\<open>achieved\<close> is \<open>changed\<close> for several changes in a row, which may fail half way.\<close>

definition achieved :: "bool \<Rightarrow> bool \<Rightarrow> ('a \<Rightarrow> 's \<Rightarrow> bool) \<Rightarrow> 'e + 'a \<Rightarrow> 's \<Rightarrow> bool" where
  "achieved h possible F r s' \<longleftrightarrow> (case r of Inr a \<Rightarrow> F a s' | Inl e \<Rightarrow> \<not> (h \<and> possible))"

lemma achieved_simps [simp]:
  "achieved h p F (Inr a) s' \<longleftrightarrow> F a s'"
  "achieved h p F (Inl e) s' \<longleftrightarrow> \<not> (h \<and> p)"
  by (simp_all add: achieved_def)

lemma found_simps [simp]:
  "found missing h X (Inr x) \<longleftrightarrow> x \<in> X"
  "found missing h X (Inl e) \<longleftrightarrow> (e = missing \<longrightarrow> X = {}) \<and> (h \<longrightarrow> e = missing)"
  by (simp_all add: found_def)

lemma answered_simps [simp]:
  "answered h P (Inr x) \<longleftrightarrow> P x"
  "answered h P (Inl e) \<longleftrightarrow> \<not> h"
  by (simp_all add: answered_def)

lemma changed_simps [simp]:
  "changed h p F s (Inr a) s' \<longleftrightarrow> F a s'"
  "changed h p F s (Inl e) s' \<longleftrightarrow> s' = s \<and> \<not> (h \<and> p)"
  by (simp_all add: changed_def)

lemma changed_achieved: "changed h p F s r s' \<Longrightarrow> achieved h p F r s'"
  by (simp add: changed_def achieved_def split: sum.splits)

section \<open>Transactions\<close>

text \<open>
  \<open>transacted V b t m\<close>: what a transaction makes of the command \<open>m\<close> that runs on the
  connection \<open>t\<close> of the transaction, \<open>b\<close> being the base connection. The transaction
  starts from the committed state. When \<open>m\<close> fails its error comes back and nothing it
  did on \<open>t\<close> is committed. When it succeeds, either all it did is committed, or the
  connection was lost: then an error comes back, and all or nothing is committed. (The
  last two hold where nothing else was committed on \<open>b\<close> meanwhile.)
\<close>

definition transacted ::
  "('c, 'w, 's, 'o) window \<Rightarrow> 'c \<Rightarrow> 'c \<Rightarrow> ('w, 'e, unit) cmd \<Rightarrow> 'w \<Rightarrow> 'e + unit \<Rightarrow> 'w \<Rightarrow> bool" where
  "transacted V b t m w r w' \<longleftrightarrow>
     (\<exists>e. r = Inl e \<and> \<not> up V w \<and> untouched V w w') \<or>
     (\<exists>w0 r1 w1.
        seen V b w0 = seen V b w \<and> seen V t w0 = seen V b w \<and>
        rest V w0 = rest V w \<and> (up V w \<longrightarrow> up V w0) \<and>
        m w0 = (r1, w1) \<and>
        rest V w' = rest V w1 \<and> (up V w1 \<longrightarrow> up V w') \<and>
        (case r1 of
           Inl e \<Rightarrow> r = Inl e \<and> seen V b w' = seen V b w1
         | Inr _ \<Rightarrow>
             (r = Inr () \<and> (seen V b w1 = seen V b w \<longrightarrow> seen V b w' = seen V t w1)) \<or>
             (\<exists>e. r = Inl e \<and> \<not> up V w1 \<and>
                (seen V b w1 = seen V b w \<longrightarrow>
                   seen V b w' = seen V b w \<or> seen V b w' = seen V t w1))))"

lemma transacted_fail:
  "\<not> up V w \<Longrightarrow> untouched V w w' \<Longrightarrow> transacted V b t m w (Inl e) w'"
  by (simp add: transacted_def)

lemma transacted_rollback:
  assumes "seen V b w0 = seen V b w" "seen V t w0 = seen V b w" "rest V w0 = rest V w"
    "up V w \<longrightarrow> up V w0" "m w0 = (Inl e, w1)"
    "rest V w' = rest V w1" "up V w1 \<longrightarrow> up V w'" "seen V b w' = seen V b w1"
  shows "transacted V b t m w (Inl e) w'"
  unfolding transacted_def
  by (intro disjI2 exI [of _ w0] exI [of _ "Inl e"] exI [of _ w1]) (simp add: assms)

lemma transacted_commit:
  assumes "seen V b w0 = seen V b w" "seen V t w0 = seen V b w" "rest V w0 = rest V w"
    "up V w \<longrightarrow> up V w0" "m w0 = (Inr u, w1)"
    "rest V w' = rest V w1" "up V w1 \<longrightarrow> up V w'" "seen V b w' = seen V t w1"
  shows "transacted V b t m w (Inr ()) w'"
  unfolding transacted_def
  by (intro disjI2 exI [of _ w0] exI [of _ "Inr u"] exI [of _ w1]) (simp add: assms)

lemma transacted_lost:
  assumes "seen V b w0 = seen V b w" "seen V t w0 = seen V b w" "rest V w0 = rest V w"
    "up V w \<longrightarrow> up V w0" "m w0 = (Inr u, w1)" "\<not> up V w1"
    "rest V w' = rest V w1" "seen V b w' = seen V b w1"
  shows "transacted V b t m w (Inl e) w'"
  unfolding transacted_def
  by (intro disjI2 exI [of _ w0] exI [of _ "Inr u"] exI [of _ w1]) (simp add: assms)

text \<open>
  The rule for code: a command that only writes, on \<open>t\<close>, from \<open>s\<close> to a state that
  \<open>Q\<close> relates to it, is committed in full or not at all.
\<close>

lemma transacted_atomic:
  assumes tx: "transacted V b t m w r w'" and "b \<noteq> t"
    and m: "writes V t (\<lambda>h s. achieved h (possible s) (\<lambda>_ s'. Q s s')) m"
  shows "rest V w' = rest V w \<and> (up V w \<longrightarrow> up V w')"
    and "(case r of
        Inr _ \<Rightarrow> Q (seen V b w) (seen V b w')
      | Inl e \<Rightarrow> \<not> (up V w \<and> possible (seen V b w)) \<and>
          (seen V b w' = seen V b w \<or> Q (seen V b w) (seen V b w')))"
proof -
  have "rest V w' = rest V w \<and> (up V w \<longrightarrow> up V w') \<and> (case r of
      Inr _ \<Rightarrow> Q (seen V b w) (seen V b w')
    | Inl e \<Rightarrow> \<not> (up V w \<and> possible (seen V b w)) \<and>
        (seen V b w' = seen V b w \<or> Q (seen V b w) (seen V b w')))"
    using tx unfolding transacted_def
  proof (elim disjE exE conjE)
    fix e assume "r = Inl e" "\<not> up V w" "untouched V w w'"
    then show ?thesis by (simp add: untouched_def)
  next
    fix w0 r1 w1
    assume w0: "seen V b w0 = seen V b w" "seen V t w0 = seen V b w" "rest V w0 = rest V w"
        "up V w \<longrightarrow> up V w0"
      and run: "m w0 = (r1, w1)" and w': "rest V w' = rest V w1" "up V w1 \<longrightarrow> up V w'"
      and fin: "case r1 of
           Inl e \<Rightarrow> r = Inl e \<and> seen V b w' = seen V b w1
         | Inr _ \<Rightarrow>
             (r = Inr () \<and> (seen V b w1 = seen V b w \<longrightarrow> seen V b w' = seen V t w1)) \<or>
             (\<exists>e. r = Inl e \<and> \<not> up V w1 \<and>
                (seen V b w1 = seen V b w \<longrightarrow>
                   seen V b w' = seen V b w \<or> seen V b w' = seen V t w1))"
    from writesD [OF m run] \<open>b \<noteq> t\<close> w0
    have "seen V b w1 = seen V b w" and "rest V w1 = rest V w" and "up V w \<longrightarrow> up V w1"
      and "achieved (up V w0) (possible (seen V b w)) (\<lambda>_ s'. Q (seen V b w) s') r1 (seen V t w1)"
      by (auto simp: touched_def)
    with fin w' w0 show ?thesis by (cases r1) auto
  qed
  then show "rest V w' = rest V w \<and> (up V w \<longrightarrow> up V w')"
    and "(case r of
        Inr _ \<Rightarrow> Q (seen V b w) (seen V b w')
      | Inl e \<Rightarrow> \<not> (up V w \<and> possible (seen V b w)) \<and>
          (seen V b w' = seen V b w \<or> Q (seen V b w) (seen V b w')))"
    by auto
qed

text \<open>Two changes in sequence, the second of which is always possible after the first.\<close>

lemma writes_seq:
  assumes m: "writes V c (\<lambda>h s. achieved h (P s) (\<lambda>_. F s)) m"
    and n: "writes V c (\<lambda>h s. achieved h (P' s) (\<lambda>_. G s)) n"
    and chain: "\<And>s s1. P s \<Longrightarrow> F s s1 \<Longrightarrow> P' s1"
  shows "writes V c (\<lambda>h s. achieved h (P s) (\<lambda>_ s'. \<exists>s1. F s s1 \<and> G s1 s')) (bindE m (\<lambda>_. n))"
proof (rule writesI)
  fix w r w' assume run: "bindE m (\<lambda>_. n) w = (r, w')"
  obtain r1 w1 where m1: "m w = (r1, w1)" by force
  note W1 = writesD [OF m m1]
  show "touched V c w w' \<and>
      achieved (up V w) (P (seen V c w)) (\<lambda>_ s'. \<exists>s1. F (seen V c w) s1 \<and> G s1 s') r (seen V c w')"
  proof (cases r1)
    case (Inl e)
    with run m1 W1 show ?thesis by (auto simp: bindE_def)
  next
    case (Inr a)
    with run m1 have n1: "n w1 = (r, w')" by (simp add: bindE_def)
    note W2 = writesD [OF n n1]
    from W1 W2 Inr show ?thesis
      by (cases r) (auto dest: touched_trans chain simp: touched_up)
  qed
qed

section \<open>A window read through another index\<close>

definition reindex :: "('d \<Rightarrow> 'c) \<Rightarrow> ('c, 'w, 's, 'o) window \<Rightarrow> ('d, 'w, 's, 'o) window" where
  "reindex k V = \<lparr>seen = (\<lambda>d. seen V (k d)), rest = rest V, up = up V\<rparr>"

lemma reindex_sel [simp]:
  "seen (reindex k V) d = seen V (k d)" "rest (reindex k V) = rest V" "up (reindex k V) = up V"
  by (simp_all add: reindex_def)

lemma reads_reindex: "reads V (k d) Q m \<Longrightarrow> reads (reindex k V) d Q m"
  by (auto simp: reads_def untouched_def)

lemma writes_reindex: "writes V (k d) Q m \<Longrightarrow> inj k \<Longrightarrow> writes (reindex k V) d Q m"
  by (auto simp: writes_def touched_def inj_eq)

lemma transacted_reindex:
  "transacted V (k b) (k t) m w r w' \<Longrightarrow> transacted (reindex k V) b t m w r w'"
  unfolding transacted_def reindex_sel
proof (elim disjE, goal_cases)
  case 1
  then show ?case by (intro disjI1) (auto simp: untouched_def)
next
  case 2
  then show ?case by (rule disjI2)
qed

end
