(* ===== verification/Domain.thy ===== *)
theory Domain
  imports Contracts
begin

text \<open>
  \<open>internal/domain\<close>: the entities, the errors, the repository interfaces the services are
  written against, and what each interface promises. Entities are records with the
  source's fields; an interface is a record of functions, as a Go interface value is. What
  an interface promises is stated over an abstract store: sets of entities and the two
  relations of RBAC (who holds which role, which role grants which permission).
\<close>

section \<open>Entities\<close>

record User =
  u_ID :: uuid
  u_Email :: string
  u_PasswordHash :: string
  u_FullName :: string
  u_IsActive :: bool
  u_CreatedAt :: time
  u_UpdatedAt :: time

record Role =
  r_ID :: uuid
  r_Name :: string
  r_Description :: string
  r_CreatedAt :: time

record Permission =
  p_ID :: uuid
  p_Name :: string
  p_Resource :: string
  p_Action :: string
  p_Description :: string
  p_CreatedAt :: time

record RefreshToken =
  t_ID :: uuid
  t_UserID :: uuid
  t_TokenHash :: string
  t_ExpiresAt :: time
  t_RevokedAt :: "time option"
  t_CreatedAt :: time

text \<open>
  The \<open>map[string]interface{}\<close> and \<open>gin.H\<close> values of the code are JSON values: objects
  are lists of fields.
\<close>

datatype json =
    JNull
  | JBool bool
  | JNum int
  | JStr string
  | JArr "json list"
  | JObj "(string \<times> json) list"

type_synonym json_map = "(string \<times> json) list"

record AuditLog =
  a_ID :: int
  a_ActorID :: "uuid option"
  a_Action :: string
  a_ResourceType :: string
  a_ResourceID :: string
  a_Metadata :: json
  a_CreatedAt :: time

section \<open>Errors\<close>

text \<open>
  The sentinel errors of \<open>errors.go\<close>, those of the JWT package and of GORM that the code
  compares with, and every other error value, which the code only passes on.
\<close>

datatype error =
    ErrNotFound
  | ErrAlreadyExists
  | ErrInvalidCredentials
  | ErrPermissionDenied
  | ErrTokenExpired
  | ErrTokenRevoked
  | ErrInvalidToken
  | ErrRecordNotFound
  | ErrOther string

section \<open>The context\<close>

text \<open>The one value the code puts into a \<open>context.Context\<close>: the handle of a transaction.\<close>

datatype ctx = Background | InTx

section \<open>Repository interfaces\<close>


record 'w UserRepository =
  users_Create :: "ctx \<Rightarrow> User \<Rightarrow> ('w, error, User) cmd"
  users_GetByID :: "ctx \<Rightarrow> uuid \<Rightarrow> ('w, error, User) cmd"
  users_GetByEmail :: "ctx \<Rightarrow> string \<Rightarrow> ('w, error, User) cmd"
  users_List :: "ctx \<Rightarrow> int \<Rightarrow> int \<Rightarrow> ('w, error, User list \<times> int) cmd"
  users_Update :: "ctx \<Rightarrow> User \<Rightarrow> ('w, error, unit) cmd"
  users_AssignRole :: "ctx \<Rightarrow> uuid \<Rightarrow> uuid \<Rightarrow> uuid \<Rightarrow> ('w, error, unit) cmd"
  users_RemoveRole :: "ctx \<Rightarrow> uuid \<Rightarrow> uuid \<Rightarrow> ('w, error, unit) cmd"
  users_GetRoles :: "ctx \<Rightarrow> uuid \<Rightarrow> ('w, error, Role list) cmd"
  users_GetPermissions :: "ctx \<Rightarrow> uuid \<Rightarrow> ('w, error, Permission list) cmd"

record 'w RoleRepository =
  roles_Create :: "ctx \<Rightarrow> Role \<Rightarrow> ('w, error, Role) cmd"
  roles_GetByID :: "ctx \<Rightarrow> uuid \<Rightarrow> ('w, error, Role) cmd"
  roles_GetByName :: "ctx \<Rightarrow> string \<Rightarrow> ('w, error, Role) cmd"
  roles_List :: "ctx \<Rightarrow> ('w, error, Role list) cmd"
  roles_Delete :: "ctx \<Rightarrow> uuid \<Rightarrow> ('w, error, unit) cmd"
  roles_AttachPermission :: "ctx \<Rightarrow> uuid \<Rightarrow> uuid \<Rightarrow> ('w, error, unit) cmd"
  roles_DetachPermission :: "ctx \<Rightarrow> uuid \<Rightarrow> uuid \<Rightarrow> ('w, error, unit) cmd"
  roles_GetPermissions :: "ctx \<Rightarrow> uuid \<Rightarrow> ('w, error, Permission list) cmd"
  roles_GetUserIDsForRole :: "ctx \<Rightarrow> uuid \<Rightarrow> ('w, error, uuid list) cmd"

record 'w PermissionRepository =
  perms_Create :: "ctx \<Rightarrow> Permission \<Rightarrow> ('w, error, Permission) cmd"
  perms_GetByID :: "ctx \<Rightarrow> uuid \<Rightarrow> ('w, error, Permission) cmd"
  perms_GetByName :: "ctx \<Rightarrow> string \<Rightarrow> ('w, error, Permission) cmd"
  perms_List :: "ctx \<Rightarrow> ('w, error, Permission list) cmd"
  perms_Delete :: "ctx \<Rightarrow> uuid \<Rightarrow> ('w, error, unit) cmd"

record 'w RefreshTokenRepository =
  tokens_Create :: "ctx \<Rightarrow> RefreshToken \<Rightarrow> ('w, error, RefreshToken) cmd"
  tokens_GetByHash :: "ctx \<Rightarrow> string \<Rightarrow> ('w, error, RefreshToken) cmd"
  tokens_Revoke :: "ctx \<Rightarrow> uuid \<Rightarrow> ('w, error, unit) cmd"
  tokens_CountActiveByUser :: "ctx \<Rightarrow> uuid \<Rightarrow> ('w, error, int) cmd"

record 'w AuditRepository =
  audit_Create :: "ctx \<Rightarrow> AuditLog \<Rightarrow> ('w, error, AuditLog) cmd"
  audit_List :: "ctx \<Rightarrow> int \<Rightarrow> int \<Rightarrow> ('w, error, AuditLog list \<times> int) cmd"

record 'w OutboxRepository =
  outbox_Create :: "ctx \<Rightarrow> string \<Rightarrow> json \<Rightarrow> ('w, error, unit) cmd"

record 'w TxRunner =
  RunInTx :: "ctx \<Rightarrow> (ctx \<Rightarrow> ('w, error, unit) cmd) \<Rightarrow> ('w, error, unit) cmd"

section \<open>The abstract store\<close>

text \<open>Of an event of the outbox its type, its payload and its status count.\<close>

record store =
  st_users :: "User set"
  st_roles :: "Role set"
  st_perms :: "Permission set"
  st_assign :: "(uuid \<times> uuid) set"
  st_grant :: "(uuid \<times> uuid) set"
  st_tokens :: "RefreshToken set"
  st_events :: "(string \<times> string \<times> string) list"

text \<open>
  The permissions a user holds: those granted by some role assigned to the user. This is
  the specification that the check, the cache and the SQL join are measured against.
\<close>

definition user_perms :: "store \<Rightarrow> uuid \<Rightarrow> Permission set" where
  "user_perms s u =
     {p \<in> st_perms s. \<exists>r. (u, r) \<in> st_assign s \<and> (r, p_ID p) \<in> st_grant s}"

definition perm_names :: "store \<Rightarrow> uuid \<Rightarrow> string set" where
  "perm_names s u = p_Name ` user_perms s u"

text \<open>
  What deleting a role or a permission does to the store: the pairs that refer to it go
  with it. (Where there is no such role or permission nothing changes.)
\<close>

definition drop_role :: "uuid \<Rightarrow> store \<Rightarrow> store" where
  "drop_role i s = (if i \<in> r_ID ` st_roles s then s\<lparr>
     st_roles := {r \<in> st_roles s. r_ID r \<noteq> i},
     st_assign := {(u, r) \<in> st_assign s. r \<noteq> i},
     st_grant := {(r, p) \<in> st_grant s. r \<noteq> i}\<rparr> else s)"

definition drop_perm :: "uuid \<Rightarrow> store \<Rightarrow> store" where
  "drop_perm i s = (if i \<in> p_ID ` st_perms s then s\<lparr>
     st_perms := {p \<in> st_perms s. p_ID p \<noteq> i},
     st_grant := {(r, p) \<in> st_grant s. p \<noteq> i}\<rparr> else s)"

lemma perm_names_drop_role:
  "perm_names (drop_role i s) u \<subseteq> perm_names s u"
  by (auto simp: perm_names_def user_perms_def drop_role_def)

lemma perm_names_assign_other:
  "u \<noteq> v \<Longrightarrow> perm_names (s\<lparr>st_assign := insert (u, r) (st_assign s)\<rparr>) v = perm_names s v"
  by (simp add: perm_names_def user_perms_def)

lemma perm_names_revoke_other:
  "u \<noteq> v \<Longrightarrow> perm_names (s\<lparr>st_assign := st_assign s - {(u, r)}\<rparr>) v = perm_names s v"
  by (simp add: perm_names_def user_perms_def)

lemma perm_names_grant_other:
  "(v, r) \<notin> st_assign s \<Longrightarrow>
   perm_names (s\<lparr>st_grant := insert (r, p) (st_grant s)\<rparr>) v = perm_names s v"
  unfolding perm_names_def user_perms_def by (intro arg_cong [where f = "image p_Name"]) auto

lemma perm_names_events [simp]:
  "perm_names (s\<lparr>st_events := es\<rparr>) v = perm_names s v"
  "perm_names (s\<lparr>st_tokens := ts\<rparr>) v = perm_names s v"
  "perm_names (s\<lparr>st_users := us\<rparr>) v = perm_names s v"
  by (simp_all add: perm_names_def user_perms_def)

section \<open>What the interfaces promise\<close>

text \<open>
  Each contract is a locale over a window on the world: one view per context, of any type
  \<open>'s\<close>, which \<open>st\<close> reads as a store. A service is verified in these locales; the
  Postgres repositories interpret them. The identifier and the times of a new entity are
  the implementation's to choose; \<open>storable\<close> and \<open>encodes\<close> say which entities it can
  hold and how it writes an event's payload down.
\<close>

locale user_repository =
  fixes W :: "(ctx, 'w, 's, 'o) window" and st :: "'s \<Rightarrow> store"
    and U :: "'w UserRepository" and storable :: "User \<Rightarrow> bool"
  assumes UserCreate: "u_ID u = 0 \<Longrightarrow> writes W c (\<lambda>h s. changed h
      (storable u \<and> u_Email u \<notin> u_Email ` st_users (st s) \<and> (\<exists>i. i \<noteq> 0 \<and> i \<notin> u_ID ` st_users (st s)))
      (\<lambda>u' s'. (\<exists>i t1 t2. u' = u\<lparr>u_ID := i, u_CreatedAt := t1, u_UpdatedAt := t2\<rparr>) \<and>
         u_ID u' \<notin> u_ID ` st_users (st s) \<and> u_Email u \<notin> u_Email ` st_users (st s) \<and>
         st s' = (st s)\<lparr>st_users := insert (u'\<lparr>u_IsActive := True\<rparr>) (st_users (st s))\<rparr>) s)
      (users_Create U c u)"
    and UserCreate_error: "users_Create U c u w = (Inl e, w') \<Longrightarrow> e \<noteq> ErrAlreadyExists"
    and UserGetByID: "reads W c
      (\<lambda>h s. found ErrNotFound h {u \<in> st_users (st s). u_ID u = i}) (users_GetByID U c i)"
    and UserGetByEmail: "reads W c
      (\<lambda>h s. found ErrNotFound h {u \<in> st_users (st s). u_Email u = m}) (users_GetByEmail U c m)"
    and UserGetByEmail_error: "users_GetByEmail U c m w = (Inl e, w') \<Longrightarrow> e \<noteq> ErrAlreadyExists"
    and UserList: "0 \<le> l \<Longrightarrow> 0 \<le> k \<Longrightarrow> reads W c (\<lambda>h s. answered h (\<lambda>(us, n).
      set us \<subseteq> st_users (st s) \<and> length us \<le> nat l \<and> n \<ge> int (length us) \<and>
      sorted_wrt (\<lambda>a b. u_CreatedAt b \<le> u_CreatedAt a) us)) (users_List U c l k)"
    and UserList_reads: "reads W c (\<lambda>_ _ _. True) (users_List U c l' k')"
    and UserUpdate: "writes W c (\<lambda>h s. changed h False
      (\<lambda>_ s'. \<exists>t. st s' = (st s)\<lparr>st_users := (\<lambda>x. if u_ID x = u_ID u
          then x\<lparr>u_FullName := u_FullName u, u_IsActive := u_IsActive u, u_UpdatedAt := t\<rparr> else x) `
          st_users (st s)\<rparr>) s) (users_Update U c u)"
    and AssignRole: "writes W c (\<lambda>h s. changed h
      ((i, r) \<in> st_assign (st s) \<or>
        {i, by} \<subseteq> u_ID ` st_users (st s) \<and> r \<in> r_ID ` st_roles (st s))
      (\<lambda>_ s'. st s' = (st s)\<lparr>st_assign := insert (i, r) (st_assign (st s))\<rparr> \<and>
         ((i, r) \<in> st_assign (st s) \<or>
          {i, by} \<subseteq> u_ID ` st_users (st s) \<and> r \<in> r_ID ` st_roles (st s))) s)
      (users_AssignRole U c i r by)"
    and RemoveRole: "writes W c (\<lambda>h s. changed h True
      (\<lambda>_ s'. st s' = (st s)\<lparr>st_assign := st_assign (st s) - {(i, r)}\<rparr>) s)
      (users_RemoveRole U c i r)"
    and GetRoles: "reads W c (\<lambda>h s. answered h (\<lambda>rs.
      set rs = {x \<in> st_roles (st s). (i, r_ID x) \<in> st_assign (st s)})) (users_GetRoles U c i)"
    and GetPermissions: "reads W c (\<lambda>h s. answered h (\<lambda>ps. distinct ps \<and> set ps = user_perms (st s) i))
      (users_GetPermissions U c i)"

locale role_repository =
  fixes W :: "(ctx, 'w, 's, 'o) window" and st :: "'s \<Rightarrow> store"
    and R :: "'w RoleRepository"
  assumes RoleCreate: "r_ID x = 0 \<Longrightarrow> writes W c (\<lambda>h s. changed h False
      (\<lambda>x' s'. (\<exists>i t. x' = x\<lparr>r_ID := i, r_CreatedAt := t\<rparr>) \<and>
         r_ID x' \<notin> r_ID ` st_roles (st s) \<and> r_Name x \<notin> r_Name ` st_roles (st s) \<and>
         st s' = (st s)\<lparr>st_roles := insert x' (st_roles (st s))\<rparr>) s) (roles_Create R c x)"
    and RoleGetByID: "reads W c
      (\<lambda>h s. found ErrNotFound h {x \<in> st_roles (st s). r_ID x = i}) (roles_GetByID R c i)"
    and RoleGetByName: "reads W c
      (\<lambda>h s. found ErrNotFound h {x \<in> st_roles (st s). r_Name x = n}) (roles_GetByName R c n)"
    and RoleList: "reads W c (\<lambda>h s. answered h (\<lambda>xs. set xs = st_roles (st s))) (roles_List R c)"
    and RoleDelete: "writes W c (\<lambda>h s. changed h True
      (\<lambda>_ s'. st s' = drop_role i (st s)) s) (roles_Delete R c i)"
    and AttachPermission: "writes W c (\<lambda>h s. changed h
      ((i, j) \<in> st_grant (st s) \<or> i \<in> r_ID ` st_roles (st s) \<and> j \<in> p_ID ` st_perms (st s))
      (\<lambda>_ s'. st s' = (st s)\<lparr>st_grant := insert (i, j) (st_grant (st s))\<rparr> \<and>
         ((i, j) \<in> st_grant (st s) \<or>
          i \<in> r_ID ` st_roles (st s) \<and> j \<in> p_ID ` st_perms (st s))) s)
      (roles_AttachPermission R c i j)"
    and DetachPermission: "writes W c (\<lambda>h s. changed h True
      (\<lambda>_ s'. st s' = (st s)\<lparr>st_grant := st_grant (st s) - {(i, j)}\<rparr>) s)
      (roles_DetachPermission R c i j)"
    and RoleGetPermissions: "reads W c (\<lambda>h s. answered h (\<lambda>ps.
      set ps = {p \<in> st_perms (st s). (i, p_ID p) \<in> st_grant (st s)})) (roles_GetPermissions R c i)"
    and GetUserIDsForRole: "reads W c (\<lambda>h s. answered h (\<lambda>us.
      set us = {u. (u, i) \<in> st_assign (st s)})) (roles_GetUserIDsForRole R c i)"

locale permission_repository =
  fixes W :: "(ctx, 'w, 's, 'o) window" and st :: "'s \<Rightarrow> store"
    and P :: "'w PermissionRepository"
  assumes PermCreate: "p_ID x = 0 \<Longrightarrow> writes W c (\<lambda>h s. changed h False
      (\<lambda>x' s'. (\<exists>i t. x' = x\<lparr>p_ID := i, p_CreatedAt := t\<rparr>) \<and>
         p_ID x' \<notin> p_ID ` st_perms (st s) \<and> p_Name x \<notin> p_Name ` st_perms (st s) \<and>
         st s' = (st s)\<lparr>st_perms := insert x' (st_perms (st s))\<rparr>) s) (perms_Create P c x)"
    and PermGetByID: "reads W c
      (\<lambda>h s. found ErrNotFound h {x \<in> st_perms (st s). p_ID x = i}) (perms_GetByID P c i)"
    and PermGetByName: "reads W c
      (\<lambda>h s. found ErrNotFound h {x \<in> st_perms (st s). p_Name x = n}) (perms_GetByName P c n)"
    and PermList: "reads W c (\<lambda>h s. answered h (\<lambda>xs. set xs = st_perms (st s))) (perms_List P c)"
    and PermDelete: "writes W c (\<lambda>h s. changed h True
      (\<lambda>_ s'. st s' = drop_perm i (st s)) s) (perms_Delete P c i)"

locale token_repository =
  fixes W :: "(ctx, 'w, 's, 'o) window" and st :: "'s \<Rightarrow> store"
    and K :: "'w RefreshTokenRepository" and storable_token :: "RefreshToken \<Rightarrow> bool"
  assumes TokenCreate: "t_ID x = 0 \<Longrightarrow> t_RevokedAt x = None \<Longrightarrow> writes W c (\<lambda>h s. changed h
      (storable_token x \<and> t_UserID x \<in> u_ID ` st_users (st s) \<and>
        (\<exists>i. i \<noteq> 0 \<and> i \<notin> t_ID ` st_tokens (st s)))
      (\<lambda>x' s'. (\<exists>i t. x' = x\<lparr>t_ID := i, t_CreatedAt := t\<rparr>) \<and>
         t_ID x' \<notin> t_ID ` st_tokens (st s) \<and> t_UserID x \<in> u_ID ` st_users (st s) \<and>
         st s' = (st s)\<lparr>st_tokens := insert x' (st_tokens (st s))\<rparr>) s) (tokens_Create K c x)"
    and TokenGetByHash: "reads W c
      (\<lambda>h s. found ErrNotFound h {x \<in> st_tokens (st s). t_TokenHash x = n}) (tokens_GetByHash K c n)"
    and TokenRevoke: "writes W c (\<lambda>h s. changed h True
      (\<lambda>_ s'. \<exists>t. st s' = (st s)\<lparr>st_tokens :=
          (\<lambda>x. if t_ID x = i then x\<lparr>t_RevokedAt := Some t\<rparr> else x) ` st_tokens (st s)\<rparr>) s)
      (tokens_Revoke K c i)"

locale outbox_repository =
  fixes W :: "(ctx, 'w, 's, 'o) window" and st :: "'s \<Rightarrow> store"
    and E :: "'w OutboxRepository" and encodes :: "json \<Rightarrow> string \<Rightarrow> bool"
    and encodable :: "string \<Rightarrow> json \<Rightarrow> bool"
  assumes OutboxCreate: "writes W c (\<lambda>h s. changed h
      (encodable ty j \<and> length (st_events (st s)) < 2 ^ 64)
      (\<lambda>_ s'. \<exists>b. encodes j b \<and>
         st s' = (st s)\<lparr>st_events := st_events (st s) @ [(ty, b, ''pending'')]\<rparr>) s) (outbox_Create E c ty j)"

locale tx_runner =
  fixes W :: "(ctx, 'w, 's, 'o) window" and X :: "'w TxRunner"
  assumes Tx: "RunInTx X c f w = (r, w') \<Longrightarrow> transacted W Background InTx (f InTx) w r w'"

end
