(* ===== verification/Schema.thy ===== *)
theory Schema
  imports Domain
begin

text \<open>
  The tables. The persistence models of \<open>models.go\<close>, \<open>outbox_repo.go\<close> and
  \<open>audit_repo.go\<close> are the row types; \<open>migrations/0001_init.up.sql\<close> and
  \<open>0002_events.up.sql\<close> declare the tables with their keys, unique columns, references
  and cascades. What an INSERT, a DELETE and an UPDATE mean on such tables is defined
  here once; the repositories only name the rows and the columns.
\<close>

section \<open>Models\<close>

record UserModel =
  um_ID :: uuid
  um_Email :: string
  um_PasswordHash :: string
  um_FullName :: string
  um_IsActive :: bool
  um_CreatedAt :: time
  um_UpdatedAt :: time

record RoleModel =
  rm_ID :: uuid
  rm_Name :: string
  rm_Description :: string
  rm_CreatedAt :: time

record PermissionModel =
  pm_ID :: uuid
  pm_Name :: string
  pm_Resource :: string
  pm_Action :: string
  pm_Description :: string
  pm_CreatedAt :: time

record UserRoleModel =
  urm_UserID :: uuid
  urm_RoleID :: uuid
  urm_AssignedBy :: "uuid option"
  urm_AssignedAt :: time

record RolePermissionModel =
  rpm_RoleID :: uuid
  rpm_PermissionID :: uuid
  rpm_GrantedAt :: time

record RefreshTokenModel =
  rtm_ID :: uuid
  rtm_UserID :: uuid
  rtm_TokenHash :: string
  rtm_ExpiresAt :: time
  rtm_RevokedAt :: "time option"
  rtm_CreatedAt :: time

text \<open>\<open>OutboxModel\<close>: the identifier is a \<open>uint64\<close>; \<open>Payload\<close> holds the bytes of a JSON text.\<close>

record OutboxModel =
  om_ID :: "64 word"
  om_EventType :: string
  om_Payload :: string
  om_Status :: string
  om_RetryCount :: int
  om_CreatedAt :: time
  om_SentAt :: "time option"

record AuditLogModel =
  am_ID :: int
  am_ActorID :: "uuid option"
  am_Action :: string
  am_ResourceType :: string
  am_ResourceID :: string
  am_Metadata :: string
  am_CreatedAt :: time

section \<open>Tables and rows\<close>

record tables =
  tb_users :: "UserModel list"
  tb_roles :: "RoleModel list"
  tb_permissions :: "PermissionModel list"
  tb_user_roles :: "UserRoleModel list"
  tb_role_permissions :: "RolePermissionModel list"
  tb_refresh_tokens :: "RefreshTokenModel list"
  tb_outbox_events :: "OutboxModel list"
  tb_audit_logs :: "AuditLogModel list"

definition no_tables :: tables where
  "no_tables = \<lparr>tb_users = [], tb_roles = [], tb_permissions = [], tb_user_roles = [],
     tb_role_permissions = [], tb_refresh_tokens = [], tb_outbox_events = [], tb_audit_logs = []\<rparr>"

datatype row =
    UserRow UserModel
  | RoleRow RoleModel
  | PermRow PermissionModel
  | UserRoleRow UserRoleModel
  | RolePermRow RolePermissionModel
  | TokenRow RefreshTokenModel
  | OutboxRow OutboxModel
  | AuditRow AuditLogModel

abbreviation user_ids :: "tables \<Rightarrow> uuid list" where "user_ids T \<equiv> map um_ID (tb_users T)"
abbreviation role_ids :: "tables \<Rightarrow> uuid list" where "role_ids T \<equiv> map rm_ID (tb_roles T)"
abbreviation perm_ids :: "tables \<Rightarrow> uuid list" where "perm_ids T \<equiv> map pm_ID (tb_permissions T)"

abbreviation user_role_key :: "UserRoleModel \<Rightarrow> uuid \<times> uuid" where
  "user_role_key m \<equiv> (urm_UserID m, urm_RoleID m)"
abbreviation role_perm_key :: "RolePermissionModel \<Rightarrow> uuid \<times> uuid" where
  "role_perm_key m \<equiv> (rpm_RoleID m, rpm_PermissionID m)"

section \<open>Constraints\<close>

text \<open>The PRIMARY KEY and UNIQUE columns of a table: does a row clash with one that is there?\<close>

fun clashes :: "row \<Rightarrow> tables \<Rightarrow> bool" where
  "clashes (UserRow m) T \<longleftrightarrow>
     um_ID m \<in> set (user_ids T) \<or> um_Email m \<in> set (map um_Email (tb_users T))"
| "clashes (RoleRow m) T \<longleftrightarrow>
     rm_ID m \<in> set (role_ids T) \<or> rm_Name m \<in> set (map rm_Name (tb_roles T))"
| "clashes (PermRow m) T \<longleftrightarrow>
     pm_ID m \<in> set (perm_ids T) \<or> pm_Name m \<in> set (map pm_Name (tb_permissions T))"
| "clashes (UserRoleRow m) T \<longleftrightarrow> user_role_key m \<in> set (map user_role_key (tb_user_roles T))"
| "clashes (RolePermRow m) T \<longleftrightarrow>
     role_perm_key m \<in> set (map role_perm_key (tb_role_permissions T))"
| "clashes (TokenRow m) T \<longleftrightarrow> rtm_ID m \<in> set (map rtm_ID (tb_refresh_tokens T))"
| "clashes (OutboxRow m) T \<longleftrightarrow> om_ID m \<in> set (map om_ID (tb_outbox_events T))"
| "clashes (AuditRow m) T \<longleftrightarrow> am_ID m \<in> set (map am_ID (tb_audit_logs T))"

text \<open>The REFERENCES columns: does every row that this one refers to exist?\<close>

fun refs_ok :: "row \<Rightarrow> tables \<Rightarrow> bool" where
  "refs_ok (UserRoleRow m) T \<longleftrightarrow>
     urm_UserID m \<in> set (user_ids T) \<and> urm_RoleID m \<in> set (role_ids T) \<and>
     (case urm_AssignedBy m of None \<Rightarrow> True | Some a \<Rightarrow> a \<in> set (user_ids T))"
| "refs_ok (RolePermRow m) T \<longleftrightarrow>
     rpm_RoleID m \<in> set (role_ids T) \<and> rpm_PermissionID m \<in> set (perm_ids T)"
| "refs_ok (TokenRow m) T \<longleftrightarrow> rtm_UserID m \<in> set (user_ids T)"
| "refs_ok (AuditRow m) T \<longleftrightarrow>
     (case am_ActorID m of None \<Rightarrow> True | Some a \<Rightarrow> a \<in> set (user_ids T))"
| "refs_ok _ T \<longleftrightarrow> True"

definition wf_tables :: "tables \<Rightarrow> bool" where
  "wf_tables T \<longleftrightarrow>
     distinct (user_ids T) \<and> distinct (map um_Email (tb_users T)) \<and>
     distinct (role_ids T) \<and> distinct (map rm_Name (tb_roles T)) \<and>
     distinct (perm_ids T) \<and> distinct (map pm_Name (tb_permissions T)) \<and>
     distinct (map user_role_key (tb_user_roles T)) \<and>
     distinct (map role_perm_key (tb_role_permissions T)) \<and>
     distinct (map rtm_ID (tb_refresh_tokens T)) \<and>
     distinct (map om_ID (tb_outbox_events T)) \<and>
     distinct (map am_ID (tb_audit_logs T)) \<and>
     (\<forall>m \<in> set (tb_user_roles T). refs_ok (UserRoleRow m) T) \<and>
     (\<forall>m \<in> set (tb_role_permissions T). refs_ok (RolePermRow m) T) \<and>
     (\<forall>m \<in> set (tb_refresh_tokens T). refs_ok (TokenRow m) T) \<and>
     (\<forall>m \<in> set (tb_audit_logs T). refs_ok (AuditRow m) T)"

section \<open>Statements\<close>

subsection \<open>INSERT\<close>

fun add_row :: "row \<Rightarrow> tables \<Rightarrow> tables" where
  "add_row (UserRow m) T = T\<lparr>tb_users := tb_users T @ [m]\<rparr>"
| "add_row (RoleRow m) T = T\<lparr>tb_roles := tb_roles T @ [m]\<rparr>"
| "add_row (PermRow m) T = T\<lparr>tb_permissions := tb_permissions T @ [m]\<rparr>"
| "add_row (UserRoleRow m) T = T\<lparr>tb_user_roles := tb_user_roles T @ [m]\<rparr>"
| "add_row (RolePermRow m) T = T\<lparr>tb_role_permissions := tb_role_permissions T @ [m]\<rparr>"
| "add_row (TokenRow m) T = T\<lparr>tb_refresh_tokens := tb_refresh_tokens T @ [m]\<rparr>"
| "add_row (OutboxRow m) T = T\<lparr>tb_outbox_events := tb_outbox_events T @ [m]\<rparr>"
| "add_row (AuditRow m) T = T\<lparr>tb_audit_logs := tb_audit_logs T @ [m]\<rparr>"

definition insertable :: "row \<Rightarrow> tables \<Rightarrow> bool" where
  "insertable r T \<longleftrightarrow> \<not> clashes r T \<and> refs_ok r T"

text \<open>
  The columns with a DEFAULT are filled in where the model has its zero value: the
  generated UUID or serial number \<open>i\<close>, the time \<open>t\<close>, the default status, and
  \<open>is_active\<close>, whose default is true.
\<close>

fun fill :: "uuid \<Rightarrow> nat \<Rightarrow> time \<Rightarrow> row \<Rightarrow> row" where
  "fill i n t (UserRow m) = UserRow (m\<lparr>um_ID := (if um_ID m = 0 then i else um_ID m),
     um_IsActive := True, um_CreatedAt := t, um_UpdatedAt := t\<rparr>)"
| "fill i n t (RoleRow m) = RoleRow (m\<lparr>rm_ID := (if rm_ID m = 0 then i else rm_ID m),
     rm_CreatedAt := t\<rparr>)"
| "fill i n t (PermRow m) = PermRow (m\<lparr>pm_ID := (if pm_ID m = 0 then i else pm_ID m),
     pm_CreatedAt := t\<rparr>)"
| "fill i n t (UserRoleRow m) = UserRoleRow (m\<lparr>urm_AssignedAt := t\<rparr>)"
| "fill i n t (RolePermRow m) = RolePermRow (m\<lparr>rpm_GrantedAt := t\<rparr>)"
| "fill i n t (TokenRow m) = TokenRow (m\<lparr>rtm_ID := (if rtm_ID m = 0 then i else rtm_ID m),
     rtm_CreatedAt := t\<rparr>)"
| "fill i n t (OutboxRow m) = OutboxRow (m\<lparr>om_ID := of_nat n,
     om_Status := (if om_Status m = [] then ''pending'' else om_Status m), om_CreatedAt := t\<rparr>)"
| "fill i n t (AuditRow m) = AuditRow (m\<lparr>am_ID := int n, am_CreatedAt := t\<rparr>)"

subsection \<open>DELETE\<close>

text \<open>
  The rows that meet the condition go, and with a user, a role or a permission the rows
  that refer to it by a column declared ON DELETE CASCADE.
\<close>

definition delete_rows :: "(row \<Rightarrow> bool) \<Rightarrow> tables \<Rightarrow> tables" where
  "delete_rows p T =
     (let us = map um_ID (filter (\<lambda>m. p (UserRow m)) (tb_users T));
          rs = map rm_ID (filter (\<lambda>m. p (RoleRow m)) (tb_roles T));
          ps = map pm_ID (filter (\<lambda>m. p (PermRow m)) (tb_permissions T))
      in \<lparr>tb_users = filter (\<lambda>m. \<not> p (UserRow m)) (tb_users T),
          tb_roles = filter (\<lambda>m. \<not> p (RoleRow m)) (tb_roles T),
          tb_permissions = filter (\<lambda>m. \<not> p (PermRow m)) (tb_permissions T),
          tb_user_roles = filter (\<lambda>m. \<not> p (UserRoleRow m) \<and>
            urm_UserID m \<notin> set us \<and> urm_RoleID m \<notin> set rs) (tb_user_roles T),
          tb_role_permissions = filter (\<lambda>m. \<not> p (RolePermRow m) \<and>
            rpm_RoleID m \<notin> set rs \<and> rpm_PermissionID m \<notin> set ps) (tb_role_permissions T),
          tb_refresh_tokens = filter (\<lambda>m. \<not> p (TokenRow m) \<and>
            rtm_UserID m \<notin> set us) (tb_refresh_tokens T),
          tb_outbox_events = filter (\<lambda>m. \<not> p (OutboxRow m)) (tb_outbox_events T),
          tb_audit_logs = filter (\<lambda>m. \<not> p (AuditRow m)) (tb_audit_logs T)\<rparr>)"

subsection \<open>UPDATE\<close>

text \<open>A column assignment of an UPDATE, per row; GORM also sets \<open>updated_at\<close>, which only \<open>users\<close> has.\<close>

fun touch :: "time \<Rightarrow> row \<Rightarrow> row" where
  "touch t (UserRow m) = UserRow (m\<lparr>um_UpdatedAt := t\<rparr>)"
| "touch t r = r"

fun as_user :: "row \<Rightarrow> UserModel option" where
  "as_user (UserRow m) = Some m" | "as_user _ = None"
fun as_role :: "row \<Rightarrow> RoleModel option" where
  "as_role (RoleRow m) = Some m" | "as_role _ = None"
fun as_perm :: "row \<Rightarrow> PermissionModel option" where
  "as_perm (PermRow m) = Some m" | "as_perm _ = None"
fun as_user_role :: "row \<Rightarrow> UserRoleModel option" where
  "as_user_role (UserRoleRow m) = Some m" | "as_user_role _ = None"
fun as_role_perm :: "row \<Rightarrow> RolePermissionModel option" where
  "as_role_perm (RolePermRow m) = Some m" | "as_role_perm _ = None"
fun as_token :: "row \<Rightarrow> RefreshTokenModel option" where
  "as_token (TokenRow m) = Some m" | "as_token _ = None"
fun as_outbox :: "row \<Rightarrow> OutboxModel option" where
  "as_outbox (OutboxRow m) = Some m" | "as_outbox _ = None"
fun as_audit :: "row \<Rightarrow> AuditLogModel option" where
  "as_audit (AuditRow m) = Some m" | "as_audit _ = None"

definition set_cols ::
  "('m \<Rightarrow> row) \<Rightarrow> (row \<Rightarrow> 'm option) \<Rightarrow> (row \<Rightarrow> bool) \<Rightarrow> (row \<Rightarrow> row) \<Rightarrow> 'm list \<Rightarrow> 'm list" where
  "set_cols con as p f =
     map (\<lambda>m. if p (con m) then (case as (f (con m)) of None \<Rightarrow> m | Some m' \<Rightarrow> m') else m)"

definition update_rows :: "(row \<Rightarrow> bool) \<Rightarrow> (row \<Rightarrow> row) \<Rightarrow> tables \<Rightarrow> tables" where
  "update_rows p f T = \<lparr>
     tb_users = set_cols UserRow as_user p f (tb_users T),
     tb_roles = set_cols RoleRow as_role p f (tb_roles T),
     tb_permissions = set_cols PermRow as_perm p f (tb_permissions T),
     tb_user_roles = set_cols UserRoleRow as_user_role p f (tb_user_roles T),
     tb_role_permissions = set_cols RolePermRow as_role_perm p f (tb_role_permissions T),
     tb_refresh_tokens = set_cols TokenRow as_token p f (tb_refresh_tokens T),
     tb_outbox_events = set_cols OutboxRow as_outbox p f (tb_outbox_events T),
     tb_audit_logs = set_cols AuditRow as_audit p f (tb_audit_logs T)\<rparr>"

section \<open>Every statement keeps the constraints\<close>

lemma wf_no_tables: "wf_tables no_tables"
  by (simp add: wf_tables_def no_tables_def)

lemma refs_ok_mono:
  assumes "refs_ok r T" and "set (user_ids T) \<subseteq> set (user_ids T')"
    and "set (role_ids T) \<subseteq> set (role_ids T')" and "set (perm_ids T) \<subseteq> set (perm_ids T')"
  shows "refs_ok r T'"
  using assms by (cases r) (auto split: option.splits)

lemma user_ids_add_row: "set (user_ids T) \<subseteq> set (user_ids (add_row r T))"
  by (cases r) auto

lemma role_ids_add_row: "set (role_ids T) \<subseteq> set (role_ids (add_row r T))"
  by (cases r) auto

lemma perm_ids_add_row: "set (perm_ids T) \<subseteq> set (perm_ids (add_row r T))"
  by (cases r) auto

lemma refs_ok_add_row: "refs_ok r' T \<Longrightarrow> refs_ok r' (add_row r T)"
  by (rule refs_ok_mono [OF _ user_ids_add_row role_ids_add_row perm_ids_add_row])

theorem wf_add_row [wf_intros]:
  assumes wf: "wf_tables T" and ins: "insertable r T"
  shows "wf_tables (add_row r T)"
proof -
  note keep = refs_ok_add_row [of _ T r]
  from wf have "\<forall>m\<in>set (tb_user_roles T). refs_ok (UserRoleRow m) (add_row r T)"
    and "\<forall>m\<in>set (tb_role_permissions T). refs_ok (RolePermRow m) (add_row r T)"
    and "\<forall>m\<in>set (tb_refresh_tokens T). refs_ok (TokenRow m) (add_row r T)"
    and "\<forall>m\<in>set (tb_audit_logs T). refs_ok (AuditRow m) (add_row r T)"
    unfolding wf_tables_def by (blast intro: keep)+
  moreover from ins have "refs_ok r (add_row r T)" and "\<not> clashes r T"
    by (auto simp: insertable_def intro: keep)
  ultimately show ?thesis
    using wf unfolding wf_tables_def by (cases r) (auto simp del: refs_ok.simps)
qed

lemma delete_rows_sel [sql_simps]:
  "tb_users (delete_rows p T) = filter (\<lambda>m. \<not> p (UserRow m)) (tb_users T)"
  "tb_roles (delete_rows p T) = filter (\<lambda>m. \<not> p (RoleRow m)) (tb_roles T)"
  "tb_permissions (delete_rows p T) = filter (\<lambda>m. \<not> p (PermRow m)) (tb_permissions T)"
  "tb_outbox_events (delete_rows p T) = filter (\<lambda>m. \<not> p (OutboxRow m)) (tb_outbox_events T)"
  "tb_audit_logs (delete_rows p T) = filter (\<lambda>m. \<not> p (AuditRow m)) (tb_audit_logs T)"
  "tb_user_roles (delete_rows p T) =
     filter (\<lambda>m. \<not> p (UserRoleRow m) \<and>
       urm_UserID m \<notin> um_ID ` {x \<in> set (tb_users T). p (UserRow x)} \<and>
       urm_RoleID m \<notin> rm_ID ` {x \<in> set (tb_roles T). p (RoleRow x)}) (tb_user_roles T)"
  "tb_role_permissions (delete_rows p T) =
     filter (\<lambda>m. \<not> p (RolePermRow m) \<and>
       rpm_RoleID m \<notin> rm_ID ` {x \<in> set (tb_roles T). p (RoleRow x)} \<and>
       rpm_PermissionID m \<notin> pm_ID ` {x \<in> set (tb_permissions T). p (PermRow x)})
       (tb_role_permissions T)"
  "tb_refresh_tokens (delete_rows p T) =
     filter (\<lambda>m. \<not> p (TokenRow m) \<and>
       rtm_UserID m \<notin> um_ID ` {x \<in> set (tb_users T). p (UserRow x)}) (tb_refresh_tokens T)"
  by (simp_all add: delete_rows_def Let_def)

text \<open>The code deletes no user; every other deletion leaves all references intact.\<close>

theorem wf_delete_rows [wf_intros]:
  assumes wf: "wf_tables T" and users: "\<And>m. \<not> p (UserRow m)"
  shows "wf_tables (delete_rows p T)"
proof -
  have roles: "i \<in> set (role_ids (delete_rows p T))"
    if "i \<in> set (role_ids T)" and "i \<notin> rm_ID ` {x \<in> set (tb_roles T). p (RoleRow x)}" for i
    using that by (auto simp: sql_simps)
  have perms: "i \<in> set (perm_ids (delete_rows p T))"
    if "i \<in> set (perm_ids T)" and "i \<notin> pm_ID ` {x \<in> set (tb_permissions T). p (PermRow x)}" for i
    using that by (auto simp: sql_simps)
  have us: "user_ids (delete_rows p T) = user_ids T"
    using users by (simp add: sql_simps)
  have a: "\<forall>m\<in>set (tb_user_roles (delete_rows p T)). refs_ok (UserRoleRow m) (delete_rows p T)"
  proof
    fix m assume m: "m \<in> set (tb_user_roles (delete_rows p T))"
    then have old: "refs_ok (UserRoleRow m) T"
      using wf by (auto simp: wf_tables_def sql_simps simp del: refs_ok.simps)
    from m old have "urm_RoleID m \<in> set (role_ids (delete_rows p T))"
      by (intro roles) (auto simp: sql_simps)
    with old show "refs_ok (UserRoleRow m) (delete_rows p T)"
      by (simp only: refs_ok.simps us simp_thms)
  qed
  have b: "\<forall>m\<in>set (tb_role_permissions (delete_rows p T)).
      refs_ok (RolePermRow m) (delete_rows p T)"
  proof
    fix m assume m: "m \<in> set (tb_role_permissions (delete_rows p T))"
    then have old: "refs_ok (RolePermRow m) T"
      using wf by (auto simp: wf_tables_def sql_simps simp del: refs_ok.simps)
    from m old have "rpm_RoleID m \<in> set (role_ids (delete_rows p T))"
      by (intro roles) (auto simp: sql_simps)
    moreover from m old have "rpm_PermissionID m \<in> set (perm_ids (delete_rows p T))"
      by (intro perms) (auto simp: sql_simps)
    ultimately show "refs_ok (RolePermRow m) (delete_rows p T)" by simp
  qed
  have c: "\<forall>m\<in>set (tb_refresh_tokens (delete_rows p T)). refs_ok (TokenRow m) (delete_rows p T)"
    and d: "\<forall>m\<in>set (tb_audit_logs (delete_rows p T)). refs_ok (AuditRow m) (delete_rows p T)"
    using wf us by (auto simp: wf_tables_def sql_simps split: option.splits)
  show ?thesis
    using wf a b c d unfolding wf_tables_def
    by (simp add: sql_simps distinct_map_filter del: refs_ok.simps)
qed

text \<open>
  An UPDATE that assigns to no key, unique or referring column keeps the constraints:
  \<open>same_keys\<close> says that two rows of a table agree on those.
\<close>

fun same_keys :: "row \<Rightarrow> row \<Rightarrow> bool" where
  "same_keys (UserRow m) (UserRow n) \<longleftrightarrow> um_ID m = um_ID n \<and> um_Email m = um_Email n"
| "same_keys (RoleRow m) (RoleRow n) \<longleftrightarrow> rm_ID m = rm_ID n \<and> rm_Name m = rm_Name n"
| "same_keys (PermRow m) (PermRow n) \<longleftrightarrow> pm_ID m = pm_ID n \<and> pm_Name m = pm_Name n"
| "same_keys (UserRoleRow m) (UserRoleRow n) \<longleftrightarrow>
     user_role_key m = user_role_key n \<and> urm_AssignedBy m = urm_AssignedBy n"
| "same_keys (RolePermRow m) (RolePermRow n) \<longleftrightarrow> role_perm_key m = role_perm_key n"
| "same_keys (TokenRow m) (TokenRow n) \<longleftrightarrow> rtm_ID m = rtm_ID n \<and> rtm_UserID m = rtm_UserID n"
| "same_keys (OutboxRow m) (OutboxRow n) \<longleftrightarrow> om_ID m = om_ID n"
| "same_keys (AuditRow m) (AuditRow n) \<longleftrightarrow> am_ID m = am_ID n \<and> am_ActorID m = am_ActorID n"
| "same_keys _ _ \<longleftrightarrow> False"

lemma set_cols_map:
  assumes "\<And>m m'. p (con m) \<Longrightarrow> as (f (con m)) = Some m' \<Longrightarrow> k m' = k m"
  shows "map k (set_cols con as p f ms) = map k ms"
  using assms by (auto simp: set_cols_def split: option.splits)

lemma set_cols_all:
  assumes "\<And>m m'. p (con m) \<Longrightarrow> as (f (con m)) = Some m' \<Longrightarrow> Q m \<Longrightarrow> Q m'" and "\<forall>m\<in>set ms. Q m"
  shows "\<forall>m\<in>set (set_cols con as p f ms). Q m"
  using assms by (auto simp: set_cols_def split: option.splits)

lemma row_as:
  "as_user r = Some a \<longleftrightarrow> r = UserRow a" "as_role r = Some b \<longleftrightarrow> r = RoleRow b"
  "as_perm r = Some c \<longleftrightarrow> r = PermRow c" "as_user_role r = Some d \<longleftrightarrow> r = UserRoleRow d"
  "as_role_perm r = Some e \<longleftrightarrow> r = RolePermRow e" "as_token r = Some f \<longleftrightarrow> r = TokenRow f"
  "as_outbox r = Some g \<longleftrightarrow> r = OutboxRow g" "as_audit r = Some h \<longleftrightarrow> r = AuditRow h"
  by (cases r; simp)+

lemma update_rows_keys:
  assumes "\<forall>r. p r \<longrightarrow> same_keys r (f r)"
  shows "user_ids (update_rows p f T) = user_ids T"
    and "map um_Email (tb_users (update_rows p f T)) = map um_Email (tb_users T)"
    and "role_ids (update_rows p f T) = role_ids T"
    and "map rm_Name (tb_roles (update_rows p f T)) = map rm_Name (tb_roles T)"
    and "perm_ids (update_rows p f T) = perm_ids T"
    and "map pm_Name (tb_permissions (update_rows p f T)) = map pm_Name (tb_permissions T)"
    and "map user_role_key (tb_user_roles (update_rows p f T)) = map user_role_key (tb_user_roles T)"
    and "map role_perm_key (tb_role_permissions (update_rows p f T)) =
         map role_perm_key (tb_role_permissions T)"
    and "map rtm_ID (tb_refresh_tokens (update_rows p f T)) = map rtm_ID (tb_refresh_tokens T)"
    and "map om_ID (tb_outbox_events (update_rows p f T)) = map om_ID (tb_outbox_events T)"
    and "map am_ID (tb_audit_logs (update_rows p f T)) = map am_ID (tb_audit_logs T)"
  unfolding update_rows_def
  by (auto intro!: set_cols_map dest!: assms [rule_format] simp: row_as)

lemma same_keys_refs: "same_keys r r' \<Longrightarrow> refs_ok r T \<Longrightarrow> refs_ok r' T"
  by (cases r; cases r') auto

lemma set_cols_refs:
  assumes keys: "\<forall>r. p r \<longrightarrow> same_keys r (f r)" and as: "\<And>r n. as r = Some n \<longleftrightarrow> r = con n"
    and all: "\<forall>m\<in>set ms. refs_ok (con m) T"
  shows "\<forall>m\<in>set (set_cols con as p f ms). refs_ok (con m) T"
proof (rule set_cols_all [OF _ all])
  fix m m' assume "p (con m)" and "as (f (con m)) = Some m'" and "refs_ok (con m) T"
  then show "refs_ok (con m') T"
    using keys [rule_format, of "con m"] by (auto simp: as intro: same_keys_refs)
qed

theorem wf_update_rows [wf_intros]:
  assumes wf: "wf_tables T" and keys: "\<And>r. p r \<Longrightarrow> same_keys r (f r)"
  shows "wf_tables (update_rows p f T)"
proof -
  from keys have all: "\<forall>r. p r \<longrightarrow> same_keys r (f r)" by blast
  note same = update_rows_keys [OF all, of T] and refs = set_cols_refs [OF all]
  have eq: "refs_ok r (update_rows p f T) \<longleftrightarrow> refs_ok r T" for r
    by (cases r) (simp_all only: refs_ok.simps same)
  have a: "\<forall>m\<in>set (tb_user_roles (update_rows p f T)). refs_ok (UserRoleRow m) T"
    using refs [OF row_as(4), of "tb_user_roles T" T] wf
    by (simp add: update_rows_def wf_tables_def del: refs_ok.simps)
  have b: "\<forall>m\<in>set (tb_role_permissions (update_rows p f T)). refs_ok (RolePermRow m) T"
    using refs [OF row_as(5), of "tb_role_permissions T" T] wf
    by (simp add: update_rows_def wf_tables_def del: refs_ok.simps)
  have c: "\<forall>m\<in>set (tb_refresh_tokens (update_rows p f T)). refs_ok (TokenRow m) T"
    using refs [OF row_as(6), of "tb_refresh_tokens T" T] wf
    by (simp add: update_rows_def wf_tables_def del: refs_ok.simps)
  have d: "\<forall>m\<in>set (tb_audit_logs (update_rows p f T)). refs_ok (AuditRow m) T"
    using refs [OF row_as(8), of "tb_audit_logs T" T] wf
    by (simp add: update_rows_def wf_tables_def del: refs_ok.simps)
  from wf a b c d show ?thesis
    unfolding wf_tables_def same eq by blast
qed

end
