(* ===== verification/Gorm.thy ===== *)
theory Gorm
  imports Schema
begin

text \<open>
  Postgres, reached through GORM. Neither is part of the repository: the calls the
  repositories make are the fields of \<open>gorm\<close>, an argument of every definition that
  touches the database, and \<open>gorm_contract\<close> states what is documented about them. The
  repositories hand over what the source writes: the rows to insert, the condition of a
  WHERE clause, the joins of a query, the columns of an UPDATE. At the end stands a
  database engine on lists of rows, with injected faults, that meets the contract: it
  shows that the contract can hold and it runs the examples.
\<close>

section \<open>The calls\<close>

text \<open>\<open>*gorm.DB\<close>: the base connection, or the handle of the open transaction.\<close>

datatype conn = BaseDB | TxDB

text \<open>
  A query: the rows it ranges over (FROM, JOIN, WHERE, DISTINCT), ORDER BY, LIMIT and
  OFFSET. \<open>plain\<close> is a query with none of the last three. The code orders by
  \<open>name\<close>, by \<open>created_at\<close> and by \<open>created_at desc\<close>; the comparison of names is
  the database's collation, \<open>coll\<close>.
\<close>

datatype order = Unordered | OrderName | OrderCreatedAt | OrderCreatedAtDesc

fun row_name :: "row \<Rightarrow> string" where
  "row_name (RoleRow m) = rm_Name m"
| "row_name (PermRow m) = pm_Name m"
| "row_name _ = []"

fun row_created_at :: "row \<Rightarrow> time" where
  "row_created_at (UserRow m) = um_CreatedAt m"
| "row_created_at (RoleRow m) = rm_CreatedAt m"
| "row_created_at (PermRow m) = pm_CreatedAt m"
| "row_created_at (UserRoleRow m) = urm_AssignedAt m"
| "row_created_at (RolePermRow m) = rpm_GrantedAt m"
| "row_created_at (TokenRow m) = rtm_CreatedAt m"
| "row_created_at (OutboxRow m) = om_CreatedAt m"
| "row_created_at (AuditRow m) = am_CreatedAt m"

fun row_le :: "(string \<Rightarrow> string \<Rightarrow> bool) \<Rightarrow> order \<Rightarrow> row \<Rightarrow> row \<Rightarrow> bool" where
  "row_le coll Unordered x y \<longleftrightarrow> True"
| "row_le coll OrderName x y \<longleftrightarrow> coll (row_name x) (row_name y)"
| "row_le coll OrderCreatedAt x y \<longleftrightarrow> row_created_at x \<le> row_created_at y"
| "row_le coll OrderCreatedAtDesc x y \<longleftrightarrow> row_created_at y \<le> row_created_at x"

definition linear_preorder :: "('a \<Rightarrow> 'a \<Rightarrow> bool) \<Rightarrow> bool" where
  "linear_preorder le \<longleftrightarrow>
     (\<forall>x y. le x y \<or> le y x) \<and> (\<forall>x y z. le x y \<longrightarrow> le y z \<longrightarrow> le x z)"

lemma row_le_linear: "linear_preorder coll \<Longrightarrow> linear_preorder (row_le coll r)"
  by (cases r) (auto simp: linear_preorder_def)

record query =
  q_rows :: "tables \<Rightarrow> row list"
  q_order :: order
  q_limit :: "int option"
  q_offset :: "int option"

definition plain :: "(tables \<Rightarrow> row list) \<Rightarrow> query" where
  "plain f = \<lparr>q_rows = f, q_order = Unordered, q_limit = None, q_offset = None\<rparr>"

record 'w gorm =
  g_Create :: "conn \<Rightarrow> row \<Rightarrow> ('w, error, row) cmd"
  g_CreateDoNothing :: "conn \<Rightarrow> row \<Rightarrow> ('w, error, unit) cmd"
  g_First :: "conn \<Rightarrow> query \<Rightarrow> ('w, error, row) cmd"
  g_Find :: "conn \<Rightarrow> query \<Rightarrow> ('w, error, row list) cmd"
  g_Count :: "conn \<Rightarrow> (tables \<Rightarrow> row list) \<Rightarrow> ('w, error, int) cmd"
  g_Update :: "conn \<Rightarrow> (row \<Rightarrow> bool) \<Rightarrow> (row \<Rightarrow> row) \<Rightarrow> ('w, error, unit) cmd"
  g_Delete :: "conn \<Rightarrow> (row \<Rightarrow> bool) \<Rightarrow> ('w, error, unit) cmd"
  g_Transaction :: "(conn \<Rightarrow> ('w, error, unit) cmd) \<Rightarrow> ('w, error, unit) cmd"

section \<open>What the calls mean\<close>

text \<open>LIMIT and OFFSET select a window of the rows in order; the order of equal rows is free.\<close>

definition paged :: "query \<Rightarrow> bool" where
  "paged q \<longleftrightarrow> (case q_limit q of None \<Rightarrow> True | Some l \<Rightarrow> 0 \<le> l) \<and>
             (case q_offset q of None \<Rightarrow> True | Some l \<Rightarrow> 0 \<le> l)"

definition limited :: "query \<Rightarrow> 'a list \<Rightarrow> 'a list" where
  "limited q xs = (case q_limit q of None \<Rightarrow> (\<lambda>ys. ys) | Some l \<Rightarrow> take (nat l))
     (case q_offset q of None \<Rightarrow> xs | Some l \<Rightarrow> drop (nat l) xs)"

definition page_of :: "(string \<Rightarrow> string \<Rightarrow> bool) \<Rightarrow> query \<Rightarrow> row list \<Rightarrow> row list \<Rightarrow> bool" where
  "page_of coll q rows xs \<longleftrightarrow>
     (\<exists>ys. mset ys = mset rows \<and> sorted_wrt (row_le coll (q_order q)) ys \<and> xs = limited q ys)"

definition firsts :: "(string \<Rightarrow> string \<Rightarrow> bool) \<Rightarrow> query \<Rightarrow> tables \<Rightarrow> row set" where
  "firsts coll q T = {x \<in> set (q_rows q T). \<forall>y\<in>set (q_rows q T). row_le coll (q_order q) x y}"

lemma paged_plain [simp]: "paged (plain f)"
  by (simp add: paged_def plain_def)

lemma page_of_plain [simp]: "page_of coll (plain f) rows xs \<longleftrightarrow> mset xs = mset rows"
  by (auto simp: page_of_def plain_def limited_def sorted_wrt_iff_nth_less intro: exI [of _ xs])

lemma firsts_plain [simp]: "firsts coll (plain f) T = set (f T)"
  by (simp add: firsts_def plain_def)

lemma q_rows_plain [simp]: "q_rows (plain f) = f"
  by (simp add: plain_def)

text \<open>
  A JSONB column parses the text it is given: \<open>jsonb\<close> is the text it gives back, or None
  for a text it rejects. \<open>stored\<close> is the row an INSERT puts into its table.
\<close>

fun jsonb_row :: "(string \<Rightarrow> string option) \<Rightarrow> row \<Rightarrow> row option" where
  "jsonb_row jsonb (OutboxRow m) =
     map_option (\<lambda>s. OutboxRow (m\<lparr>om_Payload := s\<rparr>)) (jsonb (om_Payload m))"
| "jsonb_row jsonb (AuditRow m) =
     map_option (\<lambda>s. AuditRow (m\<lparr>am_Metadata := s\<rparr>)) (jsonb (am_Metadata m))"
| "jsonb_row jsonb r = Some r"

definition stored ::
  "(string \<Rightarrow> string option) \<Rightarrow> uuid \<Rightarrow> nat \<Rightarrow> time \<Rightarrow> row \<Rightarrow> row option" where
  "stored jsonb i n t r = map_option (fill i n t) (jsonb_row jsonb r)"

text \<open>The rows whose key the code sets itself: the pairs of the two association tables.\<close>

fun explicit_key :: "row \<Rightarrow> bool" where
  "explicit_key (UserRoleRow m) \<longleftrightarrow> True"
| "explicit_key (RolePermRow m) \<longleftrightarrow> True"
| "explicit_key _ \<longleftrightarrow> False"

text \<open>
  The contract. \<open>fits\<close> says which rows fit the VARCHAR columns (every row in a table does,
  so an UPDATE is judged by what it makes of rows that fit). A call that fails leaves
  the tables alone. A call on one connection shows on that connection only; a
  transaction starts from the committed tables, and when its function succeeds either
  commits all of its changes or, the connection being lost, reports an error after
  committing all or none of them.
\<close>

text \<open>Errors that are not the program's own.\<close>

definition foreign :: "error + 'a \<Rightarrow> bool" where
  "foreign r \<longleftrightarrow> (case r of Inr _ \<Rightarrow> True | Inl e \<Rightarrow> e = ErrRecordNotFound \<or> (\<exists>m. e = ErrOther m))"

locale gorm_contract =
  fixes V :: "(conn, 'w, tables, 'o) window"
    and G :: "'w gorm"
    and jsonb :: "string \<Rightarrow> string option"
    and fits :: "row \<Rightarrow> bool"
    and coll :: "string \<Rightarrow> string \<Rightarrow> bool"
  assumes coll: "linear_preorder coll"
    and Create: "writes V c (\<lambda>h T. changed h
      (fits x \<and> (\<exists>i n t x'. stored jsonb i n t x = Some x' \<and> insertable x' T))
      (\<lambda>x' T'. (\<exists>i n t. stored jsonb i n t x = Some x') \<and> insertable x' T \<and> T' = add_row x' T)
      T) (g_Create G c x)"
    and CreateDoNothing: "explicit_key x \<Longrightarrow> writes V c (\<lambda>h T. changed h
      (fits x \<and> (clashes x T \<or> refs_ok x T))
      (\<lambda>_ T'. if clashes x T then T' = T
              else \<exists>i n t. refs_ok x T \<and> T' = add_row (fill i n t x) T)
      T) (g_CreateDoNothing G c x)"
    and First: "reads V c (\<lambda>h T. found ErrRecordNotFound h (firsts coll q T)) (g_First G c q)"
    and Find: "paged q \<Longrightarrow>
      reads V c (\<lambda>h T. answered h (page_of coll q (q_rows q T))) (g_Find G c q)"
    and Find_reads: "reads V c (\<lambda>h T r. True) (g_Find G c q)"
    and Count: "reads V c (\<lambda>h T. answered h (\<lambda>n. n = int (length (rows T)))) (g_Count G c rows)"
    and Update: "writes V c (\<lambda>h T. changed h
      ((\<forall>r. p r \<longrightarrow> fits r \<longrightarrow> fits (g r)) \<and> (\<forall>t. wf_tables (update_rows p (\<lambda>r. touch t (g r)) T)))
      (\<lambda>_ T'. \<exists>t. T' = update_rows p (\<lambda>r. touch t (g r)) T) T) (g_Update G c p g)"
    and Delete: "writes V c (\<lambda>h T. changed h
      (wf_tables (delete_rows p T)) (\<lambda>_ T'. T' = delete_rows p T) T) (g_Delete G c p)"
    and Transaction: "g_Transaction G f w = (r, w') \<Longrightarrow> transacted V BaseDB TxDB (f TxDB) w r w'"
    and fits_keys: "fits (UserRoleRow ur)" "fits (RolePermRow rp)"
    and fits_revoked: "fits (TokenRow tm) \<Longrightarrow> fits (TokenRow (tm\<lparr>rtm_RevokedAt := now\<rparr>))"
    and fits_sent: "fits (OutboxRow om) \<Longrightarrow>
      fits (OutboxRow (om\<lparr>om_Status := ''sent'', om_SentAt := now\<rparr>))"
    and foreign_Create: "g_Create G c x w = (r1, w') \<Longrightarrow> foreign r1"
    and foreign_First: "g_First G c q w = (r1, w') \<Longrightarrow> foreign r1"
    and up_wf: "up V w \<Longrightarrow> wf_tables (seen V c w)"

section \<open>A reference engine\<close>

text \<open>
  The database part of a world: the committed tables, the tables of the open
  transaction, a plan of faults (a call that finds \<open>True\<close> at its head fails) and a
  clock. Generated keys are the first free ones.
\<close>

record db_world =
  db_base :: tables
  db_tx :: tables
  db_faults :: "bool list"
  db_clock :: time

definition db_get :: "conn \<Rightarrow> 'x db_world_scheme \<Rightarrow> tables" where
  "db_get c w = (case c of BaseDB \<Rightarrow> db_base w | TxDB \<Rightarrow> db_tx w)"

definition db_put :: "conn \<Rightarrow> tables \<Rightarrow> 'x db_world_scheme \<Rightarrow> 'x db_world_scheme" where
  "db_put c T w = (case c of BaseDB \<Rightarrow> w\<lparr>db_base := T\<rparr> | TxDB \<Rightarrow> w\<lparr>db_tx := T\<rparr>)"

definition ref_window :: "(conn, 'x db_world_scheme, tables, 'x) window" where
  "ref_window = \<lparr>seen = db_get, rest = db_world.more, 
     up = (\<lambda>w. True \<notin> set (db_faults w) \<and> wf_tables (db_base w) \<and> wf_tables (db_tx w))\<rparr>"

definition ref_call ::
  "(time \<Rightarrow> tables \<Rightarrow> (error + 'a) \<times> tables) \<Rightarrow> conn \<Rightarrow> ('x db_world_scheme, error, 'a) cmd" where
  "ref_call f c w =
     (if db_faults w \<noteq> [] \<and> hd (db_faults w)
      then (Inl (ErrOther ''fault''), w\<lparr>db_faults := tl (db_faults w)\<rparr>)
      else (case f (db_clock w) (db_get c w) of (r, T) \<Rightarrow>
        (r, db_put c T (w\<lparr>db_faults := tl (db_faults w), db_clock := db_clock w + 1\<rparr>))))"

definition fresh :: "(nat \<Rightarrow> 'a) \<Rightarrow> 'a list \<Rightarrow> nat" where
  "fresh g used =
     (case find (\<lambda>n. g n \<notin> set used) [1..<length used + 2] of None \<Rightarrow> 0 | Some n \<Rightarrow> n)"

fun used_ids :: "row \<Rightarrow> tables \<Rightarrow> uuid list" where
  "used_ids (UserRow m) T = user_ids T"
| "used_ids (RoleRow m) T = role_ids T"
| "used_ids (PermRow m) T = perm_ids T"
| "used_ids (TokenRow m) T = map rtm_ID (tb_refresh_tokens T)"
| "used_ids _ T = []"

fun fresh_no :: "row \<Rightarrow> tables \<Rightarrow> nat" where
  "fresh_no (OutboxRow m) T = fresh of_nat (map om_ID (tb_outbox_events T))"
| "fresh_no (AuditRow m) T = fresh int (map am_ID (tb_audit_logs T))"
| "fresh_no _ T = 0"

definition auto_fill :: "time \<Rightarrow> row \<Rightarrow> tables \<Rightarrow> row" where
  "auto_fill t x T = fill (of_nat (fresh of_nat (used_ids x T))) (fresh_no x T) t x"

definition ref_create :: "row \<Rightarrow> time \<Rightarrow> tables \<Rightarrow> (error + row) \<times> tables" where
  "ref_create x t T =
     (let y = auto_fill t x T
      in if insertable y T then (Inr y, add_row y T) else (Inl (ErrOther ''constraint''), T))"

definition ref_create_nothing :: "row \<Rightarrow> time \<Rightarrow> tables \<Rightarrow> (error + unit) \<times> tables" where
  "ref_create_nothing x t T =
     (if clashes x T then (Inr (), T)
      else if refs_ok x T then (Inr (), add_row (auto_fill t x T) T)
      else (Inl (ErrOther ''constraint''), T))"

fun insort_by :: "('a \<Rightarrow> 'a \<Rightarrow> bool) \<Rightarrow> 'a \<Rightarrow> 'a list \<Rightarrow> 'a list" where
  "insort_by le x [] = [x]"
| "insort_by le x (y # ys) = (if le x y then x # y # ys else y # insort_by le x ys)"

definition ref_coll :: "string \<Rightarrow> string \<Rightarrow> bool" where
  "ref_coll a b \<longleftrightarrow> lexordp_eq (map (of_char :: char \<Rightarrow> nat) a) (map of_char b)"

definition ref_first :: "query \<Rightarrow> time \<Rightarrow> tables \<Rightarrow> (error + row) \<times> tables" where
  "ref_first q t T =
     (let rows = q_rows q T
      in case filter (\<lambda>x. list_all (row_le ref_coll (q_order q) x) rows) rows of
           [] \<Rightarrow> (Inl ErrRecordNotFound, T) | x # _ \<Rightarrow> (Inr x, T))"

definition ref_find :: "query \<Rightarrow> time \<Rightarrow> tables \<Rightarrow> (error + row list) \<times> tables" where
  "ref_find q t T =
     (Inr (limited q (foldr (insort_by (row_le ref_coll (q_order q))) (q_rows q T) [])), T)"

definition checked :: "tables \<Rightarrow> tables \<Rightarrow> (error + unit) \<times> tables" where
  "checked T T' = (if wf_tables T' then (Inr (), T') else (Inl (ErrOther ''constraint''), T))"

definition ref_transaction ::
  "(conn \<Rightarrow> ('x db_world_scheme, error, unit) cmd) \<Rightarrow> ('x db_world_scheme, error, unit) cmd" where
  "ref_transaction f w =
     (if db_faults w \<noteq> [] \<and> hd (db_faults w)
      then (Inl (ErrOther ''fault''), w\<lparr>db_faults := tl (db_faults w)\<rparr>)
      else case f TxDB (w\<lparr>db_faults := tl (db_faults w), db_tx := db_base w\<rparr>) of
        (Inl e, w1) \<Rightarrow> (Inl e, w1)
      | (Inr _, w1) \<Rightarrow>
          if db_faults w1 \<noteq> [] \<and> hd (db_faults w1)
          then (Inl (ErrOther ''fault''), w1\<lparr>db_faults := tl (db_faults w1)\<rparr>)
          else (Inr (), w1\<lparr>db_faults := tl (db_faults w1), db_base := db_tx w1\<rparr>))"

definition ref_gorm :: "'x db_world_scheme gorm" where
  "ref_gorm = \<lparr>
     g_Create = (\<lambda>c x. ref_call (ref_create x) c),
     g_CreateDoNothing = (\<lambda>c x. ref_call (ref_create_nothing x) c),
     g_First = (\<lambda>c q. ref_call (ref_first q) c),
     g_Find = (\<lambda>c q. ref_call (ref_find q) c),
     g_Count = (\<lambda>c f. ref_call (\<lambda>t T. (Inr (int (length (f T))), T)) c),
     g_Update = (\<lambda>c p g. ref_call (\<lambda>t T. checked T (update_rows p (\<lambda>r. touch t (g r)) T)) c),
     g_Delete = (\<lambda>c p. ref_call (\<lambda>t T. checked T (delete_rows p T)) c),
     g_Transaction = ref_transaction\<rparr>"

subsection \<open>It meets the contract\<close>

lemma fresh_unused:
  assumes "\<exists>n\<in>{1..<length used + 2}. g n \<notin> set used"
  shows "g (fresh g used) \<notin> set used"
proof -
  obtain n where n: "find (\<lambda>n. g n \<notin> set used) [1..<length used + 2] = Some n"
    using assms by (cases "find (\<lambda>n. g n \<notin> set used) [1..<length used + 2]")
      (auto simp only: find_None_iff set_upt)
  then have "g n \<notin> set used" by (auto simp only: find_Some_iff)
  with n show ?thesis by (simp add: fresh_def)
qed

lemma fresh_inj:
  assumes "inj_on g {1..<length used + 2}"
  shows "g (fresh g used) \<notin> set used"
proof (rule fresh_unused, rule ccontr)
  assume "\<not> (\<exists>n\<in>{1..<length used + 2}. g n \<notin> set used)"
  then have "g ` {1..<length used + 2} \<subseteq> set used" by blast
  then have "card (g ` {1..<length used + 2}) \<le> length used"
    by (metis card_length card_mono finite_set order_trans)
  then show False using assms by (simp add: card_image)
qed

lemma fresh_int: "int (fresh int used) \<notin> set used"
  by (rule fresh_inj) simp

lemma fresh_word:
  fixes used :: "'a::len word list"
  assumes "a \<notin> set used"
  shows "of_nat (fresh of_nat used) \<notin> set used"
proof (cases "length used + 2 \<le> 2 ^ LENGTH('a)")
  case True
  have "inj_on (of_nat :: nat \<Rightarrow> 'a word) {1..<length used + 2}"
    by (rule inj_on_inverseI [where g = unat]) (use True in \<open>simp add: unat_of_nat\<close>)
  then show ?thesis by (rule fresh_inj)
next
  case False
  define n where "n = (if unat a = 0 then 2 ^ LENGTH('a) else unat a)"
  have bound: "unat a < 2 ^ LENGTH('a)" by (rule unsigned_less)
  have "of_nat n = a" by (simp add: n_def unsigned_eq_0_iff)
  moreover from False bound have "unat a < length used + 2" by linarith
  with False have "n \<in> {1..<length used + 2}" by (auto simp: n_def)
  ultimately show ?thesis using assms by (intro fresh_unused) auto
qed

lemma ref_call_writes:
  assumes wf: "\<And>t T. wf_tables T \<Longrightarrow> wf_tables (snd (f t T))"
    and "\<And>t T. Q True T (fst (f t T)) (snd (f t T))"
    and "\<And>t T. Q False T (fst (f t T)) (snd (f t T))"
    and "\<And>T. Q False T (Inl (ErrOther ''fault'')) T"
  shows "writes ref_window c Q (ref_call f c)"
proof (rule writesI)
  fix w r w' assume run: "ref_call f c w = (r, w')"
  have up: "up ref_window w \<Longrightarrow> up ref_window w'"
    using run wf [of "db_get c w" "db_clock w"] by (cases "db_faults w"; cases c)
      (auto simp: ref_call_def ref_window_def db_put_def db_get_def split: if_splits prod.splits)
  have "touched ref_window c w w'"
    using run up by (cases c)
      (auto simp: ref_call_def ref_window_def touched_def db_get_def db_put_def
        split: if_splits prod.splits conn.splits)
  moreover have "Q (up ref_window w) (seen ref_window c w) r (seen ref_window c w')"
  proof (cases "db_faults w \<noteq> [] \<and> hd (db_faults w)")
    case True
    then have "\<not> up ref_window w"
      by (cases "db_faults w") (auto simp: ref_window_def)
    with True run assms(4) show ?thesis
      by (cases c) (auto simp: ref_call_def ref_window_def db_get_def)
  next
    case False
    then obtain T where "f (db_clock w) (db_get c w) = (r, T)" and "db_get c w' = T"
      using run by (cases c) (auto simp: ref_call_def db_get_def db_put_def split: prod.splits)
    moreover have "Q h (db_get c w) (fst (f (db_clock w) (db_get c w)))
        (snd (f (db_clock w) (db_get c w)))" for h
      using assms(2,3) by (cases h) simp_all
    ultimately show ?thesis by (simp add: ref_window_def)
  qed
  ultimately show "touched ref_window c w w' \<and>
      Q (up ref_window w) (seen ref_window c w) r (seen ref_window c w')" ..
qed

lemma ref_call_reads:
  assumes "\<And>t T. snd (f t T) = T"
    and "\<And>t T. Q True T (fst (f t T))" and "\<And>t T. Q False T (fst (f t T))"
    and "\<And>T. Q False T (Inl (ErrOther ''fault''))"
  shows "reads ref_window c Q (ref_call f c)"
proof -
  have "writes ref_window c (\<lambda>h T r T'. Q h T r \<and> T' = T) (ref_call f c)"
    by (rule ref_call_writes) (simp_all add: assms)
  then show ?thesis
    by (fastforce simp: reads_def writes_def touched_def untouched_def)
qed

lemma ref_call_foreign:
  assumes "\<And>t T. foreign (fst (f t T))" and "ref_call f c w = (r, w')"
  shows "foreign r"
proof (cases "db_faults w \<noteq> [] \<and> hd (db_faults w)")
  case True
  with assms(2) show ?thesis by (auto simp: ref_call_def foreign_def)
next
  case False
  with assms(2) assms(1) [of "db_clock w" "db_get c w"] show ?thesis
    by (auto simp: ref_call_def split: prod.splits)
qed

lemma insertable_auto_fill:
  assumes "insertable (fill i n t x) T"
  shows "insertable (auto_fill t' x T) T"
proof -
  have free: "of_nat (fresh of_nat (used_ids x T)) \<notin> set (used_ids x T)"
    if "i \<notin> set (used_ids x T)"
    using that by (rule fresh_word)
  from assms show ?thesis
    using free fresh_word [of "of_nat n" "map om_ID (tb_outbox_events T)"]
      fresh_int [of "map am_ID (tb_audit_logs T)"]
    by (cases x) (auto simp: insertable_def auto_fill_def split: if_splits)
qed

lemma stored_Some [simp]: "stored Some i n t x = Some (fill i n t x)"
  by (cases x) (simp_all add: stored_def)

lemma mset_insort_by [simp]: "mset (insort_by le x ys) = add_mset x (mset ys)"
  by (induction ys) auto

lemma set_insort_by [simp]: "set (insort_by le x ys) = insert x (set ys)"
  by (induction ys) auto

lemma mset_foldr_insort [simp]: "mset (foldr (insort_by le) xs []) = mset xs"
  by (induction xs) auto

lemma sorted_insort_by:
  assumes "linear_preorder le" and "sorted_wrt le ys"
  shows "sorted_wrt le (insort_by le x ys)"
  using assms(2)
proof (induction ys)
  case Nil
  then show ?case by simp
next
  case (Cons y ys)
  with assms(1) show ?case by (fastforce simp: linear_preorder_def)
qed

lemma sorted_foldr_insort:
  "linear_preorder le \<Longrightarrow> sorted_wrt le (foldr (insort_by le) xs [])"
  by (induction xs) (simp_all add: sorted_insort_by)

lemma ref_coll_linear: "linear_preorder ref_coll"
  unfolding linear_preorder_def ref_coll_def
  by (meson lexordp_eq_linear lexordp_eq_trans)

lemma ref_transaction_transacted:
  assumes "ref_transaction f w = (r, w')"
  shows "transacted ref_window BaseDB TxDB (f TxDB) w r w'"
proof (cases "db_faults w \<noteq> [] \<and> hd (db_faults w)")
  case True
  with assms have "\<exists>e. r = Inl e" and "\<not> up ref_window w" and "untouched ref_window w w'"
    by (cases "db_faults w"; auto simp: ref_transaction_def ref_window_def untouched_def db_get_def
        split: conn.splits)+
  then show ?thesis by (auto simp: transacted_def)
next
  case False
  let ?w0 = "w\<lparr>db_faults := tl (db_faults w), db_tx := db_base w\<rparr>"
  have w0: "seen ref_window BaseDB ?w0 = seen ref_window BaseDB w"
    "seen ref_window TxDB ?w0 = seen ref_window BaseDB w"
    "rest ref_window ?w0 = rest ref_window w" "up ref_window w \<longrightarrow> up ref_window ?w0"
    by (cases "db_faults w"; auto simp: ref_window_def db_get_def)+
  obtain r1 w1 where f: "f TxDB ?w0 = (r1, w1)" by force
  note ref = ref_transaction_def ref_window_def db_get_def
  show ?thesis
  proof (cases r1)
    case (Inl e)
    with False assms f have "r = Inl e" "w' = w1" by (auto simp: ref_transaction_def)
    with f Inl show ?thesis by (auto intro: transacted_rollback [OF w0])
  next
    case (Inr u)
    with f have run: "f TxDB ?w0 = (Inr u, w1)" by simp
    show ?thesis
    proof (cases "db_faults w1 \<noteq> [] \<and> hd (db_faults w1)")
      case True
      with False assms run have "r = Inl (ErrOther ''fault'')" "\<not> up ref_window w1"
        "rest ref_window w' = rest ref_window w1"
        "seen ref_window BaseDB w' = seen ref_window BaseDB w1"
        by (cases "db_faults w1"; auto simp: ref)+
      with run show ?thesis by (auto intro: transacted_lost [OF w0])
    next
      case no_fault: False
      with False assms run have "r = Inr ()" "up ref_window w1 \<longrightarrow> up ref_window w'"
        "rest ref_window w' = rest ref_window w1"
        "seen ref_window BaseDB w' = seen ref_window TxDB w1"
        by (cases "db_faults w1"; auto simp: ref)+
      with run show ?thesis by (auto intro: transacted_commit [OF w0])
    qed
  qed
qed

lemma ref_create_wf: "wf_tables T \<Longrightarrow> wf_tables (snd (ref_create x t T))"
  by (auto simp: ref_create_def Let_def intro: wf_add_row)

lemma refs_ok_auto_fill [simp]: "explicit_key x \<Longrightarrow> refs_ok (auto_fill t x T) T' = refs_ok x T'"
  by (cases x) (auto simp: auto_fill_def)

lemma clashes_auto_fill [simp]: "explicit_key x \<Longrightarrow> clashes (auto_fill t x T) T' = clashes x T'"
  by (cases x) (auto simp: auto_fill_def)

lemma ref_create_nothing_wf:
  "explicit_key x \<Longrightarrow> wf_tables T \<Longrightarrow> wf_tables (snd (ref_create_nothing x t T))"
  by (auto simp: ref_create_nothing_def insertable_def intro!: wf_add_row)

lemma checked_wf: "wf_tables T \<Longrightarrow> wf_tables (snd (checked T T'))"
  by (simp add: checked_def)

interpretation ref_db: gorm_contract ref_window ref_gorm Some "\<lambda>_. True" ref_coll
proof (unfold_locales, unfold ref_gorm_def gorm.simps, goal_cases)
  case 1
  show ?case by (rule ref_coll_linear)
next
  case (2 c x)
  show ?case
    by (rule ref_call_writes [OF ref_create_wf])
      (auto simp: ref_create_def Let_def auto_fill_def [symmetric] dest: insertable_auto_fill,
       auto simp: auto_fill_def)
next
  case (3 x c)
  then show ?case
    by (intro ref_call_writes ref_create_nothing_wf)
      (auto simp: ref_create_nothing_def, auto simp: auto_fill_def)
next
  case (4 c q)
  show ?case
    by (rule ref_call_reads)
      (auto simp: ref_first_def firsts_def Let_def filter_empty_conv list_all_iff filter_eq_Cons_iff
        split: list.splits)
next
  case (5 q c)
  have "linear_preorder (row_le ref_coll (q_order q))"
    by (rule row_le_linear [OF ref_coll_linear])
  then have "page_of ref_coll q rows
      (limited q (foldr (insort_by (row_le ref_coll (q_order q))) rows []))" for rows
    unfolding page_of_def by (blast intro: mset_foldr_insort sorted_foldr_insort)
  then show ?case by (intro ref_call_reads) (simp_all add: ref_find_def)
next
  case (6 c q)
  show ?case by (rule ref_call_reads) (simp_all add: ref_find_def)
next
  case (7 c rows)
  show ?case by (rule ref_call_reads) simp_all
next
  case (8 c p g)
  show ?case by (rule ref_call_writes [OF checked_wf]) (auto simp: checked_def)
next
  case (9 c p)
  show ?case by (rule ref_call_writes [OF checked_wf]) (auto simp: checked_def)
next
  case (10 f w r w')
  then show ?case by (rule ref_transaction_transacted)
next
  case 11
  show ?case ..
next
  case 12
  show ?case ..
next
  case 13
  show ?case ..
next
  case 14
  show ?case ..
next
  case (15 c x w r w')
  then show ?case
    by (rule ref_call_foreign [rotated]) (simp add: ref_create_def foreign_def Let_def)
next
  case (16 c q w r w')
  then show ?case
    by (rule ref_call_foreign [rotated])
      (simp add: ref_first_def foreign_def Let_def split: list.splits)
next
  case (17 w c)
  then show ?case by (simp add: ref_window_def db_get_def split: conn.splits)
qed

end
