(* ===== verification/Platform.thy ===== *)
theory Platform
  imports Gorm
begin

text \<open>
  The rest of the platform the services run on: the pure functions of other packages
  (\<open>lib\<close>), and the clock, the random sources and the Prometheus registry (\<open>runtime\<close>).
  Both are arguments of the definitions that use them; the laws the proofs need of them
  are the assumptions of the locales below and in the theories that use them.
\<close>

section \<open>Library functions\<close>

text \<open>
  \<open>json.Marshal\<close> and \<open>json.Unmarshal\<close>, \<open>uuid.UUID.String\<close> and \<open>uuid.Parse\<close>,
  \<open>sha256.Sum256\<close>, \<open>bcrypt.CompareHashAndPassword\<close> (hash first), and the text of an instant
  in JSON.
\<close>

record lib =
  json_Marshal :: "json \<Rightarrow> string option"
  json_Unmarshal :: "string \<Rightarrow> json option"
  uuid_String :: "uuid \<Rightarrow> string"
  uuid_Parse :: "string \<Rightarrow> uuid option"
  sha256_Sum :: "string \<Rightarrow> string"
  bcrypt_Compare :: "string \<Rightarrow> string \<Rightarrow> bool"
  time_Text :: "time \<Rightarrow> string"

text \<open>Decoding into a \<open>map[string]interface{}\<close>: an object, or null, which leaves the map nil.\<close>

definition unmarshal_map :: "lib \<Rightarrow> string \<Rightarrow> json_map option" where
  "unmarshal_map L s =
     (case json_Unmarshal L s of
        Some (JObj fs) \<Rightarrow> Some fs
      | Some JNull \<Rightarrow> Some []
      | _ \<Rightarrow> None)"

text \<open>\<open>hex.EncodeToString\<close>: two lower-case digits per byte, high digit first.\<close>

definition hex_digit :: "nat \<Rightarrow> char" where
  "hex_digit n = ''0123456789abcdef'' ! n"

definition hex_byte :: "char \<Rightarrow> string" where
  "hex_byte c = (let n = of_char c :: nat in [hex_digit (n div 16), hex_digit (n mod 16)])"

definition hex_Encode :: "string \<Rightarrow> string" where
  "hex_Encode s = concat (map hex_byte s)"

lemma hex_digit_eq: "m < 16 \<Longrightarrow> n < 16 \<Longrightarrow> hex_digit m = hex_digit n \<longleftrightarrow> m = n"
  unfolding hex_digit_def by (rule nth_eq_iff_index_eq) (simp_all add: eval_nat_numeral)

lemma hex_byte_inj: "hex_byte c = hex_byte d \<Longrightarrow> c = d"
proof -
  let ?n = "\<lambda>c. of_char c :: nat"
  have bound: "?n c < 16 * 16" for c using nat_of_char_less_256 [of c] by simp
  assume "hex_byte c = hex_byte d"
  then have "?n c div 16 = ?n d div 16" and "?n c mod 16 = ?n d mod 16"
    using bound [of c] bound [of d]
    by (auto simp: hex_byte_def Let_def hex_digit_eq less_mult_imp_div_less)
  then have "?n c = ?n d" by (metis div_mult_mod_eq)
  then show ?thesis by simp
qed

lemma length_hex_byte [simp]: "length (hex_byte c) = 2"
  by (simp add: hex_byte_def Let_def)

theorem hex_Encode_inj: "hex_Encode s = hex_Encode t \<longleftrightarrow> s = t"
proof
  show "hex_Encode s = hex_Encode t \<Longrightarrow> s = t"
  proof (induction s arbitrary: t)
    case Nil
    then show ?case by (cases t) (auto simp: hex_Encode_def hex_byte_def Let_def)
  next
    case (Cons c s)
    then obtain d u where t: "t = d # u"
      by (cases t) (auto simp: hex_Encode_def hex_byte_def Let_def)
    with Cons.prems have "hex_byte c = hex_byte d" and "hex_Encode s = hex_Encode u"
      by (auto simp: hex_Encode_def)
    with Cons.IH [of u] t show ?case by (simp add: hex_byte_inj)
  qed
qed simp

lemma length_hex_Encode [simp]: "length (hex_Encode s) = 2 * length s"
  by (induction s) (simp_all add: hex_Encode_def)

section \<open>Metrics: metrics.go\<close>

datatype counter =
    LoginSuccessTotal
  | LoginFailureTotal
  | UsersCreatedTotal
  | RoleAssignmentsTotal
  | PermissionChecksTotal string string
  | RedisCacheHitTotal
  | RedisCacheMissTotal
  | RabbitMQPublishedTotal string
  | EventsConsumedTotal string string

section \<open>Runtime\<close>

text \<open>
  \<open>time.Now\<close>; \<open>rand.Read\<close> of some bytes; \<open>uuid.NewString\<close>;
  \<open>bcrypt.GenerateFromPassword\<close>, which salts; \<open>Inc\<close> on a counter; \<open>Set\<close> on the gauge
  \<open>OutboxRelayLagSeconds\<close>; \<open>Observe\<close> on the histogram \<open>HTTPRequestDuration\<close>, labelled with
  method, path and status.
\<close>

record 'w runtime =
  rt_Now :: "'w \<Rightarrow> time \<times> 'w"
  rt_Rand :: "nat \<Rightarrow> 'w \<Rightarrow> string \<times> 'w"
  rt_NewString :: "'w \<Rightarrow> string \<times> 'w"
  rt_Bcrypt :: "string \<Rightarrow> ('w, error, string) cmd"
  rt_Inc :: "counter \<Rightarrow> 'w \<Rightarrow> 'w"
  rt_SetLag :: "duration \<Rightarrow> 'w \<Rightarrow> 'w"
  rt_Observe :: "string \<Rightarrow> string \<Rightarrow> int \<Rightarrow> duration \<Rightarrow> 'w \<Rightarrow> 'w"

text \<open>A statement without a result.\<close>

definition doS :: "('w \<Rightarrow> 'w) \<Rightarrow> ('w \<Rightarrow> 'a \<times> 'w) \<Rightarrow> 'w \<Rightarrow> 'a \<times> 'w" where
  "doS f m w = m (f w)"

text \<open>A command that shows in no view of a window.\<close>

definition silent :: "('c, 'w, 's, 'o) window \<Rightarrow> ('w \<Rightarrow> 'a \<times> 'w) \<Rightarrow> bool" where
  "silent V m \<longleftrightarrow> (\<forall>w a w'. m w = (a, w') \<longrightarrow> untouched V w w')"

lemma silentD: "silent V m \<Longrightarrow> m w = (a, w') \<Longrightarrow> untouched V w w'"
  by (simp add: silent_def)

lemma silent_writes:
  assumes "silent V m" and "\<And>a. writes V c Q (f a)"
    and "\<And>h h' s r s'. Q h s r s' \<Longrightarrow> (h' \<longrightarrow> h) \<Longrightarrow> Q h' s r s'"
  shows "writes V c Q (bindS m f)"
proof (rule writesI)
  fix w r w' assume "bindS m f w = (r, w')"
  then obtain a w1 where m: "m w = (a, w1)" and f: "f a w1 = (r, w')" by (auto simp: cmd_simps)
  note u = silentD [OF assms(1) m]
  note W = writesD [OF assms(2) f]
  from u W assms(3) [of "up V w1" "seen V c w1" r "seen V c w'" "up V w"]
  show "touched V c w w' \<and> Q (up V w) (seen V c w) r (seen V c w')"
    by (auto simp: untouched_up untouched_seen intro: touched_trans [OF untouched_touched])
qed

lemma changed_mono: "changed h p F s r s' \<Longrightarrow> (h' \<longrightarrow> h) \<Longrightarrow> changed h' p F s r s'"
  by (auto simp: changed_def split: sum.splits)

lemma silent_reindex: "silent V m \<Longrightarrow> silent (reindex k V) m"
  by (auto simp: silent_def untouched_def)

text \<open>
  The clock, the random sources and the hashing show in no window; the metrics may show
  outside it.
\<close>

locale quiet_runtime =
  fixes V :: "('c, 'w, 's, 'o) window" and RT :: "'w runtime"
  assumes Now_silent: "silent V (rt_Now RT)"
    and Rand_silent: "silent V (rt_Rand RT n)"
    and NewString_silent: "silent V (rt_NewString RT)"
    and Bcrypt_silent: "silent V (rt_Bcrypt RT pw)"
    and Bcrypt_error: "rt_Bcrypt RT pw w = (Inl e, w') \<Longrightarrow> \<exists>m. e = ErrOther m"
    and Inc_seen: "seen V c (rt_Inc RT k w) = seen V c w"
    and Inc_up: "up V w \<Longrightarrow> up V (rt_Inc RT k w)"
    and SetLag_seen: "seen V c (rt_SetLag RT d w) = seen V c w"
    and SetLag_up: "up V w \<Longrightarrow> up V (rt_SetLag RT d w)"
    and Observe_seen: "seen V c (rt_Observe RT meth path stat d w) = seen V c w"
    and Observe_up: "up V w \<Longrightarrow> up V (rt_Observe RT meth path stat d w)"

lemma quiet_runtime_reindex: "quiet_runtime V RT \<Longrightarrow> quiet_runtime (reindex k V) RT"
  by (simp add: quiet_runtime_def silent_reindex)

text \<open>Two windows on the same world: what leaves the outside of one alone leaves the other alone.\<close>

definition apart :: "('c, 'w, 's, 'o) window \<Rightarrow> ('d, 'w, 't, 'q) window \<Rightarrow> bool" where
  "apart V K \<longleftrightarrow>
     (\<forall>w w'. rest V w' = rest V w \<longrightarrow>
        (\<forall>d. seen K d w' = seen K d w) \<and> (up K w \<longrightarrow> up K w')) \<and>
     (\<forall>w w'. rest K w' = rest K w \<longrightarrow>
        (\<forall>c. seen V c w' = seen V c w) \<and> (up V w \<longrightarrow> up V w'))"

lemma apartD:
  assumes "apart V K"
  shows "touched V c w w' \<Longrightarrow> seen K d w' = seen K d w"
    and "touched V c w w' \<Longrightarrow> up K w \<Longrightarrow> up K w'"
    and "touched K d w w' \<Longrightarrow> seen V c w' = seen V c w"
    and "touched K d w w' \<Longrightarrow> up V w \<Longrightarrow> up V w'"
  using assms unfolding apart_def touched_def by blast+

lemma apart_untouched:
  assumes "apart V K"
  shows "untouched V w w' \<Longrightarrow> seen K d w' = seen K d w"
    and "untouched V w w' \<Longrightarrow> up K w \<Longrightarrow> up K w'"
  using assms unfolding apart_def untouched_def by blast+

lemma apart_rest:
  assumes "apart V K"
  shows "rest V w' = rest V w \<Longrightarrow> seen K d w' = seen K d w"
    and "rest V w' = rest V w \<Longrightarrow> up K w \<Longrightarrow> up K w'"
  using assms unfolding apart_def by blast+

lemma apart_reindex: "apart V K \<Longrightarrow> apart (reindex k V) K"
  unfolding apart_def reindex_sel by blast

locale pg_clock = gorm_contract V G jsonb fits coll + quiet_runtime V RT
  for V :: "(conn, 'w, tables, 'o) window" and G jsonb fits coll and RT :: "'w runtime"

section \<open>Reference library functions\<close>

text \<open>
  A reference instance of \<open>lib\<close> for the examples: a list of strings is written with the
  length of each, in unary, before it; JSON is limited to null and to objects with string
  values; hashes are the text itself.
\<close>

fun enc_strings :: "string list \<Rightarrow> string" where
  "enc_strings [] = []"
| "enc_strings (s # ss) = replicate (length s) CHR ''#'' @ CHR '':'' # s @ enc_strings ss"

fun dec_strings :: "nat \<Rightarrow> string \<Rightarrow> string list" where
  "dec_strings n [] = []"
| "dec_strings n (c # s) =
     (if c = CHR ''#'' then dec_strings (n + 1) s else take n s # dec_strings 0 (drop n s))"

lemma dec_enc_one: "dec_strings n (replicate k CHR ''#'' @ CHR '':'' # s) =
    take (n + k) s # dec_strings 0 (drop (n + k) s)"
  by (induction k arbitrary: n) simp_all

lemma dec_enc_strings [simp]: "dec_strings 0 (enc_strings ss) = ss"
  by (induction ss) (simp_all add: dec_enc_one)

fun str_fields :: "(string \<times> json) list \<Rightarrow> string list option" where
  "str_fields [] = Some []"
| "str_fields ((k, JStr v) # fs) = map_option (\<lambda>ss. k # v # ss) (str_fields fs)"
| "str_fields (_ # fs) = None"

fun fields_str :: "string list \<Rightarrow> (string \<times> json) list" where
  "fields_str (k # v # ss) = (k, JStr v) # fields_str ss"
| "fields_str _ = []"

lemma fields_str_fields: "str_fields fs = Some ss \<Longrightarrow> fields_str ss = fs"
  by (induction fs arbitrary: ss rule: str_fields.induct) auto

definition ref_Marshal :: "json \<Rightarrow> string option" where
  "ref_Marshal j = (case j of
     JNull \<Rightarrow> Some ''null''
   | JObj fs \<Rightarrow> map_option (\<lambda>ss. CHR ''{'' # enc_strings ss) (str_fields fs)
   | _ \<Rightarrow> None)"

definition ref_Unmarshal :: "string \<Rightarrow> json option" where
  "ref_Unmarshal s = (case s of
     [] \<Rightarrow> None
   | c # s' \<Rightarrow> if c = CHR ''{'' then Some (JObj (fields_str (dec_strings 0 s')))
       else if s = ''null'' then Some JNull else None)"

lemma ref_Unmarshal_Marshal: "ref_Marshal j = Some s \<Longrightarrow> ref_Unmarshal s = Some j"
  by (cases j) (auto simp: ref_Marshal_def ref_Unmarshal_def fields_str_fields)

fun ref_bytes :: "int \<Rightarrow> nat \<Rightarrow> string" where
  "ref_bytes t 0 = []"
| "ref_bytes t (Suc n) = (if t = 0 then replicate (Suc n) (CHR 0x00)
     else char_of (nat (t mod 256)) # ref_bytes (t div 256) n)"

fun ref_int :: "string \<Rightarrow> int" where
  "ref_int [] = 0"
| "ref_int (c # s) = of_char c + 256 * ref_int s"

lemma ref_bytes_zero: "ref_bytes 0 n = replicate n (CHR 0x00)"
  by (cases n) simp_all

lemma ref_bytes_Suc: "ref_bytes t (Suc n) = char_of (nat (t mod 256)) # ref_bytes (t div 256) n"
  by (simp add: ref_bytes_zero char_of_def)

lemma ref_int_bytes: "0 \<le> t \<Longrightarrow> t < 256 ^ n \<Longrightarrow> ref_int (ref_bytes t n) = t"
proof (induction n arbitrary: t)
  case 0
  then show ?case by simp
next
  case (Suc n)
  then have "t div 256 < 256 ^ n" by (simp add: div_less_iff_less_mult mult.commute)
  moreover have "of_char (char_of (nat (t mod 256)) :: char) = t mod 256"
    by (subst of_nat_of_char [symmetric]) simp
  moreover have "0 \<le> t div 256" using Suc.prems by simp
  ultimately show ?case using Suc.IH [of "t div 256"] by (simp add: ref_bytes_Suc del: ref_bytes.simps)
qed

lemma length_ref_bytes [simp]: "length (ref_bytes t n) = n"
  by (induction n arbitrary: t) simp_all

definition ref_lib :: lib where
  "ref_lib = \<lparr>json_Marshal = ref_Marshal, json_Unmarshal = ref_Unmarshal,
     uuid_String = (\<lambda>u. ref_bytes (uint u) 16),
     uuid_Parse = (\<lambda>s. if length s = 16 then Some (word_of_int (ref_int s)) else None),
     sha256_Sum = (\<lambda>s. s), bcrypt_Compare = (\<lambda>h pw. h = ''hash:'' @ pw),
     time_Text = (\<lambda>t. ref_bytes t 8)\<rparr>"

lemma ref_Parse_String: "uuid_Parse ref_lib (uuid_String ref_lib u) = Some u"
proof -
  have "uint u < 256 ^ 16" using uint_lt2p [of u] by simp
  then show ?thesis by (simp add: ref_lib_def ref_int_bytes)
qed

lemma inj_ref_String: "inj (uuid_String ref_lib)"
  by (rule injI) (metis ref_Parse_String option.inject)

section \<open>A reference runtime\<close>

text \<open>
  The clock of the reference world ticks at each reading; the random sources count its
  ticks, and the metrics go nowhere.
\<close>

definition ref_Now :: "'x db_world_scheme \<Rightarrow> time \<times> 'x db_world_scheme" where
  "ref_Now w = (db_clock w, w\<lparr>db_clock := db_clock w + 1\<rparr>)"

definition ref_Rand :: "nat \<Rightarrow> 'x db_world_scheme \<Rightarrow> string \<times> 'x db_world_scheme" where
  "ref_Rand n w = (ref_bytes (db_clock w) n, w\<lparr>db_clock := db_clock w + 1\<rparr>)"

definition ref_runtime :: "'x db_world_scheme runtime" where
  "ref_runtime = \<lparr>rt_Now = ref_Now, rt_Rand = ref_Rand, rt_NewString = ref_Rand 16,
     rt_Bcrypt = (\<lambda>pw. okE (''hash:'' @ pw)), rt_Inc = (\<lambda>_ w. w), rt_SetLag = (\<lambda>_ w. w),
     rt_Observe = (\<lambda>_ _ _ _ w. w)\<rparr>"

lemma ref_tick: "untouched ref_window w (w\<lparr>db_clock := t\<rparr>)"
  by (auto simp: ref_window_def untouched_def db_get_def split: conn.splits)

interpretation ref_quiet: quiet_runtime ref_window ref_runtime
  by unfold_locales
    (auto simp: silent_def ref_runtime_def ref_Now_def ref_Rand_def okE_def intro: ref_tick)

interpretation ref_clock: pg_clock ref_window ref_gorm Some "\<lambda>_. True" ref_coll ref_runtime ..

end
