(* ===== verification/PgBase.thy ===== *)
theory PgBase
  imports Gorm Platform
begin

text \<open>
  What the Postgres repositories share: the choice of the connection (\<open>tx.go\<close>), the
  translation of GORM's not-found error, the scan of rows into models, and the
  abstraction of the tables to the store of the domain layer.
\<close>

section \<open>Connections: tx.go\<close>

definition dbFromContext :: "ctx \<Rightarrow> conn" where
  "dbFromContext c = (case c of InTx \<Rightarrow> TxDB | Background \<Rightarrow> BaseDB)"

text \<open>\<open>context.WithValue(ctx, txKey, tx)\<close>: the context that carries the handle.\<close>

definition withTx :: "conn \<Rightarrow> ctx" where
  "withTx d = (case d of TxDB \<Rightarrow> InTx | BaseDB \<Rightarrow> Background)"

definition RunInTx_pg :: "'w gorm \<Rightarrow> ctx \<Rightarrow> (ctx \<Rightarrow> ('w, error, unit) cmd) \<Rightarrow> ('w, error, unit) cmd" where
  "RunInTx_pg G c fn = g_Transaction G (\<lambda>tx. fn (withTx tx))"

definition NewTxRunner :: "'w gorm \<Rightarrow> 'w TxRunner" where
  "NewTxRunner G = \<lparr>RunInTx = RunInTx_pg G\<rparr>"

lemma dbFromContext_simps [simp]:
  "dbFromContext Background = BaseDB" "dbFromContext InTx = TxDB"
  by (simp_all add: dbFromContext_def)

lemma inj_dbFromContext: "inj dbFromContext"
  by (rule injI) (auto simp: dbFromContext_def split: ctx.splits)

definition pg_window :: "(conn, 'w, tables, 'o) window \<Rightarrow> (ctx, 'w, tables, 'o) window" where
  "pg_window V = reindex dbFromContext V"

lemma pg_window_sel [simp]:
  "seen (pg_window V) c = seen V (dbFromContext c)"
  "rest (pg_window V) = rest V" "up (pg_window V) = up V"
  by (simp_all add: pg_window_def)

lemma pg_reads: "reads V (dbFromContext c) Q m \<Longrightarrow> reads (pg_window V) c Q m"
  by (simp add: pg_window_def reads_reindex)

lemma pg_writes: "writes V (dbFromContext c) Q m \<Longrightarrow> writes (pg_window V) c Q m"
  by (simp add: pg_window_def writes_reindex inj_dbFromContext)

sublocale gorm_contract \<subseteq> pg_tx: tx_runner "pg_window V" "NewTxRunner G"
proof
  fix c f w r w' assume "RunInTx (NewTxRunner G) c f w = (r, w')"
  then have "transacted V BaseDB TxDB (f InTx) w r w'"
    by (auto simp: NewTxRunner_def RunInTx_pg_def withTx_def dest: Transaction)
  then show "transacted (pg_window V) Background InTx (f InTx) w r w'"
    by (simp add: pg_window_def transacted_reindex)
qed

section \<open>Rows and models\<close>

text \<open>
  GORM scans a row into the model it was given; \<open>first_as\<close> is the code's
  \<open>First(&m, \<dots>)\<close> with the translation of \<open>gorm.ErrRecordNotFound\<close> that follows it in
  every repository, \<open>find_as\<close> its \<open>Find(&models)\<close>, \<open>create_as\<close> its \<open>Create(m)\<close>, which
  also fills the generated columns of \<open>m\<close> in.
\<close>

definition scan :: "(row \<Rightarrow> 'm option) \<Rightarrow> row \<Rightarrow> ('w, error, 'm) cmd" where
  "scan as x = (case as x of None \<Rightarrow> failE (ErrOther ''scan'') | Some m \<Rightarrow> okE m)"

definition not_found :: "error \<Rightarrow> error" where
  "not_found e = (if e = ErrRecordNotFound then ErrNotFound else e)"

definition first_as :: "'w gorm \<Rightarrow> conn \<Rightarrow> query \<Rightarrow> (row \<Rightarrow> 'm option) \<Rightarrow> ('w, error, 'm) cmd" where
  "first_as G d q as = bindS (g_First G d q)
     (\<lambda>r. case r of Inl e \<Rightarrow> failE (not_found e) | Inr x \<Rightarrow> scan as x)"

definition create_as :: "'w gorm \<Rightarrow> conn \<Rightarrow> row \<Rightarrow> (row \<Rightarrow> 'm option) \<Rightarrow> ('w, error, 'm) cmd" where
  "create_as G d x as = bindE (g_Create G d x) (scan as)"

definition find_as ::
  "'w gorm \<Rightarrow> conn \<Rightarrow> query \<Rightarrow> (row \<Rightarrow> 'm option) \<Rightarrow> ('w, error, 'm list) cmd" where
  "find_as G d q as = bindE (g_Find G d q) (\<lambda>xs. okE (collect as xs))"

text \<open>A WHERE condition and a column assignment on one table.\<close>

definition on_row :: "(row \<Rightarrow> 'm option) \<Rightarrow> ('m \<Rightarrow> bool) \<Rightarrow> row \<Rightarrow> bool" where
  "on_row as P x = (case as x of None \<Rightarrow> False | Some m \<Rightarrow> P m)"

definition set_row :: "('m \<Rightarrow> row) \<Rightarrow> (row \<Rightarrow> 'm option) \<Rightarrow> ('m \<Rightarrow> 'm) \<Rightarrow> row \<Rightarrow> row" where
  "set_row con as f x = (case as x of None \<Rightarrow> x | Some m \<Rightarrow> con (f m))"

lemma on_row_simps [sql_simps]:
  "on_row as_user P1 (UserRow a) = P1 a" "on_row as_role P2 (RoleRow b) = P2 b"
  "on_row as_perm P3 (PermRow c) = P3 c" "on_row as_user_role P4 (UserRoleRow d) = P4 d"
  "on_row as_role_perm P5 (RolePermRow e) = P5 e" "on_row as_token P6 (TokenRow f) = P6 f"
  "on_row as_outbox P7 (OutboxRow g) = P7 g" "on_row as_audit P8 (AuditRow h) = P8 h"
  by (simp_all add: on_row_def)

lemma on_row_other [sql_simps]: "as x = None \<Longrightarrow> \<not> on_row as P x"
  by (simp add: on_row_def)

lemma set_cols_other [sql_simps]:
  "(\<And>m. as' (con m) = None) \<Longrightarrow> set_cols con as (on_row as' P) f ms = ms"
  by (simp add: set_cols_def on_row_def)

context gorm_contract
begin

lemma first_as:
  assumes "\<And>T x. x \<in> set (f T) \<Longrightarrow> as x \<noteq> None"
  shows "reads V d (\<lambda>h T. found ErrNotFound h {m. \<exists>x\<in>set (f T). as x = Some m})
           (first_as G d (plain f) as)"
proof (rule readsI)
  fix w r w' assume run: "first_as G d (plain f) as w = (r, w')"
  obtain r1 w1 where g: "g_First G d (plain f) w = (r1, w1)" by force
  from readsD [OF First g] have c: "untouched V w w1"
      "found ErrRecordNotFound (up V w) (set (f (seen V d w))) r1"
    by simp_all
  have fe: "foreign r1" by (rule foreign_First [OF g])
  show "untouched V w w' \<and> found ErrNotFound (up V w)
      {m. \<exists>x\<in>set (f (seen V d w)). as x = Some m} r"
  proof (cases r1)
    case (Inl e)
    with run g have "r = Inl (not_found e)" "w' = w1"
      by (auto simp: first_as_def bindS_def failE_def)
    with c fe Inl show ?thesis by (auto simp: not_found_def foreign_def)
  next
    case (Inr x)
    with c have "x \<in> set (f (seen V d w))" by simp
    moreover from assms [OF this] obtain m where "as x = Some m" by blast
    ultimately show ?thesis
      using run g Inr c by (auto simp: first_as_def bindS_def scan_def okE_def)
  qed
qed

lemma first_as_error: "first_as G d q as w = (Inl e, w') \<Longrightarrow> e = ErrNotFound \<or> (\<exists>m. e = ErrOther m)"
  by (auto simp: first_as_def bindS_def failE_def okE_def scan_def not_found_def foreign_def
      dest!: foreign_First split: prod.splits sum.splits option.splits)

lemma find_as:
  "reads V d (\<lambda>h T. answered h (\<lambda>ms. mset ms = mset (collect as (f T)))) (find_as G d (plain f) as)"
proof (rule readsI)
  fix w r w' assume run: "find_as G d (plain f) as w = (r, w')"
  obtain r1 w1 where g: "g_Find G d (plain f) w = (r1, w1)" by force
  from readsD [OF Find g] have "untouched V w w1"
      "answered (up V w) (\<lambda>xs. mset xs = mset (f (seen V d w))) r1"
    by (cases r1; simp)+
  with run g show "untouched V w w' \<and> answered (up V w)
      (\<lambda>ms. mset ms = mset (collect as (f (seen V d w)))) r"
    by (cases r1) (auto simp: find_as_def bindE_def okE_def dest: mset_collect)
qed

lemma find_as_page:
  assumes "paged q"
  shows "reads V d (\<lambda>h T. answered h (\<lambda>ms. \<exists>xs. page_of coll q (q_rows q T) xs \<and> ms = collect as xs))
    (find_as G d q as)"
proof (rule readsI)
  fix w r w' assume run: "find_as G d q as w = (r, w')"
  obtain r1 w1 where g: "g_Find G d q w = (r1, w1)" by force
  from readsD [OF Find [OF assms] g] run g show "untouched V w w' \<and> answered (up V w)
      (\<lambda>ms. \<exists>xs. page_of coll q (q_rows q (seen V d w)) xs \<and> ms = collect as xs) r"
    by (cases r1) (auto simp: find_as_def bindE_def okE_def)
qed

lemma page_of_models:
  assumes pg: "page_of coll q (map con xs) ys" and as: "\<And>m. as (con m) = Some m"
  shows "\<exists>zs. mset zs = mset xs \<and>
    sorted_wrt (\<lambda>a b. row_le coll (q_order q) (con a) (con b)) zs \<and> collect as ys = limited q zs"
proof -
  from pg obtain rs where rs: "mset rs = mset (map con xs)"
    "sorted_wrt (row_le coll (q_order q)) rs" and ys: "ys = limited q rs"
    by (auto simp: page_of_def)
  from rs(1) have "set rs = con ` set xs" by (metis list.set_map set_mset_mset)
  then obtain zs where zs: "rs = map con zs" by (metis ex_map_conv imageE)
  have "mset (collect as rs) = mset (collect as (map con xs))" by (rule mset_collect [OF rs(1)])
  then have "mset zs = mset xs" by (simp add: zs as collect_map [where h = "\<lambda>x. x"])
  moreover have "collect as (limited q (map con zs)) = limited q zs"
    by (simp add: limited_def drop_map take_map as collect_map [where h = "\<lambda>x. x"] split: option.splits)
  ultimately show ?thesis
    using rs(2) by (auto simp: ys zs sorted_wrt_map)
qed

lemma find_as_sorted:
  assumes "paged q" and "\<And>T. q_rows q T = map con (f T)" and "\<And>m. as (con m) = Some m"
  shows "reads V d (\<lambda>h T. answered h (\<lambda>ms. \<exists>zs. mset zs = mset (f T) \<and>
      sorted_wrt (\<lambda>a b. row_le coll (q_order q) (con a) (con b)) zs \<and> ms = limited q zs))
    (find_as G d q as)"
proof (rule reads_weaken [OF find_as_page [OF assms(1)]])
  fix h and T :: tables and r
  assume "answered h (\<lambda>ms. \<exists>xs. page_of coll q (q_rows q T) xs \<and> ms = collect as xs) r"
  with page_of_models [of q con "f T" _ as, OF _ assms(3)]
  show "answered h (\<lambda>ms. \<exists>zs. mset zs = mset (f T) \<and>
      sorted_wrt (\<lambda>a b. row_le coll (q_order q) (con a) (con b)) zs \<and> ms = limited q zs) r"
    unfolding assms(2) by (cases r) auto
qed

text \<open>The pages of the lists: a count of all rows, then a page of them.\<close>

lemma count_find:
  assumes "paged q" and "\<And>T. q_rows q T = map con (f T)" and "\<And>m. as (con m) = Some m"
  shows "reads V d (\<lambda>h T. answered h (\<lambda>(ys, n). n = int (length (f T)) \<and>
      (\<exists>zs. mset zs = mset (f T) \<and>
        sorted_wrt (\<lambda>a b. row_le coll (q_order q) (con a) (con b)) zs \<and> ys = map g (limited q zs))))
    (bindE (g_Count G d (\<lambda>T. map con (f T))) (\<lambda>total.
     bindE (find_as G d q as) (\<lambda>ms. okE (map g ms, total))))" (is "reads V d ?Q ?m")
proof (rule readsI)
  fix w r w' assume run: "?m w = (r, w')"
  obtain r1 w1 where c: "g_Count G d (\<lambda>T. map con (f T)) w = (r1, w1)" by force
  note c1 = readsD [OF Count c]
  obtain r2 w2 where m: "find_as G d q as w1 = (r2, w2)" by force
  note c2 = readsD [OF find_as_sorted [OF assms] m]
  from c1 have same: "seen V d w1 = seen V d w" by (simp add: untouched_def)
  show "untouched V w w' \<and> ?Q (up V w) (seen V d w) r"
    using run c c1 m c2 same
    by (cases r1; cases r2) (auto simp: bindE_def okE_def dest: untouched_trans untouched_up)
qed

lemma count_find_reads:
  "reads V d (\<lambda>_ _ _. True) (bindE (g_Count G d (\<lambda>T. map con (f T))) (\<lambda>total.
     bindE (find_as G d q as) (\<lambda>ms. okE (map g ms, total))))" (is "reads V d _ ?m")
proof (rule readsI)
  fix w r w' assume run: "?m w = (r, w')"
  obtain r1 w1 where c: "g_Count G d (\<lambda>T. map con (f T)) w = (r1, w1)" by force
  obtain r2 w2 where m: "find_as G d q as w1 = (r2, w2)" by force
  have "reads V d (\<lambda>_ _ _. True) (find_as G d q as)"
    by (auto simp: find_as_def reads_def bindE_def okE_def
        dest: readsD [OF Find_reads] split: prod.splits sum.splits)
  from readsD [OF Count c] readsD [OF this m] run c m show "untouched V w w' \<and> True"
    by (cases r1; cases r2) (auto simp: bindE_def okE_def dest: untouched_trans)
qed

lemma find_as_reads: "reads V d (\<lambda>_ _ _. True) (find_as G d q as)"
proof (rule readsI)
  fix w r w' assume run: "find_as G d q as w = (r, w')"
  obtain r1 w1 where g: "g_Find G d q w = (r1, w1)" by force
  from readsD [OF Find_reads g] run g show "untouched V w w' \<and> True"
    by (cases r1) (auto simp: find_as_def bindE_def okE_def)
qed

lemma create_as:
  assumes "\<And>i n t x'. stored jsonb i n t x = Some x' \<Longrightarrow> as x' \<noteq> None"
  shows "writes V d (\<lambda>h T. changed h
      (fits x \<and> (\<exists>i n t x'. stored jsonb i n t x = Some x' \<and> insertable x' T))
      (\<lambda>m T'. \<exists>i n t x'. stored jsonb i n t x = Some x' \<and> as x' = Some m \<and>
         insertable x' T \<and> T' = add_row x' T) T) (create_as G d x as)" (is "writes V d ?Q _")
proof (rule writesI)
  fix w r w' assume run: "create_as G d x as w = (r, w')"
  obtain r1 w1 where g: "g_Create G d x w = (r1, w1)" by force
  note c = writesD [OF Create g]
  show "touched V d w w' \<and> ?Q (up V w) (seen V d w) r (seen V d w')"
  proof (cases r1)
    case (Inl e)
    with run g have "r = Inl e \<and> w' = w1" by (auto simp: create_as_def bindE_def)
    with c Inl show ?thesis by simp
  next
    case (Inr x')
    with c obtain i n t where st: "stored jsonb i n t x = Some x'" by auto
    with assms obtain m where "as x' = Some m" by blast
    with run g Inr have "r = Inr m \<and> w' = w1"
      by (auto simp: create_as_def bindE_def scan_def okE_def)
    with c Inr st \<open>as x' = Some m\<close> show ?thesis by auto
  qed
qed

lemma create_as_foreign: "create_as G d x as w = (r, w') \<Longrightarrow> foreign r"
  by (auto simp: create_as_def bindE_def scan_def okE_def failE_def foreign_def
      dest!: foreign_Create split: prod.splits sum.splits option.splits)

text \<open>A write whose meaning may rely on the constraints while the service is up.\<close>

lemma writes_wf:
  assumes "writes V d Q m"
    and "\<And>h T r T'. (h \<Longrightarrow> wf_tables T) \<Longrightarrow> Q h T r T' \<Longrightarrow> Q' h T r T'"
  shows "writes V d Q' m"
  using assms(1) unfolding writes_def by (blast intro: assms(2) up_wf)

end

text \<open>A pure step on the answer changes nothing about reading and writing.\<close>

lemma reads_map:
  assumes "reads V c (\<lambda>h s. answered h (P s)) m" and "\<And>s a. P s a \<Longrightarrow> P' s (f a)"
  shows "reads V c (\<lambda>h s. answered h (P' s)) (bindE m (\<lambda>a. okE (f a)))"
proof (rule readsI)
  fix w r w' assume run: "bindE m (\<lambda>a. okE (f a)) w = (r, w')"
  obtain r1 w1 where "m w = (r1, w1)" by force
  with readsD [OF assms(1) this] run show "untouched V w w' \<and> answered (up V w) (P' (seen V c w)) r"
    by (cases r1) (auto simp: bindE_def okE_def assms(2))
qed

lemma writes_map:
  assumes "writes V c (\<lambda>h s. changed h (P s) (F s) s) m"
    and "\<And>s a s'. F s a s' \<Longrightarrow> F' s (f a) s'" and "\<And>s. P' s \<Longrightarrow> P s"
  shows "writes V c (\<lambda>h s. changed h (P' s) (F' s) s) (bindE m (\<lambda>a. okE (f a)))"
proof (rule writesI)
  fix w r w' assume run: "bindE m (\<lambda>a. okE (f a)) w = (r, w')"
  obtain r1 w1 where "m w = (r1, w1)" by force
  with writesD [OF assms(1) this] run show "touched V c w w' \<and>
      changed (up V w) (P' (seen V c w)) (F' (seen V c w)) (seen V c w) r (seen V c w')"
    by (cases r1) (auto simp: bindE_def okE_def assms(2) dest: assms(3))
qed

lemma reads_found_map:
  assumes "reads V c (\<lambda>h s. found e h (X s)) m"
  shows "reads V c (\<lambda>h s. found e h (f ` X s)) (bindE m (\<lambda>a. okE (f a)))"
proof (rule readsI)
  fix w r w' assume run: "bindE m (\<lambda>a. okE (f a)) w = (r, w')"
  obtain r1 w1 where "m w = (r1, w1)" by force
  with readsD [OF assms this] run show "untouched V w w' \<and> found e (up V w) (f ` X (seen V c w)) r"
    by (cases r1) (auto simp: bindE_def okE_def)
qed

section \<open>The tables as a store\<close>

definition fromUserModel :: "UserModel \<Rightarrow> User" where
  "fromUserModel m = \<lparr>u_ID = um_ID m, u_Email = um_Email m, u_PasswordHash = um_PasswordHash m,
     u_FullName = um_FullName m, u_IsActive = um_IsActive m, u_CreatedAt = um_CreatedAt m,
     u_UpdatedAt = um_UpdatedAt m\<rparr>"

definition fromRoleModel :: "RoleModel \<Rightarrow> Role" where
  "fromRoleModel m = \<lparr>r_ID = rm_ID m, r_Name = rm_Name m, r_Description = rm_Description m,
     r_CreatedAt = rm_CreatedAt m\<rparr>"

definition fromPermissionModel :: "PermissionModel \<Rightarrow> Permission" where
  "fromPermissionModel m = \<lparr>p_ID = pm_ID m, p_Name = pm_Name m, p_Resource = pm_Resource m,
     p_Action = pm_Action m, p_Description = pm_Description m, p_CreatedAt = pm_CreatedAt m\<rparr>"

definition fromTokenModel :: "RefreshTokenModel \<Rightarrow> RefreshToken" where
  "fromTokenModel m = \<lparr>t_ID = rtm_ID m, t_UserID = rtm_UserID m, t_TokenHash = rtm_TokenHash m,
     t_ExpiresAt = rtm_ExpiresAt m, t_RevokedAt = rtm_RevokedAt m, t_CreatedAt = rtm_CreatedAt m\<rparr>"

definition store_of :: "tables \<Rightarrow> store" where
  "store_of T = \<lparr>
     st_users = fromUserModel ` set (tb_users T),
     st_roles = fromRoleModel ` set (tb_roles T),
     st_perms = fromPermissionModel ` set (tb_permissions T),
     st_assign = user_role_key ` set (tb_user_roles T),
     st_grant = role_perm_key ` set (tb_role_permissions T),
     st_tokens = fromTokenModel ` set (tb_refresh_tokens T),
     st_events = map (\<lambda>m. (om_EventType m, om_Payload m, om_Status m)) (tb_outbox_events T)\<rparr>"

lemma from_sel [simp]:
  "u_ID (fromUserModel a) = um_ID a" "u_Email (fromUserModel a) = um_Email a"
  "u_CreatedAt (fromUserModel a) = um_CreatedAt a"
  "r_ID (fromRoleModel b) = rm_ID b" "r_Name (fromRoleModel b) = rm_Name b"
  "p_ID (fromPermissionModel c) = pm_ID c" "p_Name (fromPermissionModel c) = pm_Name c"
  "t_ID (fromTokenModel d) = rtm_ID d" "t_TokenHash (fromTokenModel d) = rtm_TokenHash d"
  "t_UserID (fromTokenModel d) = rtm_UserID d"
  by (simp_all add: fromUserModel_def fromRoleModel_def fromPermissionModel_def fromTokenModel_def)

lemma store_of_sel [simp]:
  "st_users (store_of T) = fromUserModel ` set (tb_users T)"
  "st_roles (store_of T) = fromRoleModel ` set (tb_roles T)"
  "st_perms (store_of T) = fromPermissionModel ` set (tb_permissions T)"
  "st_assign (store_of T) = user_role_key ` set (tb_user_roles T)"
  "st_grant (store_of T) = role_perm_key ` set (tb_role_permissions T)"
  "st_tokens (store_of T) = fromTokenModel ` set (tb_refresh_tokens T)"
  "st_events (store_of T) = map (\<lambda>m. (om_EventType m, om_Payload m, om_Status m)) (tb_outbox_events T)"
  by (simp_all add: store_of_def)

lemma store_ids:
  "u_ID ` st_users (store_of T) = set (user_ids T)"
  "u_Email ` st_users (store_of T) = set (map um_Email (tb_users T))"
  "r_ID ` st_roles (store_of T) = set (role_ids T)"
  "r_Name ` st_roles (store_of T) = set (map rm_Name (tb_roles T))"
  "p_ID ` st_perms (store_of T) = set (perm_ids T)"
  "p_Name ` st_perms (store_of T) = set (map pm_Name (tb_permissions T))"
  "t_ID ` st_tokens (store_of T) = set (map rtm_ID (tb_refresh_tokens T))"
  by (simp_all add: image_image)

text \<open>An UPDATE of rows of one table leaves the other tables as they are.\<close>

lemma update_other_tables [sql_simps]:
  "(\<And>m. as (UserRow m) = None) \<Longrightarrow> tb_users (update_rows (on_row as P) f T) = tb_users T"
  "(\<And>m. as (RoleRow m) = None) \<Longrightarrow> tb_roles (update_rows (on_row as P) f T) = tb_roles T"
  "(\<And>m. as (PermRow m) = None) \<Longrightarrow> tb_permissions (update_rows (on_row as P) f T) = tb_permissions T"
  "(\<And>m. as (UserRoleRow m) = None) \<Longrightarrow> tb_user_roles (update_rows (on_row as P) f T) = tb_user_roles T"
  "(\<And>m. as (RolePermRow m) = None) \<Longrightarrow>
     tb_role_permissions (update_rows (on_row as P) f T) = tb_role_permissions T"
  "(\<And>m. as (TokenRow m) = None) \<Longrightarrow>
     tb_refresh_tokens (update_rows (on_row as P) f T) = tb_refresh_tokens T"
  "(\<And>m. as (OutboxRow m) = None) \<Longrightarrow>
     tb_outbox_events (update_rows (on_row as P) f T) = tb_outbox_events T"
  "(\<And>m. as (AuditRow m) = None) \<Longrightarrow> tb_audit_logs (update_rows (on_row as P) f T) = tb_audit_logs T"
  by (simp_all add: update_rows_def sql_simps)

end
