(* ===== verification/UserRepo.thy ===== *)
theory UserRepo
  imports PgBase
begin

text \<open>
  \<open>internal/repository/postgres/user_repo.go\<close>: users, the assignment of roles to them,
  and the join that computes their permissions; and the proof that it keeps the promises
  of \<open>domain.UserRepository\<close>.
\<close>

section \<open>The repository\<close>

definition toUserModel :: "User \<Rightarrow> UserModel" where
  "toUserModel u = \<lparr>um_ID = u_ID u, um_Email = u_Email u, um_PasswordHash = u_PasswordHash u,
     um_FullName = u_FullName u, um_IsActive = u_IsActive u, um_CreatedAt = 0, um_UpdatedAt = 0\<rparr>"

definition user_Create :: "'w gorm \<Rightarrow> ctx \<Rightarrow> User \<Rightarrow> ('w, error, User) cmd" where
  "user_Create G c u =
     bindE (create_as G (dbFromContext c) (UserRow (toUserModel u)) as_user) (\<lambda>m.
     okE (u\<lparr>u_ID := um_ID m, u_CreatedAt := um_CreatedAt m, u_UpdatedAt := um_UpdatedAt m\<rparr>))"

definition user_GetByID :: "'w gorm \<Rightarrow> ctx \<Rightarrow> uuid \<Rightarrow> ('w, error, User) cmd" where
  "user_GetByID G c i =
     bindE (first_as G (dbFromContext c)
       (plain (\<lambda>T. [UserRow m. m \<leftarrow> tb_users T, um_ID m = i])) as_user) (\<lambda>m.
     okE (fromUserModel m))"

definition user_GetByEmail :: "'w gorm \<Rightarrow> ctx \<Rightarrow> string \<Rightarrow> ('w, error, User) cmd" where
  "user_GetByEmail G c email =
     bindE (first_as G (dbFromContext c)
       (plain (\<lambda>T. [UserRow m. m \<leftarrow> tb_users T, um_Email m = email])) as_user) (\<lambda>m.
     okE (fromUserModel m))"

definition user_page :: "int \<Rightarrow> int \<Rightarrow> query" where
  "user_page limit offset = \<lparr>q_rows = (\<lambda>T. map UserRow (tb_users T)), q_order = OrderCreatedAtDesc,
     q_limit = Some limit, q_offset = Some offset\<rparr>"

definition user_List :: "'w gorm \<Rightarrow> ctx \<Rightarrow> int \<Rightarrow> int \<Rightarrow> ('w, error, User list \<times> int) cmd" where
  "user_List G c limit offset =
     bindE (g_Count G (dbFromContext c) (\<lambda>T. map UserRow (tb_users T))) (\<lambda>total.
     bindE (find_as G (dbFromContext c) (user_page limit offset) as_user) (\<lambda>models.
     okE (map fromUserModel models, total)))"

definition user_Update :: "'w gorm \<Rightarrow> ctx \<Rightarrow> User \<Rightarrow> ('w, error, unit) cmd" where
  "user_Update G c u =
     g_Update G (dbFromContext c) (on_row as_user (\<lambda>m. um_ID m = u_ID u))
       (set_row UserRow as_user (\<lambda>m. m\<lparr>um_FullName := u_FullName u, um_IsActive := u_IsActive u\<rparr>))"

definition user_AssignRole :: "'w gorm \<Rightarrow> ctx \<Rightarrow> uuid \<Rightarrow> uuid \<Rightarrow> uuid \<Rightarrow> ('w, error, unit) cmd" where
  "user_AssignRole G c userID roleID assignedBy =
     g_CreateDoNothing G (dbFromContext c) (UserRoleRow
       \<lparr>urm_UserID = userID, urm_RoleID = roleID, urm_AssignedBy = Some assignedBy,
        urm_AssignedAt = 0\<rparr>)"

definition user_RemoveRole :: "'w gorm \<Rightarrow> ctx \<Rightarrow> uuid \<Rightarrow> uuid \<Rightarrow> ('w, error, unit) cmd" where
  "user_RemoveRole G c userID roleID =
     g_Delete G (dbFromContext c)
       (on_row as_user_role (\<lambda>m. urm_UserID m = userID \<and> urm_RoleID m = roleID))"

definition user_GetRoles :: "'w gorm \<Rightarrow> ctx \<Rightarrow> uuid \<Rightarrow> ('w, error, Role list) cmd" where
  "user_GetRoles G c userID =
     bindE (find_as G (dbFromContext c)
       (plain (\<lambda>T. [RoleRow m. m \<leftarrow> tb_roles T, ur \<leftarrow> tb_user_roles T,
          urm_RoleID ur = rm_ID m, urm_UserID ur = userID])) as_role) (\<lambda>models.
     okE (map fromRoleModel models))"

definition user_GetPermissions :: "'w gorm \<Rightarrow> ctx \<Rightarrow> uuid \<Rightarrow> ('w, error, Permission list) cmd" where
  "user_GetPermissions G c userID =
     bindE (find_as G (dbFromContext c)
       (plain (\<lambda>T. map PermRow (remdups [m. m \<leftarrow> tb_permissions T,
          rp \<leftarrow> tb_role_permissions T, rpm_PermissionID rp = pm_ID m,
          ur \<leftarrow> tb_user_roles T, urm_RoleID ur = rpm_RoleID rp,
          urm_UserID ur = userID]))) as_perm) (\<lambda>models.
     okE (map fromPermissionModel models))"

definition NewUserRepository :: "'w gorm \<Rightarrow> 'w UserRepository" where
  "NewUserRepository G = \<lparr>
     users_Create = user_Create G,
     users_GetByID = user_GetByID G,
     users_GetByEmail = user_GetByEmail G,
     users_List = user_List G,
     users_Update = user_Update G,
     users_AssignRole = user_AssignRole G,
     users_RemoveRole = user_RemoveRole G,
     users_GetRoles = user_GetRoles G,
     users_GetPermissions = user_GetPermissions G\<rparr>"

lemma NewUserRepository_sel [simp]:
  "users_Create (NewUserRepository G) = user_Create G"
  "users_GetByID (NewUserRepository G) = user_GetByID G"
  "users_GetByEmail (NewUserRepository G) = user_GetByEmail G"
  "users_List (NewUserRepository G) = user_List G"
  "users_Update (NewUserRepository G) = user_Update G"
  "users_AssignRole (NewUserRepository G) = user_AssignRole G"
  "users_RemoveRole (NewUserRepository G) = user_RemoveRole G"
  "users_GetRoles (NewUserRepository G) = user_GetRoles G"
  "users_GetPermissions (NewUserRepository G) = user_GetPermissions G"
  by (simp_all add: NewUserRepository_def)

section \<open>The tables after each statement, as a store\<close>

lemma store_assign:
  "store_of (add_row (UserRoleRow m) T) =
     (store_of T)\<lparr>st_assign := insert (user_role_key m) (st_assign (store_of T))\<rparr>"
  by (simp add: store_of_def)

lemma store_unassign:
  "store_of (delete_rows (on_row as_user_role (\<lambda>m. urm_UserID m = u \<and> urm_RoleID m = r)) T) =
     (store_of T)\<lparr>st_assign := st_assign (store_of T) - {(u, r)}\<rparr>"
  by (auto simp: store_of_def sql_simps)

lemma store_update_user:
  "store_of (update_rows (on_row as_user (\<lambda>m. um_ID m = u_ID u))
       (\<lambda>r. touch t (set_row UserRow as_user
          (\<lambda>m. m\<lparr>um_FullName := u_FullName u, um_IsActive := u_IsActive u\<rparr>) r)) T) =
   (store_of T)\<lparr>st_users := (\<lambda>x. if u_ID x = u_ID u
       then x\<lparr>u_FullName := u_FullName u, u_IsActive := u_IsActive u, u_UpdatedAt := t\<rparr> else x) `
       st_users (store_of T)\<rparr>"
proof -
  have "tb_users (update_rows (on_row as_user (\<lambda>m. um_ID m = u_ID u))
       (\<lambda>r. touch t (set_row UserRow as_user
          (\<lambda>m. m\<lparr>um_FullName := u_FullName u, um_IsActive := u_IsActive u\<rparr>) r)) T) =
     map (\<lambda>m. if um_ID m = u_ID u
       then m\<lparr>um_FullName := u_FullName u, um_IsActive := u_IsActive u, um_UpdatedAt := t\<rparr> else m)
       (tb_users T)"
    by (simp add: update_rows_def set_cols_def on_row_def set_row_def)
  moreover have "fromUserModel ` set \<dots> = (\<lambda>x. if u_ID x = u_ID u
       then x\<lparr>u_FullName := u_FullName u, u_IsActive := u_IsActive u, u_UpdatedAt := t\<rparr> else x) `
       (fromUserModel ` set (tb_users T))"
    by (rule image_update) (simp_all add: fromUserModel_def)
  ultimately show ?thesis
    by (simp only: store_of_def) (simp add: sql_simps)
qed

lemma store_add_user:
  "store_of (add_row (UserRow m) T) =
     (store_of T)\<lparr>st_users := insert (fromUserModel m) (st_users (store_of T))\<rparr>"
  by (simp add: store_of_def)

lemma join_perms:
  "fromPermissionModel ` {m \<in> set (tb_permissions T). \<exists>rp\<in>set (tb_role_permissions T).
       rpm_PermissionID rp = pm_ID m \<and> (\<exists>ur\<in>set (tb_user_roles T).
         urm_RoleID ur = rpm_RoleID rp \<and> urm_UserID ur = i)} = user_perms (store_of T) i"
  unfolding user_perms_def by (force simp: image_iff)

lemma join_roles:
  "fromRoleModel ` {m \<in> set (tb_roles T). \<exists>ur\<in>set (tb_user_roles T).
       urm_RoleID ur = rm_ID m \<and> urm_UserID ur = i} =
   {x \<in> st_roles (store_of T). (i, r_ID x) \<in> st_assign (store_of T)}"
  by (force simp: image_iff)

lemma fromUserModel_stored:
  "fromUserModel ((toUserModel (u\<lparr>u_ID := i, u_CreatedAt := a, u_UpdatedAt := b\<rparr>))
     \<lparr>um_IsActive := x, um_CreatedAt := t, um_UpdatedAt := t'\<rparr>) =
   u\<lparr>u_ID := i, u_CreatedAt := t, u_UpdatedAt := t', u_IsActive := x\<rparr>"
  by (cases u) (simp add: fromUserModel_def toUserModel_def)

section \<open>The repository keeps the interface's promises\<close>

definition storable_user :: "(row \<Rightarrow> bool) \<Rightarrow> User \<Rightarrow> bool" where
  "storable_user fits u \<longleftrightarrow> fits (UserRow (toUserModel u))"

context gorm_contract
begin

lemma user_Create_writes:
  assumes "u_ID u = 0"
  shows "writes V d (\<lambda>h T. changed h
      (storable_user fits u \<and> u_Email u \<notin> set (map um_Email (tb_users T)) \<and>
        (\<exists>i. i \<noteq> 0 \<and> i \<notin> set (user_ids T)))
      (\<lambda>u' T'. \<exists>i t. u' = u\<lparr>u_ID := i, u_CreatedAt := t, u_UpdatedAt := t\<rparr> \<and>
         i \<notin> set (user_ids T) \<and> u_Email u \<notin> set (map um_Email (tb_users T)) \<and>
         T' = add_row (UserRow ((toUserModel u')\<lparr>um_IsActive := True,
                um_CreatedAt := t, um_UpdatedAt := t\<rparr>)) T) T)
    (bindE (create_as G d (UserRow (toUserModel u)) as_user) (\<lambda>m.
     okE (u\<lparr>u_ID := um_ID m, u_CreatedAt := um_CreatedAt m, u_UpdatedAt := um_UpdatedAt m\<rparr>)))"
proof (rule writes_map [OF create_as], goal_cases)
  case (1 i n t x')
  then show ?case by (auto simp: stored_def)
next
  case (2 T m T')
  then obtain i t where "m = (toUserModel u)\<lparr>um_ID := i, um_IsActive := True,
      um_CreatedAt := t, um_UpdatedAt := t\<rparr>" and "insertable (UserRow m) T"
    and "T' = add_row (UserRow m) T"
    using assms by (auto simp: stored_def toUserModel_def)
  then show ?case
    by (auto simp: insertable_def toUserModel_def intro!: exI [of _ i] exI [of _ t])
next
  case (3 T)
  then obtain i where i: "i \<noteq> 0" "i \<notin> set (user_ids T)" by blast
  let ?x' = "UserRow ((toUserModel u)\<lparr>um_ID := i, um_IsActive := True,
      um_CreatedAt := 0, um_UpdatedAt := 0\<rparr>)"
  have "stored jsonb i 0 0 (UserRow (toUserModel u)) = Some ?x'"
    using assms by (simp add: stored_def toUserModel_def)
  moreover have "insertable ?x' T"
    using 3 i by (simp add: insertable_def toUserModel_def)
  ultimately show ?case using 3 unfolding storable_user_def by blast
qed

lemma user_List_reads:
  assumes "0 \<le> l" and "0 \<le> k"
  shows "reads (pg_window V) c (\<lambda>h T. answered h (\<lambda>(us, n). n = int (length (tb_users T)) \<and>
      (\<exists>ms. mset ms = mset (tb_users T) \<and> sorted_wrt (\<lambda>a b. um_CreatedAt b \<le> um_CreatedAt a) ms \<and>
        us = map fromUserModel (take (nat l) (drop (nat k) ms))))) (user_List G c l k)"
proof -
  have "reads V (dbFromContext c) (\<lambda>h T. answered h (\<lambda>(us, n). n = int (length (tb_users T)) \<and>
      (\<exists>ms. mset ms = mset (tb_users T) \<and>
        sorted_wrt (\<lambda>a b. row_le coll (q_order (user_page l k)) (UserRow a) (UserRow b)) ms \<and>
        us = map fromUserModel (limited (user_page l k) ms)))) (user_List G c l k)"
    unfolding user_List_def
    by (rule count_find) (simp_all add: assms paged_def user_page_def)
  then show ?thesis by (simp add: user_page_def limited_def pg_reads)
qed

lemma user_GetByID_reads:
  "reads V d (\<lambda>h T. found ErrNotFound h (fromUserModel ` {m \<in> set (tb_users T). P m}))
    (bindE (first_as G d (plain (\<lambda>T. [UserRow m. m \<leftarrow> tb_users T, P m])) as_user) (\<lambda>m.
     okE (fromUserModel m)))"
proof -
  have "reads V d (\<lambda>h T. found ErrNotFound h
      {m. \<exists>x\<in>set [UserRow m. m \<leftarrow> tb_users T, P m]. as_user x = Some m})
    (first_as G d (plain (\<lambda>T. [UserRow m. m \<leftarrow> tb_users T, P m])) as_user)"
    by (rule first_as) auto
  moreover have "{m. \<exists>x\<in>set [UserRow m. m \<leftarrow> tb_users T, P m]. as_user x = Some m} =
      {m \<in> set (tb_users T). P m}" for T
    by auto
  ultimately show ?thesis by (auto intro: reads_found_map)
qed

lemma user_GetRoles_reads:
  "reads V d (\<lambda>h T. answered h (\<lambda>rs.
      set rs = {x \<in> st_roles (store_of T). (i, r_ID x) \<in> st_assign (store_of T)}))
    (bindE (find_as G d (plain (\<lambda>T. [RoleRow m. m \<leftarrow> tb_roles T, ur \<leftarrow> tb_user_roles T,
          urm_RoleID ur = rm_ID m, urm_UserID ur = i])) as_role) (\<lambda>models.
     okE (map fromRoleModel models)))"
proof (rule reads_map [OF find_as])
  fix T :: tables and ms
  let ?f = "\<lambda>T. [RoleRow m. m \<leftarrow> tb_roles T, ur \<leftarrow> tb_user_roles T,
      urm_RoleID ur = rm_ID m, urm_UserID ur = i]"
  assume "mset ms = mset (collect as_role (?f T))"
  then have "set ms = set (collect as_role (?f T))" by (rule mset_eq_setD)
  then have "set ms = {m \<in> set (tb_roles T). \<exists>ur\<in>set (tb_user_roles T).
      urm_RoleID ur = rm_ID m \<and> urm_UserID ur = i}"
    by (auto simp: set_collect)
  then show "set (map fromRoleModel ms) =
      {x \<in> st_roles (store_of T). (i, r_ID x) \<in> st_assign (store_of T)}"
    by (simp only: set_map join_roles)
qed

lemma fromPermissionModel_inj: "fromPermissionModel a = fromPermissionModel b \<longleftrightarrow> a = b"
  by (cases a; cases b) (simp add: fromPermissionModel_def)

lemma user_GetPermissions_reads:
  "reads V d (\<lambda>h T. answered h (\<lambda>ps. distinct ps \<and> set ps = user_perms (store_of T) i))
    (bindE (find_as G d (plain (\<lambda>T. map PermRow (remdups [m. m \<leftarrow> tb_permissions T,
          rp \<leftarrow> tb_role_permissions T, rpm_PermissionID rp = pm_ID m,
          ur \<leftarrow> tb_user_roles T, urm_RoleID ur = rpm_RoleID rp,
          urm_UserID ur = i]))) as_perm) (\<lambda>models.
     okE (map fromPermissionModel models)))"
proof (rule reads_map [OF find_as])
  fix T :: tables and ms
  let ?f = "\<lambda>T. [m. m \<leftarrow> tb_permissions T, rp \<leftarrow> tb_role_permissions T,
      rpm_PermissionID rp = pm_ID m, ur \<leftarrow> tb_user_roles T, urm_RoleID ur = rpm_RoleID rp,
      urm_UserID ur = i]"
  assume "mset ms = mset (collect as_perm (map PermRow (remdups (?f T))))"
  also have "collect as_perm (map PermRow (remdups (?f T))) = remdups (?f T)"
    using collect_map [where f = as_perm and g = PermRow and h = id] by simp
  finally have ms: "mset ms = mset (remdups (?f T))" .
  from mset_eq_imp_distinct_iff [OF ms] have "distinct ms" by (simp only: distinct_remdups)
  then have "distinct (map fromPermissionModel ms)"
    by (simp add: distinct_map inj_on_def fromPermissionModel_inj)
  moreover from ms have "set ms = set (remdups (?f T))" by (rule mset_eq_setD)
  then have "set ms = {m \<in> set (tb_permissions T). \<exists>rp\<in>set (tb_role_permissions T).
      rpm_PermissionID rp = pm_ID m \<and> (\<exists>ur\<in>set (tb_user_roles T).
        urm_RoleID ur = rpm_RoleID rp \<and> urm_UserID ur = i)}"
    by auto
  then have "set (map fromPermissionModel ms) = user_perms (store_of T) i"
    by (simp only: set_map join_perms)
  ultimately show "distinct (map fromPermissionModel ms) \<and>
      set (map fromPermissionModel ms) = user_perms (store_of T) i" ..
qed

lemma user_AssignRole_writes:
  "writes V d (\<lambda>h T. changed h
      ((i, r) \<in> st_assign (store_of T) \<or>
        {i, by} \<subseteq> u_ID ` st_users (store_of T) \<and> r \<in> r_ID ` st_roles (store_of T))
      (\<lambda>_ T'. store_of T' = (store_of T)\<lparr>st_assign := insert (i, r) (st_assign (store_of T))\<rparr> \<and>
         ((i, r) \<in> st_assign (store_of T) \<or>
          {i, by} \<subseteq> u_ID ` st_users (store_of T) \<and> r \<in> r_ID ` st_roles (store_of T))) T)
    (g_CreateDoNothing G d (UserRoleRow \<lparr>urm_UserID = i, urm_RoleID = r,
       urm_AssignedBy = Some by, urm_AssignedAt = 0\<rparr>))"
proof (rule writes_weaken [OF CreateDoNothing])
  let ?m = "\<lparr>urm_UserID = i, urm_RoleID = r, urm_AssignedBy = Some by, urm_AssignedAt = 0\<rparr>"
  let ?x = "UserRoleRow ?m"
  fix h and T :: tables and res and T' :: tables
  have poss: "fits ?x \<and> (clashes ?x T \<or> refs_ok ?x T) \<longleftrightarrow>
      (i, r) \<in> st_assign (store_of T) \<or>
      {i, by} \<subseteq> u_ID ` st_users (store_of T) \<and> r \<in> r_ID ` st_roles (store_of T)"
    by (auto simp: fits_keys store_ids image_image)
  have same: "store_of T = (store_of T)\<lparr>st_assign := insert (i, r) (st_assign (store_of T))\<rparr>"
    if "clashes ?x T"
    using that by (simp add: insert_absorb store_of_def)
  assume "changed h (fits ?x \<and> (clashes ?x T \<or> refs_ok ?x T))
      (\<lambda>_ T'. if clashes ?x T then T' = T
              else \<exists>k n t. refs_ok ?x T \<and> T' = add_row (fill k n t ?x) T) T res T'"
  then show "changed h ((i, r) \<in> st_assign (store_of T) \<or>
        {i, by} \<subseteq> u_ID ` st_users (store_of T) \<and> r \<in> r_ID ` st_roles (store_of T))
      (\<lambda>_ T'. store_of T' = (store_of T)\<lparr>st_assign := insert (i, r) (st_assign (store_of T))\<rparr> \<and>
         ((i, r) \<in> st_assign (store_of T) \<or>
          {i, by} \<subseteq> u_ID ` st_users (store_of T) \<and> r \<in> r_ID ` st_roles (store_of T))) T res T'"
    unfolding poss [symmetric]
    using same by (cases res) (auto simp: fits_keys store_assign simp del: store_of_sel add_row.simps split: if_splits)
qed simp

end

sublocale gorm_contract \<subseteq> pg_users:
  user_repository "pg_window V" store_of "NewUserRepository G" "storable_user fits"
proof (unfold_locales, unfold NewUserRepository_sel, goal_cases)
  case (1 u c)
  show ?case unfolding user_Create_def
    by (rule pg_writes, rule writes_weaken [OF user_Create_writes [OF 1]])
      (auto simp: changed_def store_add_user store_ids fromUserModel_stored
        simp del: store_of_sel add_row.simps split: sum.splits)
next
  case (2 c u w e w')
  then show ?case
    by (auto simp: user_Create_def cmd_simps foreign_def dest!: create_as_foreign)
next
  case (3 c i)
  have "{u \<in> st_users (store_of T). u_ID u = i} =
      fromUserModel ` {m \<in> set (tb_users T). um_ID m = i}" for T by auto
  then show ?case using user_GetByID_reads [of "dbFromContext c" "\<lambda>m. um_ID m = i"]
    unfolding user_GetByID_def by (auto intro: pg_reads)
next
  case (4 c m)
  have "{u \<in> st_users (store_of T). u_Email u = m} =
      fromUserModel ` {x \<in> set (tb_users T). um_Email x = m}" for T by auto
  then show ?case using user_GetByID_reads [of "dbFromContext c" "\<lambda>x. um_Email x = m"]
    unfolding user_GetByEmail_def by (auto intro: pg_reads)
next
  case (5 c m w e w')
  then show ?case
    by (auto simp: user_GetByEmail_def cmd_simps dest!: first_as_error)
next
  case (6 l k c)
  show ?case
  proof (rule reads_weaken [OF user_List_reads [OF 6]])
    fix h and T :: tables and r
    assume "answered h (\<lambda>(us, n). n = int (length (tb_users T)) \<and>
      (\<exists>ms. mset ms = mset (tb_users T) \<and> sorted_wrt (\<lambda>a b. um_CreatedAt b \<le> um_CreatedAt a) ms \<and>
        us = map fromUserModel (take (nat l) (drop (nat k) ms)))) r"
    moreover have "x \<in> set (tb_users T)"
      if "x \<in> set (take (nat l) (drop (nat k) ms))" "mset ms = mset (tb_users T)" for x ms
      using that by (metis in_set_dropD in_set_takeD mset_eq_setD)
    moreover have "min (length ms - nat k) (nat l) \<le> length (tb_users T)"
      if "mset ms = mset (tb_users T)" for ms
      using mset_eq_length [OF that] by simp
    ultimately show "answered h (\<lambda>(us, n).
      set us \<subseteq> st_users (store_of T) \<and> length us \<le> nat l \<and> n \<ge> int (length us) \<and>
      sorted_wrt (\<lambda>a b. u_CreatedAt b \<le> u_CreatedAt a) us) r"
      by (cases r) (auto simp: sorted_wrt_map intro!: sorted_wrt_take sorted_wrt_drop)
  qed
next
  case (7 c l k)
  show ?case unfolding user_List_def by (rule pg_reads [OF count_find_reads])
next
  case (8 c u)
  show ?case unfolding user_Update_def
    by (rule pg_writes, rule writes_weaken [OF Update])
      (auto simp: changed_def store_update_user simp del: store_of_sel split: sum.splits)
next
  case (9 i r a c)
  show ?case unfolding user_AssignRole_def by (rule pg_writes [OF user_AssignRole_writes])
next
  case (10 c i r)
  show ?case unfolding user_RemoveRole_def
    by (rule pg_writes, rule writes_wf [OF Delete])
      (auto simp: changed_def store_unassign sql_simps simp del: store_of_sel
        intro!: wf_delete_rows split: sum.splits)
next
  case (11 i c)
  show ?case unfolding user_GetRoles_def by (rule pg_reads [OF user_GetRoles_reads])
next
  case (12 i c)
  show ?case unfolding user_GetPermissions_def by (rule pg_reads [OF user_GetPermissions_reads])
qed

end
