(* ===== verification/RoleRepo.thy ===== *)
theory RoleRepo
  imports PgBase
begin

text \<open>
  \<open>role_repo.go\<close> and \<open>permission_repo.go\<close> of \<open>internal/repository/postgres\<close>: roles,
  permissions, and which role grants which permission; and the proofs that they keep the
  promises of \<open>domain.RoleRepository\<close> and \<open>domain.PermissionRepository\<close>.
\<close>

section \<open>The role repository\<close>

definition role_Create :: "'w gorm \<Rightarrow> ctx \<Rightarrow> Role \<Rightarrow> ('w, error, Role) cmd" where
  "role_Create G c x =
     bindE (create_as G (dbFromContext c) (RoleRow
       \<lparr>rm_ID = 0, rm_Name = r_Name x, rm_Description = r_Description x, rm_CreatedAt = 0\<rparr>) as_role)
     (\<lambda>m. okE (x\<lparr>r_ID := rm_ID m, r_CreatedAt := rm_CreatedAt m\<rparr>))"

definition role_GetByID :: "'w gorm \<Rightarrow> ctx \<Rightarrow> uuid \<Rightarrow> ('w, error, Role) cmd" where
  "role_GetByID G c i =
     bindE (first_as G (dbFromContext c)
       (plain (\<lambda>T. [RoleRow m. m \<leftarrow> tb_roles T, rm_ID m = i])) as_role) (\<lambda>m.
     okE (fromRoleModel m))"

definition role_GetByName :: "'w gorm \<Rightarrow> ctx \<Rightarrow> string \<Rightarrow> ('w, error, Role) cmd" where
  "role_GetByName G c name =
     bindE (first_as G (dbFromContext c)
       (plain (\<lambda>T. [RoleRow m. m \<leftarrow> tb_roles T, rm_Name m = name])) as_role) (\<lambda>m.
     okE (fromRoleModel m))"

definition roles_by_name :: query where
  "roles_by_name = \<lparr>q_rows = (\<lambda>T. map RoleRow (tb_roles T)), q_order = OrderName,
     q_limit = None, q_offset = None\<rparr>"

definition role_List :: "'w gorm \<Rightarrow> ctx \<Rightarrow> ('w, error, Role list) cmd" where
  "role_List G c =
     bindE (find_as G (dbFromContext c) roles_by_name as_role) (\<lambda>models.
     okE (map fromRoleModel models))"

definition role_Delete :: "'w gorm \<Rightarrow> ctx \<Rightarrow> uuid \<Rightarrow> ('w, error, unit) cmd" where
  "role_Delete G c i = g_Delete G (dbFromContext c) (on_row as_role (\<lambda>m. rm_ID m = i))"

definition role_AttachPermission :: "'w gorm \<Rightarrow> ctx \<Rightarrow> uuid \<Rightarrow> uuid \<Rightarrow> ('w, error, unit) cmd" where
  "role_AttachPermission G c roleID permissionID =
     g_CreateDoNothing G (dbFromContext c) (RolePermRow
       \<lparr>rpm_RoleID = roleID, rpm_PermissionID = permissionID, rpm_GrantedAt = 0\<rparr>)"

definition role_DetachPermission :: "'w gorm \<Rightarrow> ctx \<Rightarrow> uuid \<Rightarrow> uuid \<Rightarrow> ('w, error, unit) cmd" where
  "role_DetachPermission G c roleID permissionID =
     g_Delete G (dbFromContext c)
       (on_row as_role_perm (\<lambda>m. rpm_RoleID m = roleID \<and> rpm_PermissionID m = permissionID))"

definition role_GetPermissions :: "'w gorm \<Rightarrow> ctx \<Rightarrow> uuid \<Rightarrow> ('w, error, Permission list) cmd" where
  "role_GetPermissions G c roleID =
     bindE (find_as G (dbFromContext c)
       (plain (\<lambda>T. [PermRow m. m \<leftarrow> tb_permissions T, rp \<leftarrow> tb_role_permissions T,
          rpm_PermissionID rp = pm_ID m, rpm_RoleID rp = roleID])) as_perm) (\<lambda>models.
     okE (map fromPermissionModel models))"

definition role_GetUserIDsForRole :: "'w gorm \<Rightarrow> ctx \<Rightarrow> uuid \<Rightarrow> ('w, error, uuid list) cmd" where
  "role_GetUserIDsForRole G c roleID =
     bindE (find_as G (dbFromContext c)
       (plain (\<lambda>T. [UserRoleRow m. m \<leftarrow> tb_user_roles T, urm_RoleID m = roleID])) as_user_role)
     (\<lambda>models. okE (map urm_UserID models))"

definition NewRoleRepository :: "'w gorm \<Rightarrow> 'w RoleRepository" where
  "NewRoleRepository G = \<lparr>
     roles_Create = role_Create G,
     roles_GetByID = role_GetByID G,
     roles_GetByName = role_GetByName G,
     roles_List = role_List G,
     roles_Delete = role_Delete G,
     roles_AttachPermission = role_AttachPermission G,
     roles_DetachPermission = role_DetachPermission G,
     roles_GetPermissions = role_GetPermissions G,
     roles_GetUserIDsForRole = role_GetUserIDsForRole G\<rparr>"

section \<open>The permission repository\<close>

definition perm_Create :: "'w gorm \<Rightarrow> ctx \<Rightarrow> Permission \<Rightarrow> ('w, error, Permission) cmd" where
  "perm_Create G c p =
     bindE (create_as G (dbFromContext c) (PermRow
       \<lparr>pm_ID = 0, pm_Name = p_Name p, pm_Resource = p_Resource p, pm_Action = p_Action p,
        pm_Description = p_Description p, pm_CreatedAt = 0\<rparr>) as_perm)
     (\<lambda>m. okE (p\<lparr>p_ID := pm_ID m, p_CreatedAt := pm_CreatedAt m\<rparr>))"

definition perm_GetByID :: "'w gorm \<Rightarrow> ctx \<Rightarrow> uuid \<Rightarrow> ('w, error, Permission) cmd" where
  "perm_GetByID G c i =
     bindE (first_as G (dbFromContext c)
       (plain (\<lambda>T. [PermRow m. m \<leftarrow> tb_permissions T, pm_ID m = i])) as_perm) (\<lambda>m.
     okE (fromPermissionModel m))"

definition perm_GetByName :: "'w gorm \<Rightarrow> ctx \<Rightarrow> string \<Rightarrow> ('w, error, Permission) cmd" where
  "perm_GetByName G c name =
     bindE (first_as G (dbFromContext c)
       (plain (\<lambda>T. [PermRow m. m \<leftarrow> tb_permissions T, pm_Name m = name])) as_perm) (\<lambda>m.
     okE (fromPermissionModel m))"

definition perms_by_name :: query where
  "perms_by_name = \<lparr>q_rows = (\<lambda>T. map PermRow (tb_permissions T)), q_order = OrderName,
     q_limit = None, q_offset = None\<rparr>"

definition perm_List :: "'w gorm \<Rightarrow> ctx \<Rightarrow> ('w, error, Permission list) cmd" where
  "perm_List G c =
     bindE (find_as G (dbFromContext c) perms_by_name as_perm) (\<lambda>models.
     okE (map fromPermissionModel models))"

definition perm_Delete :: "'w gorm \<Rightarrow> ctx \<Rightarrow> uuid \<Rightarrow> ('w, error, unit) cmd" where
  "perm_Delete G c i = g_Delete G (dbFromContext c) (on_row as_perm (\<lambda>m. pm_ID m = i))"

definition NewPermissionRepository :: "'w gorm \<Rightarrow> 'w PermissionRepository" where
  "NewPermissionRepository G = \<lparr>
     perms_Create = perm_Create G,
     perms_GetByID = perm_GetByID G,
     perms_GetByName = perm_GetByName G,
     perms_List = perm_List G,
     perms_Delete = perm_Delete G\<rparr>"

lemma NewRoleRepository_sel [simp]:
  "roles_Create (NewRoleRepository G) = role_Create G"
  "roles_GetByID (NewRoleRepository G) = role_GetByID G"
  "roles_GetByName (NewRoleRepository G) = role_GetByName G"
  "roles_List (NewRoleRepository G) = role_List G"
  "roles_Delete (NewRoleRepository G) = role_Delete G"
  "roles_AttachPermission (NewRoleRepository G) = role_AttachPermission G"
  "roles_DetachPermission (NewRoleRepository G) = role_DetachPermission G"
  "roles_GetPermissions (NewRoleRepository G) = role_GetPermissions G"
  "roles_GetUserIDsForRole (NewRoleRepository G) = role_GetUserIDsForRole G"
  by (simp_all add: NewRoleRepository_def)

lemma NewPermissionRepository_sel [simp]:
  "perms_Create (NewPermissionRepository G) = perm_Create G"
  "perms_GetByID (NewPermissionRepository G) = perm_GetByID G"
  "perms_GetByName (NewPermissionRepository G) = perm_GetByName G"
  "perms_List (NewPermissionRepository G) = perm_List G"
  "perms_Delete (NewPermissionRepository G) = perm_Delete G"
  by (simp_all add: NewPermissionRepository_def)

section \<open>The tables after each statement, as a store\<close>

lemma store_grant:
  "store_of (add_row (RolePermRow m) T) =
     (store_of T)\<lparr>st_grant := insert (role_perm_key m) (st_grant (store_of T))\<rparr>"
  by (simp add: store_of_def)

lemma store_ungrant:
  "store_of (delete_rows (on_row as_role_perm
       (\<lambda>m. rpm_RoleID m = r \<and> rpm_PermissionID m = p)) T) =
     (store_of T)\<lparr>st_grant := st_grant (store_of T) - {(r, p)}\<rparr>"
  by (auto simp: store_of_def sql_simps)

lemma filter_absent: "\<forall>x\<in>set xs. P x \<Longrightarrow> filter P xs = xs"
  by simp

lemma store_drop_role:
  "store_of (delete_rows (on_row as_role (\<lambda>m. rm_ID m = i)) T) = drop_role i (store_of T)"
proof (cases "i \<in> set (role_ids T)")
  case True
  then show ?thesis
    by (force simp: store_of_def sql_simps drop_role_def image_iff)
next
  case False
  then have "\<forall>m\<in>set (tb_roles T). rm_ID m \<noteq> i" by auto
  then show ?thesis
    by (auto simp: store_of_def sql_simps drop_role_def image_iff filter_absent)
qed

lemma store_drop_perm:
  "store_of (delete_rows (on_row as_perm (\<lambda>m. pm_ID m = i)) T) = drop_perm i (store_of T)"
proof (cases "i \<in> set (perm_ids T)")
  case True
  then show ?thesis
    by (force simp: store_of_def sql_simps drop_perm_def image_iff)
next
  case False
  then have "\<forall>m\<in>set (tb_permissions T). pm_ID m \<noteq> i" by auto
  then show ?thesis
    by (auto simp: store_of_def sql_simps drop_perm_def image_iff filter_absent)
qed

lemma store_add_role:
  "store_of (add_row (RoleRow m) T) =
     (store_of T)\<lparr>st_roles := insert (fromRoleModel m) (st_roles (store_of T))\<rparr>"
  by (simp add: store_of_def)

lemma store_add_perm:
  "store_of (add_row (PermRow m) T) =
     (store_of T)\<lparr>st_perms := insert (fromPermissionModel m) (st_perms (store_of T))\<rparr>"
  by (simp add: store_of_def)

lemma fromRoleModel_eq:
  "fromRoleModel \<lparr>rm_ID = i, rm_Name = r_Name x, rm_Description = r_Description x, rm_CreatedAt = t\<rparr> =
     x\<lparr>r_ID := i, r_CreatedAt := t\<rparr>"
  by (cases x) (simp add: fromRoleModel_def)

lemma fromPermissionModel_eq:
  "fromPermissionModel \<lparr>pm_ID = i, pm_Name = p_Name x, pm_Resource = p_Resource x,
       pm_Action = p_Action x, pm_Description = p_Description x, pm_CreatedAt = t\<rparr> =
     x\<lparr>p_ID := i, p_CreatedAt := t\<rparr>"
  by (cases x) (simp add: fromPermissionModel_def)

lemma join_grants:
  "fromPermissionModel ` {m \<in> set (tb_permissions T). \<exists>rp\<in>set (tb_role_permissions T).
       rpm_PermissionID rp = pm_ID m \<and> rpm_RoleID rp = i} =
   {x \<in> st_perms (store_of T). (i, p_ID x) \<in> st_grant (store_of T)}"
  by (force simp: image_iff)

section \<open>The repositories keep the interfaces' promises\<close>

context gorm_contract
begin

lemma role_GetBy_reads:
  "reads V d (\<lambda>h T. found ErrNotFound h (fromRoleModel ` {m \<in> set (tb_roles T). P m}))
    (bindE (first_as G d (plain (\<lambda>T. [RoleRow m. m \<leftarrow> tb_roles T, P m])) as_role) (\<lambda>m.
     okE (fromRoleModel m)))"
proof -
  have "reads V d (\<lambda>h T. found ErrNotFound h
      {m. \<exists>x\<in>set [RoleRow m. m \<leftarrow> tb_roles T, P m]. as_role x = Some m})
    (first_as G d (plain (\<lambda>T. [RoleRow m. m \<leftarrow> tb_roles T, P m])) as_role)"
    by (rule first_as) auto
  moreover have "{m. \<exists>x\<in>set [RoleRow m. m \<leftarrow> tb_roles T, P m]. as_role x = Some m} =
      {m \<in> set (tb_roles T). P m}" for T
    by auto
  ultimately show ?thesis by (auto intro: reads_found_map)
qed

lemma perm_GetBy_reads:
  "reads V d (\<lambda>h T. found ErrNotFound h (fromPermissionModel ` {m \<in> set (tb_permissions T). P m}))
    (bindE (first_as G d (plain (\<lambda>T. [PermRow m. m \<leftarrow> tb_permissions T, P m])) as_perm) (\<lambda>m.
     okE (fromPermissionModel m)))"
proof -
  have "reads V d (\<lambda>h T. found ErrNotFound h
      {m. \<exists>x\<in>set [PermRow m. m \<leftarrow> tb_permissions T, P m]. as_perm x = Some m})
    (first_as G d (plain (\<lambda>T. [PermRow m. m \<leftarrow> tb_permissions T, P m])) as_perm)"
    by (rule first_as) auto
  moreover have "{m. \<exists>x\<in>set [PermRow m. m \<leftarrow> tb_permissions T, P m]. as_perm x = Some m} =
      {m \<in> set (tb_permissions T). P m}" for T
    by auto
  ultimately show ?thesis by (auto intro: reads_found_map)
qed

lemma page_set:
  assumes "page_of coll q rows xs" and "q_limit q = None" and "q_offset q = None"
  shows "set (collect as xs) = set (collect as rows)"
proof -
  from assms have "mset xs = mset rows" by (auto simp: page_of_def limited_def)
  then show ?thesis by (rule mset_eq_setD [OF mset_collect])
qed

lemma list_reads:
  assumes "\<And>T. q_rows q T = map con (tb T)" and "\<And>m. as (con m) = Some m"
    and "q_limit q = None" and "q_offset q = None"
  shows "reads V d (\<lambda>h T. answered h (\<lambda>xs. set xs = f ` set (tb T)))
    (bindE (find_as G d q as) (\<lambda>models. okE (map f models)))"
proof (rule reads_map [OF find_as_page])
  show "paged q" using assms by (simp add: paged_def)
next
  fix T :: tables and ms
  assume "\<exists>xs. page_of coll q (q_rows q T) xs \<and> ms = collect as xs"
  with assms have "set ms = set (collect as (map con (tb T)))" by (metis page_set)
  also have "collect as (map con (tb T)) = tb T"
    using collect_map [of "tb T" as con "\<lambda>x. x"] assms(2) by simp
  finally show "set (map f ms) = f ` set (tb T)" by simp
qed

lemma role_GetPermissions_reads:
  "reads V d (\<lambda>h T. answered h (\<lambda>ps.
      set ps = {x \<in> st_perms (store_of T). (i, p_ID x) \<in> st_grant (store_of T)}))
    (bindE (find_as G d (plain (\<lambda>T. [PermRow m. m \<leftarrow> tb_permissions T,
          rp \<leftarrow> tb_role_permissions T, rpm_PermissionID rp = pm_ID m, rpm_RoleID rp = i])) as_perm)
     (\<lambda>models. okE (map fromPermissionModel models)))"
proof (rule reads_map [OF find_as])
  fix T :: tables and ms
  let ?f = "\<lambda>T. [PermRow m. m \<leftarrow> tb_permissions T, rp \<leftarrow> tb_role_permissions T,
      rpm_PermissionID rp = pm_ID m, rpm_RoleID rp = i]"
  assume "mset ms = mset (collect as_perm (?f T))"
  then have "set ms = set (collect as_perm (?f T))" by (rule mset_eq_setD)
  then have "set ms = {m \<in> set (tb_permissions T). \<exists>rp\<in>set (tb_role_permissions T).
      rpm_PermissionID rp = pm_ID m \<and> rpm_RoleID rp = i}"
    by (auto simp: set_collect)
  then show "set (map fromPermissionModel ms) =
      {x \<in> st_perms (store_of T). (i, p_ID x) \<in> st_grant (store_of T)}"
    by (simp only: set_map join_grants)
qed

lemma role_GetUserIDs_reads:
  "reads V d (\<lambda>h T. answered h (\<lambda>us. set us = {u. (u, i) \<in> st_assign (store_of T)}))
    (bindE (find_as G d (plain (\<lambda>T. [UserRoleRow m. m \<leftarrow> tb_user_roles T, urm_RoleID m = i]))
       as_user_role) (\<lambda>models. okE (map urm_UserID models)))"
proof (rule reads_map [OF find_as])
  fix T :: tables and ms
  assume "mset ms = mset (collect as_user_role
      [UserRoleRow m. m \<leftarrow> tb_user_roles T, urm_RoleID m = i])"
  from mset_eq_setD [OF this] show "set (map urm_UserID ms) = {u. (u, i) \<in> st_assign (store_of T)}"
    by (force simp: set_collect image_iff)
qed

lemma role_AttachPermission_writes:
  "writes V d (\<lambda>h T. changed h
      ((i, j) \<in> st_grant (store_of T) \<or>
        i \<in> r_ID ` st_roles (store_of T) \<and> j \<in> p_ID ` st_perms (store_of T))
      (\<lambda>_ T'. store_of T' = (store_of T)\<lparr>st_grant := insert (i, j) (st_grant (store_of T))\<rparr> \<and>
         ((i, j) \<in> st_grant (store_of T) \<or>
          i \<in> r_ID ` st_roles (store_of T) \<and> j \<in> p_ID ` st_perms (store_of T))) T)
    (g_CreateDoNothing G d (RolePermRow
       \<lparr>rpm_RoleID = i, rpm_PermissionID = j, rpm_GrantedAt = 0\<rparr>))"
proof (rule writes_weaken [OF CreateDoNothing])
  let ?x = "RolePermRow \<lparr>rpm_RoleID = i, rpm_PermissionID = j, rpm_GrantedAt = 0\<rparr>"
  fix h and T :: tables and res and T' :: tables
  have poss: "fits ?x \<and> (clashes ?x T \<or> refs_ok ?x T) \<longleftrightarrow>
      (i, j) \<in> st_grant (store_of T) \<or>
      i \<in> r_ID ` st_roles (store_of T) \<and> j \<in> p_ID ` st_perms (store_of T)"
    by (auto simp: fits_keys store_ids image_image)
  have same: "store_of T = (store_of T)\<lparr>st_grant := insert (i, j) (st_grant (store_of T))\<rparr>"
    if "clashes ?x T"
    using that by (simp add: insert_absorb store_of_def)
  assume "changed h (fits ?x \<and> (clashes ?x T \<or> refs_ok ?x T))
      (\<lambda>_ T'. if clashes ?x T then T' = T
              else \<exists>k n t. refs_ok ?x T \<and> T' = add_row (fill k n t ?x) T) T res T'"
  then show "changed h ((i, j) \<in> st_grant (store_of T) \<or>
        i \<in> r_ID ` st_roles (store_of T) \<and> j \<in> p_ID ` st_perms (store_of T))
      (\<lambda>_ T'. store_of T' = (store_of T)\<lparr>st_grant := insert (i, j) (st_grant (store_of T))\<rparr> \<and>
         ((i, j) \<in> st_grant (store_of T) \<or>
          i \<in> r_ID ` st_roles (store_of T) \<and> j \<in> p_ID ` st_perms (store_of T))) T res T'"
    unfolding poss [symmetric]
    using same by (cases res)
      (auto simp: fits_keys store_grant simp del: store_of_sel add_row.simps split: if_splits)
qed simp

end

sublocale gorm_contract \<subseteq> pg_roles:
  role_repository "pg_window V" store_of "NewRoleRepository G"
proof (unfold_locales, unfold NewRoleRepository_sel, goal_cases)
  case (1 x c)
  show ?case unfolding role_Create_def
    by (rule pg_writes, rule writes_map [OF create_as])
      (auto simp: stored_def insertable_def store_add_role store_ids fromRoleModel_eq
        simp del: store_of_sel add_row.simps)
next
  case (2 c i)
  have "{x \<in> st_roles (store_of T). r_ID x = i} =
      fromRoleModel ` {m \<in> set (tb_roles T). rm_ID m = i}" for T by auto
  then show ?case using role_GetBy_reads [of "dbFromContext c" "\<lambda>m. rm_ID m = i"]
    unfolding role_GetByID_def by (auto intro: pg_reads)
next
  case (3 c n)
  have "{x \<in> st_roles (store_of T). r_Name x = n} =
      fromRoleModel ` {m \<in> set (tb_roles T). rm_Name m = n}" for T by auto
  then show ?case using role_GetBy_reads [of "dbFromContext c" "\<lambda>m. rm_Name m = n"]
    unfolding role_GetByName_def by (auto intro: pg_reads)
next
  case (4 c)
  show ?case unfolding role_List_def store_of_sel
    by (rule pg_reads, rule list_reads [where con = RoleRow]) (simp_all add: roles_by_name_def)
next
  case (5 c i)
  show ?case unfolding role_Delete_def
    by (rule pg_writes, rule writes_wf [OF Delete])
      (auto simp: changed_def store_drop_role sql_simps simp del: store_of_sel
        intro!: wf_delete_rows split: sum.splits)
next
  case (6 i j c)
  show ?case unfolding role_AttachPermission_def
    by (rule pg_writes [OF role_AttachPermission_writes])
next
  case (7 c i j)
  show ?case unfolding role_DetachPermission_def
    by (rule pg_writes, rule writes_wf [OF Delete])
      (auto simp: changed_def store_ungrant sql_simps simp del: store_of_sel
        intro!: wf_delete_rows split: sum.splits)
next
  case (8 i c)
  show ?case unfolding role_GetPermissions_def by (rule pg_reads [OF role_GetPermissions_reads])
next
  case (9 i c)
  show ?case unfolding role_GetUserIDsForRole_def by (rule pg_reads [OF role_GetUserIDs_reads])
qed

sublocale gorm_contract \<subseteq> pg_perms:
  permission_repository "pg_window V" store_of "NewPermissionRepository G"
proof (unfold_locales, unfold NewPermissionRepository_sel, goal_cases)
  case (1 x c)
  show ?case unfolding perm_Create_def
    by (rule pg_writes, rule writes_map [OF create_as])
      (auto simp: stored_def insertable_def store_add_perm store_ids fromPermissionModel_eq
        simp del: store_of_sel add_row.simps)
next
  case (2 c i)
  have "{x \<in> st_perms (store_of T). p_ID x = i} =
      fromPermissionModel ` {m \<in> set (tb_permissions T). pm_ID m = i}" for T by auto
  then show ?case using perm_GetBy_reads [of "dbFromContext c" "\<lambda>m. pm_ID m = i"]
    unfolding perm_GetByID_def by (auto intro: pg_reads)
next
  case (3 c n)
  have "{x \<in> st_perms (store_of T). p_Name x = n} =
      fromPermissionModel ` {m \<in> set (tb_permissions T). pm_Name m = n}" for T by auto
  then show ?case using perm_GetBy_reads [of "dbFromContext c" "\<lambda>m. pm_Name m = n"]
    unfolding perm_GetByName_def by (auto intro: pg_reads)
next
  case (4 c)
  show ?case unfolding perm_List_def store_of_sel
    by (rule pg_reads, rule list_reads [where con = PermRow]) (simp_all add: perms_by_name_def)
next
  case (5 c i)
  show ?case unfolding perm_Delete_def
    by (rule pg_writes, rule writes_wf [OF Delete])
      (auto simp: changed_def store_drop_perm sql_simps simp del: store_of_sel
        intro!: wf_delete_rows split: sum.splits)
qed

end
