(* ===== verification/TokenRepo.thy ===== *)
theory TokenRepo
  imports PgBase
begin

text \<open>
  \<open>internal/repository/postgres/refresh_token_repo.go\<close>, and the proof that it keeps the
  promises of \<open>domain.RefreshTokenRepository\<close>. Two of its operations read the clock.
\<close>

section \<open>The repository\<close>

definition token_Create :: "'w gorm \<Rightarrow> ctx \<Rightarrow> RefreshToken \<Rightarrow> ('w, error, RefreshToken) cmd" where
  "token_Create G c t =
     bindE (create_as G (dbFromContext c) (TokenRow
       \<lparr>rtm_ID = 0, rtm_UserID = t_UserID t, rtm_TokenHash = t_TokenHash t,
        rtm_ExpiresAt = t_ExpiresAt t, rtm_RevokedAt = None, rtm_CreatedAt = 0\<rparr>) as_token)
     (\<lambda>m. okE (t\<lparr>t_ID := rtm_ID m, t_CreatedAt := rtm_CreatedAt m\<rparr>))"

definition token_GetByHash :: "'w gorm \<Rightarrow> ctx \<Rightarrow> string \<Rightarrow> ('w, error, RefreshToken) cmd" where
  "token_GetByHash G c h =
     bindE (first_as G (dbFromContext c)
       (plain (\<lambda>T. [TokenRow m. m \<leftarrow> tb_refresh_tokens T, rtm_TokenHash m = h])) as_token) (\<lambda>m.
     okE (fromTokenModel m))"

definition token_Revoke :: "'w gorm \<Rightarrow> 'w runtime \<Rightarrow> ctx \<Rightarrow> uuid \<Rightarrow> ('w, error, unit) cmd" where
  "token_Revoke G RT c i =
     bindS (rt_Now RT) (\<lambda>now.
     g_Update G (dbFromContext c) (on_row as_token (\<lambda>m. rtm_ID m = i))
       (set_row TokenRow as_token (\<lambda>m. m\<lparr>rtm_RevokedAt := Some now\<rparr>)))"

definition token_CountActiveByUser ::
  "'w gorm \<Rightarrow> 'w runtime \<Rightarrow> ctx \<Rightarrow> uuid \<Rightarrow> ('w, error, int) cmd" where
  "token_CountActiveByUser G RT c userID =
     bindS (rt_Now RT) (\<lambda>now.
     g_Count G (dbFromContext c) (\<lambda>T. [TokenRow m. m \<leftarrow> tb_refresh_tokens T,
       rtm_UserID m = userID, rtm_RevokedAt m = None, rtm_ExpiresAt m > now]))"

definition NewRefreshTokenRepository :: "'w gorm \<Rightarrow> 'w runtime \<Rightarrow> 'w RefreshTokenRepository" where
  "NewRefreshTokenRepository G RT = \<lparr>
     tokens_Create = token_Create G,
     tokens_GetByHash = token_GetByHash G,
     tokens_Revoke = token_Revoke G RT,
     tokens_CountActiveByUser = token_CountActiveByUser G RT\<rparr>"

lemma NewRefreshTokenRepository_sel [simp]:
  "tokens_Create (NewRefreshTokenRepository G RT) = token_Create G"
  "tokens_GetByHash (NewRefreshTokenRepository G RT) = token_GetByHash G"
  "tokens_Revoke (NewRefreshTokenRepository G RT) = token_Revoke G RT"
  "tokens_CountActiveByUser (NewRefreshTokenRepository G RT) = token_CountActiveByUser G RT"
  by (simp_all add: NewRefreshTokenRepository_def)

section \<open>The tables after each statement, as a store\<close>

lemma store_add_token:
  "store_of (add_row (TokenRow m) T) =
     (store_of T)\<lparr>st_tokens := insert (fromTokenModel m) (st_tokens (store_of T))\<rparr>"
  by (simp add: store_of_def)

lemma fromTokenModel_eq:
  "t_RevokedAt x = None \<Longrightarrow> t_UserID x = u \<Longrightarrow>
   fromTokenModel \<lparr>rtm_ID = i, rtm_UserID = u, rtm_TokenHash = t_TokenHash x,
       rtm_ExpiresAt = t_ExpiresAt x, rtm_RevokedAt = None, rtm_CreatedAt = t\<rparr> =
     x\<lparr>t_ID := i, t_CreatedAt := t\<rparr>"
  by (cases x) (simp add: fromTokenModel_def)

abbreviation revoke_row :: "time \<Rightarrow> row \<Rightarrow> row" where
  "revoke_row now \<equiv> set_row TokenRow as_token (\<lambda>m. m\<lparr>rtm_RevokedAt := Some now\<rparr>)"

lemma store_revoke:
  "store_of (update_rows (on_row as_token (\<lambda>m. rtm_ID m = i)) (\<lambda>r. touch t (revoke_row now r)) T) =
   (store_of T)\<lparr>st_tokens := (\<lambda>x. if t_ID x = i then x\<lparr>t_RevokedAt := Some now\<rparr> else x) `
       st_tokens (store_of T)\<rparr>"
proof -
  have "tb_refresh_tokens (update_rows (on_row as_token (\<lambda>m. rtm_ID m = i))
       (\<lambda>r. touch t (revoke_row now r)) T) =
     map (\<lambda>m. if rtm_ID m = i then m\<lparr>rtm_RevokedAt := Some now\<rparr> else m) (tb_refresh_tokens T)"
    by (simp add: update_rows_def set_cols_def on_row_def set_row_def)
  moreover have "fromTokenModel ` set \<dots> =
      (\<lambda>x. if t_ID x = i then x\<lparr>t_RevokedAt := Some now\<rparr> else x) ` (fromTokenModel ` set (tb_refresh_tokens T))"
    by (rule image_update) (simp_all add: fromTokenModel_def)
  ultimately show ?thesis
    by (simp only: store_of_def) (simp add: sql_simps)
qed

lemma revoke_same_keys:
  "on_row as_token P r \<Longrightarrow> same_keys r (touch t (revoke_row now r))"
  by (cases r) (simp_all add: sql_simps set_row_def)

section \<open>The repository keeps the interface's promises\<close>

definition storable_token :: "(row \<Rightarrow> bool) \<Rightarrow> RefreshToken \<Rightarrow> bool" where
  "storable_token fits t \<longleftrightarrow> fits (TokenRow
     \<lparr>rtm_ID = 0, rtm_UserID = t_UserID t, rtm_TokenHash = t_TokenHash t,
      rtm_ExpiresAt = t_ExpiresAt t, rtm_RevokedAt = None, rtm_CreatedAt = 0\<rparr>)"

context gorm_contract
begin

lemma token_Create_writes:
  assumes "t_RevokedAt x = None"
  shows "writes (pg_window V) c (\<lambda>h T. changed h
      (storable_token fits x \<and> t_UserID x \<in> u_ID ` st_users (store_of T) \<and>
        (\<exists>i. i \<noteq> 0 \<and> i \<notin> t_ID ` st_tokens (store_of T)))
      (\<lambda>x' T'. (\<exists>i t. x' = x\<lparr>t_ID := i, t_CreatedAt := t\<rparr>) \<and>
         t_ID x' \<notin> t_ID ` st_tokens (store_of T) \<and> t_UserID x \<in> u_ID ` st_users (store_of T) \<and>
         store_of T' = (store_of T)\<lparr>st_tokens := insert x' (st_tokens (store_of T))\<rparr>) T)
    (token_Create G c x)"
  unfolding token_Create_def
proof (rule pg_writes, rule writes_map [OF create_as], goal_cases)
  case (1 i n t x')
  then show ?case by (auto simp: stored_def)
next
  case (2 T m T')
  then show ?case using assms
    by (auto simp: stored_def insertable_def store_add_token store_ids fromTokenModel_eq
        simp del: store_of_sel add_row.simps)
next
  case (3 T)
  then obtain i where i: "i \<noteq> 0" "i \<notin> set (map rtm_ID (tb_refresh_tokens T))"
    and u: "t_UserID x \<in> set (user_ids T)" by (auto simp: image_image)
  let ?m = "\<lparr>rtm_ID = 0, rtm_UserID = t_UserID x, rtm_TokenHash = t_TokenHash x,
        rtm_ExpiresAt = t_ExpiresAt x, rtm_RevokedAt = None, rtm_CreatedAt = 0\<rparr>"
  have "stored jsonb i 0 0 (TokenRow ?m) = Some (TokenRow (?m\<lparr>rtm_ID := i\<rparr>))"
    by (simp add: stored_def)
  moreover have "insertable (TokenRow (?m\<lparr>rtm_ID := i\<rparr>)) T"
    using i u by (simp add: insertable_def)
  ultimately show ?case using 3 unfolding storable_token_def by blast
qed

lemma token_GetByHash_reads:
  "reads (pg_window V) c
    (\<lambda>h T. found ErrNotFound h {x \<in> st_tokens (store_of T). t_TokenHash x = n}) (token_GetByHash G c n)"
proof -
  let ?f = "\<lambda>T. [TokenRow m. m \<leftarrow> tb_refresh_tokens T, rtm_TokenHash m = n]"
  have eq: "fromTokenModel ` {m. \<exists>x\<in>set (?f T). as_token x = Some m} =
      {x \<in> st_tokens (store_of T). t_TokenHash x = n}" for T
    by auto
  have "reads V (dbFromContext c) (\<lambda>h T. found ErrNotFound h
      {m. \<exists>x\<in>set (?f T). as_token x = Some m}) (first_as G (dbFromContext c) (plain ?f) as_token)"
    by (rule first_as) auto
  from reads_found_map [OF this, where f = fromTokenModel] show ?thesis
    unfolding token_GetByHash_def eq by (rule pg_reads)
qed

end

context pg_clock
begin

lemma token_Revoke_writes:
  "writes (pg_window V) c (\<lambda>h T. changed h True
      (\<lambda>_ T'. \<exists>t. store_of T' = (store_of T)\<lparr>st_tokens :=
          (\<lambda>x. if t_ID x = i then x\<lparr>t_RevokedAt := Some t\<rparr> else x) ` st_tokens (store_of T)\<rparr>) T)
    (token_Revoke G RT c i)"
  unfolding token_Revoke_def
proof (rule pg_writes, rule silent_writes [OF Now_silent], goal_cases)
  case (1 now)
  have fits: "\<forall>r. on_row as_token (\<lambda>m. rtm_ID m = i) r \<longrightarrow> fits r \<longrightarrow> fits (revoke_row now r)"
    by (auto simp: on_row_def set_row_def row_as fits_revoked split: option.splits)
  have keep: "wf_tables T \<Longrightarrow> \<forall>t. wf_tables (update_rows (on_row as_token (\<lambda>m. rtm_ID m = i))
      (\<lambda>r. touch t (revoke_row now r)) T)" for T
    by (intro allI wf_update_rows) (auto intro: revoke_same_keys)
  show ?case
    by (rule writes_wf [OF Update])
      (use fits keep in \<open>auto simp: changed_def store_revoke simp del: store_of_sel split: sum.splits\<close>)
next
  case 2
  then show ?case by (blast intro: changed_mono)
qed

lemma token_CountActive_reads:
  "reads (pg_window V) c (\<lambda>h T. answered h (\<lambda>n. \<exists>now. n = int (length
      [m \<leftarrow> tb_refresh_tokens T. rtm_UserID m = u \<and> rtm_RevokedAt m = None \<and> rtm_ExpiresAt m > now])))
    (token_CountActiveByUser G RT c u)"
proof (rule readsI)
  fix w r w' assume "token_CountActiveByUser G RT c u w = (r, w')"
  then obtain now w1 where n: "rt_Now RT w = (now, w1)"
    and g: "g_Count G (dbFromContext c) (\<lambda>T. [TokenRow m. m \<leftarrow> tb_refresh_tokens T,
       rtm_UserID m = u, rtm_RevokedAt m = None, rtm_ExpiresAt m > now]) w1 = (r, w')"
    by (auto simp: token_CountActiveByUser_def cmd_simps)
  have "length [TokenRow m. m \<leftarrow> ms, rtm_UserID m = u, rtm_RevokedAt m = None, rtm_ExpiresAt m > now] =
      length [m \<leftarrow> ms. rtm_UserID m = u \<and> rtm_RevokedAt m = None \<and> rtm_ExpiresAt m > now]" for ms
    by (induction ms) auto
  with silentD [OF Now_silent n] readsD [OF Count g]
  show "untouched (pg_window V) w w' \<and> answered (up (pg_window V) w) (\<lambda>n. \<exists>now. n = int (length
      [m \<leftarrow> tb_refresh_tokens (seen (pg_window V) c w).
        rtm_UserID m = u \<and> rtm_RevokedAt m = None \<and> rtm_ExpiresAt m > now])) r"
    by (cases r) (auto simp: untouched_def)
qed

end

sublocale pg_clock \<subseteq> pg_tokens:
  token_repository "pg_window V" store_of "NewRefreshTokenRepository G RT" "storable_token fits"
  by (unfold_locales, unfold NewRefreshTokenRepository_sel)
    (rule token_Create_writes, assumption, rule token_GetByHash_reads, rule token_Revoke_writes)

end
