(* ===== verification/OutboxRepo.thy ===== *)
theory OutboxRepo
  imports PgBase
begin

text \<open>
  \<open>internal/repository/postgres/outbox_repo.go\<close>: the outbox, written inside business
  transactions and read by the relay on the base connection; and the proof that writing
  to it keeps the promise of \<open>domain.OutboxRepository\<close>.
\<close>

section \<open>Writing\<close>

definition outbox_model :: "string \<Rightarrow> string \<Rightarrow> OutboxModel" where
  "outbox_model eventType b = \<lparr>om_ID = 0, om_EventType = eventType, om_Payload = b,
     om_Status = ''pending'', om_RetryCount = 0, om_CreatedAt = 0, om_SentAt = None\<rparr>"

definition outbox_Create_pg ::
  "'w gorm \<Rightarrow> lib \<Rightarrow> ctx \<Rightarrow> string \<Rightarrow> json \<Rightarrow> ('w, error, unit) cmd" where
  "outbox_Create_pg G L c eventType payload =
     (case json_Marshal L payload of
        None \<Rightarrow> failE (ErrOther ''json: unsupported value'')
      | Some b \<Rightarrow>
          bindE (create_as G (dbFromContext c) (OutboxRow (outbox_model eventType b)) as_outbox)
            (\<lambda>_. okE ()))"

definition NewOutboxRepository :: "'w gorm \<Rightarrow> lib \<Rightarrow> 'w OutboxRepository" where
  "NewOutboxRepository G L = \<lparr>outbox_Create = outbox_Create_pg G L\<rparr>"

lemma NewOutboxRepository_sel [simp]: "outbox_Create (NewOutboxRepository G L) = outbox_Create_pg G L"
  by (simp add: NewOutboxRepository_def)

section \<open>The relay's side\<close>

abbreviation pending :: "OutboxModel \<Rightarrow> bool" where
  "pending m \<equiv> om_Status m = ''pending''"

definition pending_rows :: "tables \<Rightarrow> OutboxModel list" where
  "pending_rows T = filter pending (tb_outbox_events T)"

definition pending_query :: "int option \<Rightarrow> query" where
  "pending_query limit = \<lparr>q_rows = (\<lambda>T. map OutboxRow (pending_rows T)), q_order = OrderCreatedAt,
     q_limit = limit, q_offset = None\<rparr>"

definition FetchPending :: "'w gorm \<Rightarrow> int \<Rightarrow> ('w, error, OutboxModel list) cmd" where
  "FetchPending G limit = find_as G BaseDB (pending_query (Some limit)) as_outbox"

definition MarkSent :: "'w gorm \<Rightarrow> 'w runtime \<Rightarrow> 64 word \<Rightarrow> ('w, error, unit) cmd" where
  "MarkSent G RT i =
     bindS (rt_Now RT) (\<lambda>now.
     g_Update G BaseDB (on_row as_outbox (\<lambda>m. om_ID m = i))
       (set_row OutboxRow as_outbox (\<lambda>m. m\<lparr>om_Status := ''sent'', om_SentAt := Some now\<rparr>)))"

definition MarkFailed :: "'w gorm \<Rightarrow> 64 word \<Rightarrow> ('w, error, unit) cmd" where
  "MarkFailed G i =
     g_Update G BaseDB (on_row as_outbox (\<lambda>m. om_ID m = i))
       (set_row OutboxRow as_outbox (\<lambda>m. m\<lparr>om_RetryCount := om_RetryCount m + 1\<rparr>))"

definition OldestPendingAge :: "'w gorm \<Rightarrow> 'w runtime \<Rightarrow> ('w, error, duration) cmd" where
  "OldestPendingAge G RT =
     bindS (g_First G BaseDB (pending_query None)) (\<lambda>r.
     case r of
       Inl e \<Rightarrow> if e = ErrRecordNotFound then okE 0 else failE e
     | Inr x \<Rightarrow> bindE (scan as_outbox x) (\<lambda>m.
         bindS (rt_Now RT) (\<lambda>now. okE (now - om_CreatedAt m))))"

section \<open>The tables after each statement\<close>

lemma store_add_event:
  "store_of (add_row (OutboxRow m) T) =
     (store_of T)\<lparr>st_events := st_events (store_of T) @ [(om_EventType m, om_Payload m, om_Status m)]\<rparr>"
  by (simp add: store_of_def)

lemma mark_sent_tables:
  "update_rows (on_row as_outbox (\<lambda>m. om_ID m = i))
     (\<lambda>r. touch t (set_row OutboxRow as_outbox
        (\<lambda>m. m\<lparr>om_Status := ''sent'', om_SentAt := Some now\<rparr>) r)) T =
   T\<lparr>tb_outbox_events := map (\<lambda>m. if om_ID m = i
       then m\<lparr>om_Status := ''sent'', om_SentAt := Some now\<rparr> else m) (tb_outbox_events T)\<rparr>"
  by (simp add: update_rows_def sql_simps)
    (simp add: set_cols_def on_row_def set_row_def if_distrib cong: if_cong)

lemma mark_failed_tables:
  "update_rows (on_row as_outbox (\<lambda>m. om_ID m = i))
     (\<lambda>r. touch t (set_row OutboxRow as_outbox (\<lambda>m. m\<lparr>om_RetryCount := om_RetryCount m + 1\<rparr>) r)) T =
   T\<lparr>tb_outbox_events := map (\<lambda>m. if om_ID m = i
       then m\<lparr>om_RetryCount := om_RetryCount m + 1\<rparr> else m) (tb_outbox_events T)\<rparr>"
  by (simp add: update_rows_def sql_simps)
    (simp add: set_cols_def on_row_def set_row_def if_distrib cong: if_cong)

lemma outbox_same_keys:
  assumes "\<And>m. om_ID (f m) = om_ID m" and "on_row as_outbox P r"
  shows "same_keys r (touch t (set_row OutboxRow as_outbox f r))"
  using assms by (cases r) (simp_all add: sql_simps set_row_def)

section \<open>Contracts\<close>

text \<open>How an event's payload reads after the JSONB column, and which events can be written.\<close>

definition encodes :: "lib \<Rightarrow> (string \<Rightarrow> string option) \<Rightarrow> json \<Rightarrow> string \<Rightarrow> bool" where
  "encodes L jsonb j b \<longleftrightarrow> (\<exists>s. json_Marshal L j = Some s \<and> jsonb s = Some b)"

definition encodable ::
  "lib \<Rightarrow> (string \<Rightarrow> string option) \<Rightarrow> (row \<Rightarrow> bool) \<Rightarrow> string \<Rightarrow> json \<Rightarrow> bool" where
  "encodable L jsonb fits ty j \<longleftrightarrow>
     (\<exists>s. json_Marshal L j = Some s \<and> jsonb s \<noteq> None \<and> fits (OutboxRow (outbox_model ty s)))"

lemma free_word:
  fixes xs :: "'a::len word list"
  assumes "length xs < 2 ^ LENGTH('a)"
  shows "\<exists>n. of_nat n \<notin> set xs"
proof (rule ccontr)
  assume "\<nexists>n. of_nat n \<notin> set xs"
  then have all: "of_nat n \<in> set xs" for n by blast
  have "x \<in> set xs" for x using all [of "unat x"] by simp
  then have "UNIV \<subseteq> set xs" by blast
  then have "card (UNIV :: 'a word set) \<le> length xs"
    by (metis card_length card_mono finite_set order_trans)
  with assms show False by (simp add: card_word)
qed

context gorm_contract
begin

lemma outbox_Create_writes:
  "writes (pg_window V) c (\<lambda>h T. changed h
      (encodable L jsonb fits ty j \<and> length (st_events (store_of T)) < 2 ^ 64)
      (\<lambda>_ T'. \<exists>b. encodes L jsonb j b \<and>
         store_of T' = (store_of T)\<lparr>st_events := st_events (store_of T) @ [(ty, b, ''pending'')]\<rparr>) T)
    (outbox_Create_pg G L c ty j)"
proof (cases "json_Marshal L j")
  case None
  then show ?thesis
    by (auto simp: outbox_Create_pg_def encodable_def writes_def failE_def)
next
  case (Some s)
  have "writes (pg_window V) c (\<lambda>h T. changed h
      (encodable L jsonb fits ty j \<and> length (st_events (store_of T)) < 2 ^ 64)
      (\<lambda>_ T'. \<exists>b. encodes L jsonb j b \<and>
         store_of T' = (store_of T)\<lparr>st_events := st_events (store_of T) @ [(ty, b, ''pending'')]\<rparr>) T)
    (bindE (create_as G (dbFromContext c) (OutboxRow (outbox_model ty s)) as_outbox) (\<lambda>_. okE ()))"
  proof (rule pg_writes, rule writes_map [OF create_as], goal_cases)
    case (1 i n t x')
    then show ?case by (auto simp: stored_def outbox_model_def)
  next
    case (2 T m T')
    then show ?case
      by (auto simp: stored_def store_add_event outbox_model_def encodes_def Some
          simp del: store_of_sel add_row.simps)
  next
    case (3 T)
    then have "length (map om_ID (tb_outbox_events T)) < 2 ^ LENGTH(64)" by simp
    from free_word [OF this] obtain n where n: "of_nat n \<notin> set (map om_ID (tb_outbox_events T))" ..
    from 3 Some obtain b where "jsonb s = Some b" and "fits (OutboxRow (outbox_model ty s))"
      by (auto simp: encodable_def)
    with n show ?case
      by (intro conjI exI [of _ 0] exI [of _ n])
        (auto simp: stored_def outbox_model_def insertable_def)
  qed
  with Some show ?thesis by (simp add: outbox_Create_pg_def)
qed

lemma FetchPending_reads:
  assumes "0 \<le> l"
  shows "reads V BaseDB (\<lambda>h T. answered h (\<lambda>ms. \<exists>zs. mset zs = mset (pending_rows T) \<and>
      sorted_wrt (\<lambda>a b. om_CreatedAt a \<le> om_CreatedAt b) zs \<and> ms = take (nat l) zs))
    (FetchPending G l)"
proof -
  have "reads V BaseDB (\<lambda>h T. answered h (\<lambda>ms. \<exists>zs. mset zs = mset (pending_rows T) \<and>
      sorted_wrt (\<lambda>a b. row_le coll (q_order (pending_query (Some l))) (OutboxRow a) (OutboxRow b)) zs \<and>
      ms = limited (pending_query (Some l)) zs)) (FetchPending G l)"
    unfolding FetchPending_def
    by (rule find_as_sorted) (simp_all add: assms paged_def pending_query_def)
  then show ?thesis by (simp add: pending_query_def limited_def)
qed

lemma MarkFailed_writes:
  "writes V BaseDB (\<lambda>h T. changed h False (\<lambda>_ T'. T' = T\<lparr>tb_outbox_events :=
      map (\<lambda>m. if om_ID m = i then m\<lparr>om_RetryCount := om_RetryCount m + 1\<rparr> else m)
        (tb_outbox_events T)\<rparr>) T) (MarkFailed G i)"
  unfolding MarkFailed_def
  by (rule writes_weaken [OF Update]) (auto simp: changed_def mark_failed_tables split: sum.splits)

end

context pg_clock
begin

lemma MarkSent_writes:
  "writes V BaseDB (\<lambda>h T. changed h True (\<lambda>_ T'. \<exists>now. T' = T\<lparr>tb_outbox_events :=
      map (\<lambda>m. if om_ID m = i then m\<lparr>om_Status := ''sent'', om_SentAt := Some now\<rparr> else m)
        (tb_outbox_events T)\<rparr>) T) (MarkSent G RT i)"
  unfolding MarkSent_def
proof (rule silent_writes [OF Now_silent], goal_cases)
  case (1 now)
  let ?f = "\<lambda>m. m\<lparr>om_Status := ''sent'', om_SentAt := Some now\<rparr>"
  have fits: "\<forall>r. on_row as_outbox (\<lambda>m. om_ID m = i) r \<longrightarrow> fits r \<longrightarrow>
      fits (set_row OutboxRow as_outbox ?f r)"
    by (auto simp: on_row_def set_row_def row_as fits_sent split: option.splits)
  have keep: "wf_tables T \<Longrightarrow> \<forall>t. wf_tables (update_rows (on_row as_outbox (\<lambda>m. om_ID m = i))
      (\<lambda>r. touch t (set_row OutboxRow as_outbox ?f r)) T)" for T
    by (intro allI wf_update_rows) (auto intro: outbox_same_keys)
  show ?case
  proof (rule writes_wf [OF Update])
    fix h and T :: tables and r :: "error + unit" and T' :: tables
    assume "h \<Longrightarrow> wf_tables T"
      and "changed h ((\<forall>r. on_row as_outbox (\<lambda>m. om_ID m = i) r \<longrightarrow> fits r \<longrightarrow>
          fits (set_row OutboxRow as_outbox ?f r)) \<and>
        (\<forall>t. wf_tables (update_rows (on_row as_outbox (\<lambda>m. om_ID m = i))
          (\<lambda>r. touch t (set_row OutboxRow as_outbox ?f r)) T)))
        (\<lambda>_ T'. \<exists>t. T' = update_rows (on_row as_outbox (\<lambda>m. om_ID m = i))
          (\<lambda>r. touch t (set_row OutboxRow as_outbox ?f r)) T) T r T'"
    with fits keep show "changed h True (\<lambda>_ T'. \<exists>now. T' = T\<lparr>tb_outbox_events :=
      map (\<lambda>m. if om_ID m = i then m\<lparr>om_Status := ''sent'', om_SentAt := Some now\<rparr> else m)
        (tb_outbox_events T)\<rparr>) T r T'"
      unfolding mark_sent_tables by (cases r) (simp_all, blast+)
  qed
next
  case 2
  then show ?case by (blast intro: changed_mono)
qed

text \<open>The age of some oldest pending event, by the clock read in between; 0 if there is none.\<close>

lemma OldestPendingAge_reads:
  "reads V BaseDB (\<lambda>h T. answered h (\<lambda>d. pending_rows T = [] \<and> d = 0 \<or>
      (\<exists>m\<in>set (pending_rows T). (\<forall>x\<in>set (pending_rows T). om_CreatedAt m \<le> om_CreatedAt x) \<and>
         (\<exists>now. d = now - om_CreatedAt m)))) (OldestPendingAge G RT)"
proof (rule readsI)
  fix w r w' assume run: "OldestPendingAge G RT w = (r, w')"
  obtain r1 w1 where f: "g_First G BaseDB (pending_query None) w = (r1, w1)" by force
  from readsD [OF First f] have u: "untouched V w w1"
    and c: "found ErrRecordNotFound (up V w) (firsts coll (pending_query None) (seen V BaseDB w)) r1"
    by auto
  have empty: "firsts coll (pending_query None) T = {} \<Longrightarrow> pending_rows T = []" for T
  proof (rule ccontr)
    assume e: "firsts coll (pending_query None) T = {}" and n: "pending_rows T \<noteq> []"
    let ?ts = "om_CreatedAt ` set (pending_rows T)"
    have "Min ?ts \<in> ?ts" using n by (intro Min_in) auto
    then obtain m where m: "m \<in> set (pending_rows T)" "om_CreatedAt m = Min ?ts" by auto
    then have "OutboxRow m \<in> firsts coll (pending_query None) T"
      by (auto simp: firsts_def pending_query_def)
    with e show False by simp
  qed
  show "untouched V w w' \<and> answered (up V w) (\<lambda>d. pending_rows (seen V BaseDB w) = [] \<and> d = 0 \<or>
      (\<exists>m\<in>set (pending_rows (seen V BaseDB w)).
         (\<forall>x\<in>set (pending_rows (seen V BaseDB w)). om_CreatedAt m \<le> om_CreatedAt x) \<and>
         (\<exists>now. d = now - om_CreatedAt m))) r"
  proof (cases r1)
    case (Inl e)
    with run f u c empty show ?thesis
      by (auto simp: OldestPendingAge_def bindS_def okE_def failE_def split: if_splits)
  next
    case (Inr x)
    with c obtain m where x: "x = OutboxRow m" and m: "m \<in> set (pending_rows (seen V BaseDB w))"
      "\<forall>x\<in>set (pending_rows (seen V BaseDB w)). om_CreatedAt m \<le> om_CreatedAt x"
      by (auto simp: firsts_def pending_query_def)
    obtain now w2 where n: "rt_Now RT w1 = (now, w2)" by force
    with run f Inr x have "r = Inr (now - om_CreatedAt m)" "w' = w2"
      by (auto simp: OldestPendingAge_def bindS_def bindE_def okE_def scan_def)
    with m u silentD [OF Now_silent n] show ?thesis by (auto dest: untouched_trans)
  qed
qed

end

sublocale gorm_contract \<subseteq> pg_outbox: outbox_repository "pg_window V" store_of
  "NewOutboxRepository G L" "encodes L jsonb" "encodable L jsonb fits" for L
  by unfold_locales (unfold NewOutboxRepository_sel, rule outbox_Create_writes)

end
