(* ===== verification/AuditRepo.thy ===== *)
theory AuditRepo
  imports PgBase
begin

text \<open>
  \<open>internal/repository/postgres/audit_repo.go\<close>: the audit log, on the base connection:
  what an entry reads as once it has been written, and the pages of the log.
\<close>

definition audit_Create_pg :: "'w gorm \<Rightarrow> lib \<Rightarrow> ctx \<Rightarrow> AuditLog \<Rightarrow> ('w, error, AuditLog) cmd" where
  "audit_Create_pg G L c log =
     (case json_Marshal L (a_Metadata log) of
        None \<Rightarrow> failE (ErrOther ''json: unsupported value'')
      | Some meta \<Rightarrow>
          bindE (create_as G BaseDB (AuditRow
            \<lparr>am_ID = 0, am_ActorID = a_ActorID log, am_Action = a_Action log,
             am_ResourceType = a_ResourceType log, am_ResourceID = a_ResourceID log,
             am_Metadata = meta, am_CreatedAt = 0\<rparr>) as_audit)
          (\<lambda>m. okE (log\<lparr>a_ID := am_ID m, a_CreatedAt := am_CreatedAt m\<rparr>)))"

text \<open>
  \<open>var meta map[string]interface{}; _ = json.Unmarshal(m.Metadata, &meta)\<close>: the map is nil
  unless the text is an object.
\<close>

definition audit_meta :: "lib \<Rightarrow> string \<Rightarrow> json" where
  "audit_meta L s = (case json_Unmarshal L s of Some (JObj fs) \<Rightarrow> JObj fs | _ \<Rightarrow> JNull)"

definition fromAuditModel :: "lib \<Rightarrow> AuditLogModel \<Rightarrow> AuditLog" where
  "fromAuditModel L m = \<lparr>a_ID = am_ID m, a_ActorID = am_ActorID m, a_Action = am_Action m,
     a_ResourceType = am_ResourceType m, a_ResourceID = am_ResourceID m,
     a_Metadata = audit_meta L (am_Metadata m), a_CreatedAt = am_CreatedAt m\<rparr>"

definition audit_page :: "int \<Rightarrow> int \<Rightarrow> query" where
  "audit_page limit offset = \<lparr>q_rows = (\<lambda>T. map AuditRow (tb_audit_logs T)),
     q_order = OrderCreatedAtDesc, q_limit = Some limit, q_offset = Some offset\<rparr>"

definition audit_List_pg ::
  "'w gorm \<Rightarrow> lib \<Rightarrow> ctx \<Rightarrow> int \<Rightarrow> int \<Rightarrow> ('w, error, AuditLog list \<times> int) cmd" where
  "audit_List_pg G L c limit offset =
     bindE (g_Count G BaseDB (\<lambda>T. map AuditRow (tb_audit_logs T))) (\<lambda>total.
     bindE (find_as G BaseDB (audit_page limit offset) as_audit) (\<lambda>rows.
     okE (map (fromAuditModel L) rows, total)))"

definition NewAuditRepository :: "'w gorm \<Rightarrow> lib \<Rightarrow> 'w AuditRepository" where
  "NewAuditRepository G L = \<lparr>audit_Create = audit_Create_pg G L, audit_List = audit_List_pg G L\<rparr>"

lemma NewAuditRepository_sel [simp]:
  "audit_Create (NewAuditRepository G L) = audit_Create_pg G L"
  "audit_List (NewAuditRepository G L) = audit_List_pg G L"
  by (simp_all add: NewAuditRepository_def)

context gorm_contract
begin

text \<open>
  Writing an entry appends one row; when the columns preserve the encoded metadata, the row
  reads back as the entry (the answer carries the generated identifier and time).
\<close>

lemma audit_Create_writes:
  "writes V BaseDB (\<lambda>h T. changed h False
      (\<lambda>log' T'. \<exists>m s b. tb_audit_logs T' = tb_audit_logs T @ [m] \<and>
         T' = T\<lparr>tb_audit_logs := tb_audit_logs T'\<rparr> \<and>
         log' = log\<lparr>a_ID := am_ID m, a_CreatedAt := am_CreatedAt m\<rparr> \<and>
         json_Marshal L (a_Metadata log) = Some s \<and> jsonb s = Some b \<and>
         fromAuditModel L m = log'\<lparr>a_Metadata := audit_meta L b\<rparr> \<and>
         am_ID m \<notin> am_ID ` set (tb_audit_logs T) \<and>
         (\<forall>a. a_ActorID log = Some a \<longrightarrow> a \<in> set (user_ids T))) T)
    (audit_Create_pg G L c log)"
proof (cases "json_Marshal L (a_Metadata log)")
  case None
  then show ?thesis by (simp add: audit_Create_pg_def writes_def failE_def)
next
  case (Some s)
  let ?m = "\<lparr>am_ID = 0, am_ActorID = a_ActorID log, am_Action = a_Action log,
     am_ResourceType = a_ResourceType log, am_ResourceID = a_ResourceID log,
     am_Metadata = s, am_CreatedAt = 0\<rparr>"
  have "writes V BaseDB (\<lambda>h T. changed h False
      (\<lambda>log' T'. \<exists>m s b. tb_audit_logs T' = tb_audit_logs T @ [m] \<and>
         T' = T\<lparr>tb_audit_logs := tb_audit_logs T'\<rparr> \<and>
         log' = log\<lparr>a_ID := am_ID m, a_CreatedAt := am_CreatedAt m\<rparr> \<and>
         json_Marshal L (a_Metadata log) = Some s \<and> jsonb s = Some b \<and>
         fromAuditModel L m = log'\<lparr>a_Metadata := audit_meta L b\<rparr> \<and>
         am_ID m \<notin> am_ID ` set (tb_audit_logs T) \<and>
         (\<forall>a. a_ActorID log = Some a \<longrightarrow> a \<in> set (user_ids T))) T)
    (bindE (create_as G BaseDB (AuditRow ?m) as_audit)
      (\<lambda>m. okE (log\<lparr>a_ID := am_ID m, a_CreatedAt := am_CreatedAt m\<rparr>)))"
  proof (rule writes_map [OF create_as], goal_cases)
    case (1 i n t x')
    then show ?case by (auto simp: stored_def)
  next
    case (2 T m T')
    then show ?case
      by (auto simp: stored_def insertable_def fromAuditModel_def Some
          intro!: exI [of _ m] split: option.splits)
  qed simp
  with Some show ?thesis by (simp add: audit_Create_pg_def)
qed

lemma audit_List_reads:
  assumes "0 \<le> l" and "0 \<le> k"
  shows "reads V BaseDB (\<lambda>h T. answered h (\<lambda>(ls, n). n = int (length (tb_audit_logs T)) \<and>
      (\<exists>ms. mset ms = mset (tb_audit_logs T) \<and>
        sorted_wrt (\<lambda>a b. am_CreatedAt b \<le> am_CreatedAt a) ms \<and>
        ls = map (fromAuditModel L) (take (nat l) (drop (nat k) ms))))) (audit_List_pg G L c l k)"
proof -
  have "reads V BaseDB (\<lambda>h T. answered h (\<lambda>(ls, n). n = int (length (tb_audit_logs T)) \<and>
      (\<exists>ms. mset ms = mset (tb_audit_logs T) \<and>
        sorted_wrt (\<lambda>a b. row_le coll (q_order (audit_page l k)) (AuditRow a) (AuditRow b)) ms \<and>
        ls = map (fromAuditModel L) (limited (audit_page l k) ms)))) (audit_List_pg G L c l k)"
    unfolding audit_List_pg_def
    by (rule count_find) (simp_all add: assms paged_def audit_page_def)
  then show ?thesis by (simp add: audit_page_def limited_def)
qed

lemma audit_List_reads_any: "reads V BaseDB (\<lambda>_ _ _. True) (audit_List_pg G L c l k)"
  unfolding audit_List_pg_def by (rule count_find_reads)

end

end
