(* ===== verification/Redis.thy ===== *)
theory Redis
  imports Platform
begin

text \<open>
  Redis, reached through go-redis. The calls the code makes are the fields of \<open>redis\<close>;
  \<open>redis_contract\<close> states what is documented about them. Keys carry deadlines: at the
  time a command is served, the keys whose deadline has passed are gone. A command that
  fails may or may not have been carried out. At the end stands an in-memory server that
  meets the contract.
\<close>

section \<open>The server's state\<close>

datatype rvalue = RStr string | RNum int | RSet "string list"

record redis_state =
  rs_keys :: "string \<Rightarrow> (rvalue \<times> time option) option"
  rs_now :: time

definition alive :: "time \<Rightarrow> (rvalue \<times> time option) option \<Rightarrow> (rvalue \<times> time option) option" where
  "alive t e = (case e of
     Some (x, Some d) \<Rightarrow> if t < d then e else None
   | _ \<Rightarrow> e)"

definition at_time :: "time \<Rightarrow> redis_state \<Rightarrow> redis_state" where
  "at_time t s = \<lparr>rs_keys = (\<lambda>k. alive t (rs_keys s k)), rs_now = t\<rparr>"

definition rd_set :: "string \<Rightarrow> rvalue \<Rightarrow> duration \<Rightarrow> redis_state \<Rightarrow> redis_state" where
  "rd_set k x ttl s = s\<lparr>rs_keys := (rs_keys s)(k \<mapsto> (x, Some (rs_now s + ttl)))\<rparr>"

definition rd_del :: "string list \<Rightarrow> redis_state \<Rightarrow> redis_state" where
  "rd_del ks s = s\<lparr>rs_keys := (\<lambda>k. if k \<in> set ks then None else rs_keys s k)\<rparr>"

definition rd_sadd :: "string \<Rightarrow> string list \<Rightarrow> redis_state \<Rightarrow> redis_state" where
  "rd_sadd k ms s = (case rs_keys s k of
     None \<Rightarrow> s\<lparr>rs_keys := (rs_keys s)(k \<mapsto> (RSet (remdups ms), None))\<rparr>
   | Some (RSet X, d) \<Rightarrow> s\<lparr>rs_keys := (rs_keys s)(k \<mapsto> (RSet (X @ filter (\<lambda>m. m \<notin> set X) (remdups ms)), d))\<rparr>
   | Some _ \<Rightarrow> s)"

definition rd_expire :: "string \<Rightarrow> duration \<Rightarrow> redis_state \<Rightarrow> redis_state" where
  "rd_expire k ttl s = (case rs_keys s k of
     None \<Rightarrow> s
   | Some (x, _) \<Rightarrow> s\<lparr>rs_keys := (rs_keys s)(k \<mapsto> (x, Some (rs_now s + ttl)))\<rparr>)"

definition rd_incr :: "string \<Rightarrow> redis_state \<Rightarrow> redis_state" where
  "rd_incr k s = (case rs_keys s k of
     None \<Rightarrow> s\<lparr>rs_keys := (rs_keys s)(k \<mapsto> (RNum 1, None))\<rparr>
   | Some (RNum n, d) \<Rightarrow> s\<lparr>rs_keys := (rs_keys s)(k \<mapsto> (RNum (n + 1), d))\<rparr>
   | Some _ \<Rightarrow> s)"

text \<open>The number a key counts; a missing key counts 0.\<close>

definition rd_count :: "string \<Rightarrow> redis_state \<Rightarrow> int" where
  "rd_count k s = (case rs_keys s k of Some (RNum n, _) \<Rightarrow> n | _ \<Rightarrow> 0)"

definition rd_members :: "string \<Rightarrow> redis_state \<Rightarrow> string list option" where
  "rd_members k s = (case rs_keys s k of Some (RSet X, _) \<Rightarrow> Some X | _ \<Rightarrow> None)"

definition is_number :: "string \<Rightarrow> redis_state \<Rightarrow> bool" where
  "is_number k s \<longleftrightarrow>
     (case rs_keys s k of None \<Rightarrow> True | Some (RNum n, _) \<Rightarrow> n + 1 < 2 ^ 63 | Some _ \<Rightarrow> False)"

definition is_set :: "string \<Rightarrow> redis_state \<Rightarrow> bool" where
  "is_set k s \<longleftrightarrow> (case rs_keys s k of Some (RStr _, _) \<Rightarrow> False | Some (RNum _, _) \<Rightarrow> False | _ \<Rightarrow> True)"

section \<open>The calls\<close>

text \<open>The commands the code queues in a MULTI/EXEC pipeline.\<close>

datatype rcmd = Del "string list" | SAdd string "string list" | Expire string duration

record 'w redis =
  rd_SMembers :: "string \<Rightarrow> ('w, error, string list) cmd"
  rd_Set :: "string \<Rightarrow> string \<Rightarrow> duration \<Rightarrow> ('w, error, unit) cmd"
  rd_Exists :: "string \<Rightarrow> ('w, error, int) cmd"
  rd_Del :: "string list \<Rightarrow> ('w, error, unit) cmd"
  rd_TxPipeline :: "rcmd list \<Rightarrow> ('w, error, unit) cmd"
  rd_Incr :: "string \<Rightarrow> ('w, error, int) cmd"
  rd_Expire :: "string \<Rightarrow> duration \<Rightarrow> ('w, error, unit) cmd"

text \<open>
  A time to live is sent in whole seconds or milliseconds: \<open>ttl\<close> is the rounding.
\<close>

fun rd_exec :: "(duration \<Rightarrow> duration) \<Rightarrow> rcmd \<Rightarrow> redis_state \<Rightarrow> redis_state" where
  "rd_exec ttl (Del ks) s = rd_del ks s"
| "rd_exec ttl (SAdd k ms) s = rd_sadd k ms s"
| "rd_exec ttl (Expire k d) s = rd_expire k (ttl d) s"

section \<open>What the calls mean\<close>

text \<open>
  \<open>served P F\<close>: the command is served at some time \<open>t\<close>, not before the last one. It
  answers and acts as \<open>F\<close> says on what is alive then; or it fails, having acted or not,
  which it does not do while the server is up and \<open>P\<close> holds.
\<close>

definition served ::
  "(redis_state \<Rightarrow> bool) \<Rightarrow> (redis_state \<Rightarrow> 'a \<Rightarrow> redis_state \<Rightarrow> bool) \<Rightarrow>
   bool \<Rightarrow> redis_state \<Rightarrow> error + 'a \<Rightarrow> redis_state \<Rightarrow> bool" where
  "served P F h s r s' \<longleftrightarrow>
     (\<exists>t\<ge>rs_now s. case r of
        Inr a \<Rightarrow> F (at_time t s) a s'
      | Inl e \<Rightarrow> \<not> (h \<and> P (at_time t s)) \<and> (s' = at_time t s \<or> (\<exists>a. F (at_time t s) a s')))"

locale redis_contract =
  fixes K :: "(unit, 'w, redis_state, 'q) window"
    and D :: "'w redis"
    and ttl :: "duration \<Rightarrow> duration"
  assumes SMembers: "writes K () (served (is_set k)
      (\<lambda>s ms s'. s' = s \<and> set ms = (case rd_members k s of None \<Rightarrow> {} | Some X \<Rightarrow> set X)))
      (rd_SMembers D k)"
    and SetEx: "0 < d \<Longrightarrow> writes K () (served (\<lambda>_. True) (\<lambda>s _ s'. s' = rd_set k (RStr x) (ttl d) s))
      (rd_Set D k x d)"
    and Exists: "writes K () (served (\<lambda>_. True)
      (\<lambda>s n s'. s' = s \<and> n = (if rs_keys s k = None then 0 else 1))) (rd_Exists D k)"
    and Del: "writes K () (served (\<lambda>_. True) (\<lambda>s _ s'. s' = rd_del ks s)) (rd_Del D ks)"
    and TxPipeline: "writes K () (served (\<lambda>_. True) (\<lambda>s _ s'. s' = fold (rd_exec ttl) cs s))
      (rd_TxPipeline D cs)"
    and Incr: "writes K () (served (is_number k)
      (\<lambda>s n s'. is_number k s \<and> s' = rd_incr k s \<and> n = rd_count k s')) (rd_Incr D k)"
    and Expire: "writes K () (served (\<lambda>_. True) (\<lambda>s _ s'. s' = rd_expire k (ttl d) s)) (rd_Expire D k d)"
    and ttl_bound: "d - second < ttl d"
    and ttl_exact: "d mod second = 0 \<Longrightarrow> ttl d = d"

section \<open>A reference server\<close>

record redis_world = db_world +
  rw_state :: redis_state
  rw_faults :: "bool list"

definition ref_redis_window ::
  "(unit, 'x redis_world_scheme, redis_state, tables \<times> tables \<times> bool list \<times> 'x) window" where
  "ref_redis_window = \<lparr>seen = (\<lambda>_. rw_state),
     rest = (\<lambda>w. (db_base w, db_tx w, db_faults w, redis_world.more w)),
     up = (\<lambda>w. True \<notin> set (rw_faults w))\<rparr>"

definition ref_serve ::
  "(redis_state \<Rightarrow> (error + 'a) \<times> redis_state) \<Rightarrow> ('x redis_world_scheme, error, 'a) cmd" where
  "ref_serve f w =
     (let s = at_time (rs_now (rw_state w) + 1) (rw_state w) in
      if rw_faults w \<noteq> [] \<and> hd (rw_faults w)
      then (Inl (ErrOther ''fault''), w\<lparr>rw_faults := tl (rw_faults w), rw_state := s\<rparr>)
      else (case f s of (r, s') \<Rightarrow> (r, w\<lparr>rw_faults := tl (rw_faults w), rw_state := s'\<rparr>)))"

definition ref_redis :: "'x redis_world_scheme redis" where
  "ref_redis = \<lparr>
     rd_SMembers = (\<lambda>k. ref_serve (\<lambda>s.
       if is_set k s then (Inr (case rd_members k s of None \<Rightarrow> [] | Some X \<Rightarrow> X), s)
       else (Inl (ErrOther ''WRONGTYPE''), s))),
     rd_Set = (\<lambda>k x d. ref_serve (\<lambda>s. (Inr (), rd_set k (RStr x) d s))),
     rd_Exists = (\<lambda>k. ref_serve (\<lambda>s. (Inr (if rs_keys s k = None then 0 else 1), s))),
     rd_Del = (\<lambda>ks. ref_serve (\<lambda>s. (Inr (), rd_del ks s))),
     rd_TxPipeline = (\<lambda>cs. ref_serve (\<lambda>s. (Inr (), fold (rd_exec (\<lambda>d. d)) cs s))),
     rd_Incr = (\<lambda>k. ref_serve (\<lambda>s.
       if is_number k s then (Inr (rd_count k (rd_incr k s)), rd_incr k s)
       else (Inl (ErrOther ''not an integer''), s))),
     rd_Expire = (\<lambda>k d. ref_serve (\<lambda>s. (Inr (), rd_expire k d s)))\<rparr>"

lemma ref_serve_writes:
  assumes "\<And>s a s'. f s = (Inr a, s') \<Longrightarrow> F s a s'"
    and "\<And>s e s'. f s = (Inl e, s') \<Longrightarrow> \<not> P s \<and> s' = s"
  shows "writes ref_redis_window c (served P F) (ref_serve f)"
proof (rule writesI)
  fix w r w' assume run: "ref_serve f w = (r, w')"
  let ?t = "rs_now (rw_state w) + 1"
  let ?s = "at_time ?t (rw_state w)"
  have up: "up ref_redis_window w \<Longrightarrow> up ref_redis_window w'"
    using run by (cases "rw_faults w")
      (auto simp: ref_serve_def ref_redis_window_def Let_def split: if_splits prod.splits)
  have "touched ref_redis_window c w w'"
    using run up
    by (auto simp: ref_serve_def ref_redis_window_def touched_def Let_def split: if_splits prod.splits)
  moreover have "served P F (up ref_redis_window w) (rw_state w) r (rw_state w')"
  proof (cases "rw_faults w \<noteq> [] \<and> hd (rw_faults w)")
    case True
    then have "\<not> up ref_redis_window w" by (cases "rw_faults w") (auto simp: ref_redis_window_def)
    with True run show ?thesis
      by (auto simp: ref_serve_def served_def Let_def intro!: exI [of _ ?t])
  next
    case False
    with run have "f ?s = (r, rw_state w')"
      by (auto simp: ref_serve_def Let_def split: prod.splits if_splits)
    with assms show ?thesis
      by (cases r) (auto simp: served_def intro!: exI [of _ ?t])
  qed
  ultimately show "touched ref_redis_window c w w' \<and>
      served P F (up ref_redis_window w) (seen ref_redis_window c w) r (seen ref_redis_window c w')"
    by (simp add: ref_redis_window_def)
qed

interpretation ref_redis: redis_contract ref_redis_window ref_redis "\<lambda>d. d"
  by (unfold_locales; (simp add: ref_redis_def)?; (rule ref_serve_writes)?)
    (auto split: if_splits option.splits)

interpretation ref_redis_quiet: quiet_runtime ref_redis_window ref_runtime
  by unfold_locales
    (auto simp: silent_def ref_runtime_def ref_Now_def ref_Rand_def okE_def ref_redis_window_def
      untouched_def)

lemma redis_in_more:
  assumes "db_world.more w' = db_world.more w"
  shows "rw_state w' = rw_state w" and "rw_faults w' = rw_faults w"
  using assms by (cases w; cases w'; simp)+

lemma ref_apart: "apart ref_window ref_redis_window"
  by (auto dest: redis_in_more simp: apart_def ref_window_def ref_redis_window_def db_get_def split: conn.splits)

end
