(* ===== verification/Cache.thy ===== *)
theory Cache
  imports Redis
begin

text \<open>
  \<open>internal/platform/cache\<close>: the permission cache and the token blacklist, both on Redis
  and both optional. The permission cache keeps the promise that the RBAC service relies
  on: what it answers is what was last put there, and nothing answers after an
  invalidation that succeeded.
\<close>

section \<open>permission_cache.go\<close>

record 'w PermissionCache =
  pc_rdb :: "'w redis option"

definition NewPermissionCache :: "'w redis \<Rightarrow> 'w PermissionCache" where
  "NewPermissionCache rdb = \<lparr>pc_rdb = Some rdb\<rparr>"

lemma NewPermissionCache_sel [simp]: "pc_rdb (NewPermissionCache rdb) = Some rdb"
  by (simp add: NewPermissionCache_def)

definition permissionTTL :: duration where
  "permissionTTL = 10 * minute"

definition permissionsKey :: "lib \<Rightarrow> uuid \<Rightarrow> string" where
  "permissionsKey L u = ''user:'' @ uuid_String L u @ '':permissions''"

text \<open>\<open>set[m] = true\<close> for each member; reading a key that is not there gives false.\<close>

definition set_of :: "string list \<Rightarrow> string \<Rightarrow> bool option" where
  "set_of members = fold (\<lambda>m s. s(m \<mapsto> True)) members (\<lambda>_. None)"

definition go_index :: "(string \<Rightarrow> bool option) \<Rightarrow> string \<Rightarrow> bool" where
  "go_index s k = (case s k of None \<Rightarrow> False | Some b \<Rightarrow> b)"

text \<open>\<open>(set, true)\<close> is \<open>Some set\<close>, \<open>(nil, false)\<close> is \<open>None\<close>; a nil receiver is \<open>None\<close>.\<close>

definition cache_Get ::
  "lib \<Rightarrow> 'w PermissionCache option \<Rightarrow> uuid \<Rightarrow> 'w \<Rightarrow> (string \<Rightarrow> bool option) option \<times> 'w" where
  "cache_Get L c u = (case Option.bind c pc_rdb of
     None \<Rightarrow> Pair None
   | Some rdb \<Rightarrow> bindS (rd_SMembers rdb (permissionsKey L u)) (\<lambda>r.
       case r of
         Inl e \<Rightarrow> Pair None
       | Inr members \<Rightarrow> if members = [] then Pair None else Pair (Some (set_of members))))"

definition cache_Set ::
  "lib \<Rightarrow> 'w PermissionCache option \<Rightarrow> uuid \<Rightarrow> string list \<Rightarrow> 'w \<Rightarrow> unit \<times> 'w" where
  "cache_Set L c u permissions = (case Option.bind c pc_rdb of
     None \<Rightarrow> Pair ()
   | Some rdb \<Rightarrow>
       (let key = permissionsKey L u in
        if permissions = []
        then bindS (rd_Set rdb (key @ '':empty'') ''1'' minute) (\<lambda>_. Pair ())
        else bindS (rd_TxPipeline rdb [Del [key], SAdd key permissions, Expire key permissionTTL])
          (\<lambda>_. Pair ())))"

definition cache_Invalidate ::
  "lib \<Rightarrow> 'w PermissionCache option \<Rightarrow> uuid \<Rightarrow> ('w, error, unit) cmd" where
  "cache_Invalidate L c u = (case Option.bind c pc_rdb of
     None \<Rightarrow> okE ()
   | Some rdb \<Rightarrow> rd_Del rdb [permissionsKey L u, permissionsKey L u @ '':empty''])"

section \<open>blacklist.go\<close>

record 'w Blacklist =
  bl_rdb :: "'w redis option"

definition NewBlacklist :: "'w redis \<Rightarrow> 'w Blacklist" where
  "NewBlacklist rdb = \<lparr>bl_rdb = Some rdb\<rparr>"

lemma NewBlacklist_sel [simp]: "bl_rdb (NewBlacklist rdb) = Some rdb"
  by (simp add: NewBlacklist_def)

definition blacklist_key :: "string \<Rightarrow> string" where
  "blacklist_key jti = ''blacklist:'' @ jti"

definition blacklist_Add :: "'w Blacklist option \<Rightarrow> string \<Rightarrow> duration \<Rightarrow> ('w, error, unit) cmd" where
  "blacklist_Add b jti ttl = (case Option.bind b bl_rdb of
     None \<Rightarrow> okE ()
   | Some rdb \<Rightarrow> if ttl \<le> 0 then okE () else rd_Set rdb (blacklist_key jti) ''1'' ttl)"

definition IsBlacklisted :: "'w Blacklist option \<Rightarrow> string \<Rightarrow> 'w \<Rightarrow> bool \<times> 'w" where
  "IsBlacklisted b jti = (case Option.bind b bl_rdb of
     None \<Rightarrow> Pair False
   | Some rdb \<Rightarrow> bindS (rd_Exists rdb (blacklist_key jti)) (\<lambda>r.
       case r of Inl e \<Rightarrow> Pair False | Inr n \<Rightarrow> Pair (n > 0)))"

section \<open>What a permission cache promises\<close>

text \<open>
  \<open>cached s u\<close> is the set of names that a lookup for \<open>u\<close> may answer with in the state
  \<open>s\<close>. Entries may disappear at any time.
\<close>

locale permission_cache =
  fixes K :: "(unit, 'w, 'k, 'q) window"
    and cached :: "'k \<Rightarrow> uuid \<Rightarrow> string set option"
    and Get :: "uuid \<Rightarrow> 'w \<Rightarrow> (string \<Rightarrow> bool option) option \<times> 'w"
    and Put :: "uuid \<Rightarrow> string list \<Rightarrow> 'w \<Rightarrow> unit \<times> 'w"
    and Invalidate :: "uuid \<Rightarrow> ('w, error, unit) cmd"
  assumes Get: "writes K () (\<lambda>h s r s'.
      cached s' \<subseteq>\<^sub>m cached s \<and>
      (\<forall>f. r = Some f \<longrightarrow> (\<exists>N. cached s u = Some N \<and> f = (\<lambda>m. if m \<in> N then Some True else None))))
      (Get u)"
    and Put: "writes K () (\<lambda>h s r s'.
      cached s' \<subseteq>\<^sub>m cached s \<or> cached s' \<subseteq>\<^sub>m (cached s)(u \<mapsto> set ps))
      (Put u ps)"
    and Invalidate: "writes K () (\<lambda>h s r s'.
      cached s' \<subseteq>\<^sub>m cached s \<and>
      (r = Inr () \<longrightarrow> cached s' u = None) \<and> (h \<longrightarrow> r = Inr ())) (Invalidate u)"

text \<open>
  Coherence: every set that the cache may answer with is the set it stands for. The
  operations keep it, \<open>Put\<close> when it puts the right set, and after a change that concerns
  only users whose entries have been invalidated it holds again.
\<close>

definition coherent :: "(uuid \<Rightarrow> string set option) \<Rightarrow> (uuid \<Rightarrow> string set) \<Rightarrow> bool" where
  "coherent c truth \<longleftrightarrow> (\<forall>u N. c u = Some N \<longrightarrow> N = truth u)"

lemma map_le_None: "c' \<subseteq>\<^sub>m c \<Longrightarrow> c u = None \<Longrightarrow> c' u = None"
  by (metis domIff map_le_implies_dom_le subsetD)

lemma coherent_map_le: "coherent c truth \<longleftrightarrow> c \<subseteq>\<^sub>m (\<lambda>u. Some (truth u))"
  unfolding coherent_def map_le_def by (auto simp: dom_def)

lemma coherent_shrink: "coherent c truth \<Longrightarrow> c' \<subseteq>\<^sub>m c \<Longrightarrow> coherent c' truth"
  unfolding coherent_map_le by (rule map_le_trans)

lemma coherent_put:
  assumes "coherent c truth" and "c' \<subseteq>\<^sub>m c \<or> c' \<subseteq>\<^sub>m c(u \<mapsto> truth u)"
  shows "coherent c' truth"
proof -
  from assms(1) have "c \<subseteq>\<^sub>m (\<lambda>u. Some (truth u))" by (simp add: coherent_map_le)
  then have "c(u \<mapsto> truth u) \<subseteq>\<^sub>m (\<lambda>u. Some (truth u))(u \<mapsto> truth u)" by (rule map_le_upd)
  also have "(\<lambda>u. Some (truth u))(u \<mapsto> truth u) = (\<lambda>u. Some (truth u))" by auto
  finally show ?thesis using assms unfolding coherent_map_le by (blast intro: map_le_trans)
qed

lemma coherent_after:
  assumes "coherent c truth" and "c' \<subseteq>\<^sub>m c"
    and "\<And>v. v \<in> U \<Longrightarrow> c' v = None" and "\<And>v. v \<notin> U \<Longrightarrow> truth' v = truth v"
  shows "coherent c' truth'"
  using assms unfolding coherent_def map_le_def by (metis domI option.distinct(1))

section \<open>The Redis cache keeps it\<close>

text \<open>Identifiers print injectively, and so the keys of two users differ.\<close>

lemma permissionsKey_eq [simp]:
  assumes "inj (uuid_String L)"
  shows "permissionsKey L u = permissionsKey L v \<longleftrightarrow> u = v"
  using assms by (auto simp: permissionsKey_def dest: injD)

lemma permissionsKey_last: "last (permissionsKey L u) = CHR ''s''"
  by (simp add: permissionsKey_def)

lemma empty_key_other [simp]: "permissionsKey L u @ '':empty'' \<noteq> permissionsKey L v"
proof
  assume "permissionsKey L u @ '':empty'' = permissionsKey L v"
  moreover have "last (permissionsKey L u @ '':empty'') = CHR ''y''" by simp
  ultimately show False using permissionsKey_last [of L v] by simp
qed

lemmas empty_key_other_sym [simp] = empty_key_other [THEN not_sym]

lemma blacklist_key_other [simp]: "blacklist_key j \<noteq> permissionsKey L u"
  by (simp add: blacklist_key_def permissionsKey_def)

lemma set_of_eq: "set_of ms = (\<lambda>m. if m \<in> set ms then Some True else None)"
proof -
  have "fold (\<lambda>m s. s(m \<mapsto> True)) ms f = (\<lambda>m. if m \<in> set ms then Some True else f m)" for f
    by (induction ms arbitrary: f) auto
  then show ?thesis by (simp add: set_of_def)
qed

lemma go_index_set [simp]: "go_index (\<lambda>m. if m \<in> N then Some True else None) k \<longleftrightarrow> k \<in> N"
  by (simp add: go_index_def)

definition cached_perms ::
  "lib \<Rightarrow> 'w PermissionCache option \<Rightarrow> redis_state \<Rightarrow> uuid \<Rightarrow> string set option" where
  "cached_perms L c s u = (case Option.bind c pc_rdb of
     None \<Rightarrow> None
   | Some rdb \<Rightarrow> map_option set (rd_members (permissionsKey L u) s))"

lemma rd_members_at_time: "rd_members k (at_time t s) = None \<or> rd_members k (at_time t s) = rd_members k s"
  by (auto simp: rd_members_def at_time_def alive_def split: option.splits prod.splits rvalue.splits)

lemma rd_members_del [simp]:
  "rd_members k (rd_del ks s) = (if k \<in> set ks then None else rd_members k s)"
  by (simp add: rd_members_def rd_del_def)

lemma rd_members_set [simp]:
  "rd_members k (rd_set k' (RStr x) d s) = (if k = k' then None else rd_members k s)"
  by (simp add: rd_members_def rd_set_def)

lemma rd_members_put [simp]:
  "rd_members k (fold (rd_exec ttl) [Del [k'], SAdd k' ms, Expire k' d] s) =
     (if k = k' then Some (remdups ms) else rd_members k s)"
  by (simp add: rd_members_def rd_del_def rd_sadd_def rd_expire_def)

text \<open>What a redis command does to an observation that only ever shrinks by time.\<close>

lemma served_obs:
  assumes "served P F h s r s'"
    and time: "\<And>t. R (obs (at_time t s)) (obs s)" and trans: "\<And>x y z. R x y \<Longrightarrow> R y z \<Longrightarrow> R x z"
    and step: "\<And>s a s'. F s a s' \<Longrightarrow> R (obs s') (obs s)"
  shows "R (obs s') (obs s)"
  using assms(1) unfolding served_def
  by (cases r) (auto intro: time trans [OF step time])

lemma map_leI:
  assumes "\<And>v. c' v = None \<or> c' v = c v"
  shows "c' \<subseteq>\<^sub>m c"
  unfolding map_le_def
proof
  fix a assume "a \<in> dom c'"
  with assms [of a] show "c' a = c a" by auto
qed

locale redis_cache = redis_contract K D ttl
  for K :: "(unit, 'w, redis_state, 'q) window" and D :: "'w redis" and ttl +
  fixes L :: lib and c :: "'w PermissionCache option"
  assumes inj_uuid: "inj (uuid_String L)"
    and rdb: "Option.bind c pc_rdb = None \<or> Option.bind c pc_rdb = Some D"
begin

lemma fewer_at_time: "cached_perms L c (at_time t s) \<subseteq>\<^sub>m cached_perms L c s"
proof (rule map_leI)
  fix v show "cached_perms L c (at_time t s) v = None \<or>
      cached_perms L c (at_time t s) v = cached_perms L c s v"
    using rd_members_at_time [of "permissionsKey L v" t s]
    by (auto simp: cached_perms_def split: option.splits)
qed

lemma Get_writes: "writes K () (\<lambda>h s r s'.
    cached_perms L c s' \<subseteq>\<^sub>m cached_perms L c s \<and>
    (\<forall>f. r = Some f \<longrightarrow> (\<exists>N. cached_perms L c s u = Some N \<and>
       f = (\<lambda>m. if m \<in> N then Some True else None)))) (cache_Get L c u)"
proof (cases "Option.bind c pc_rdb")
  case None
  then show ?thesis by (simp add: cache_Get_def writes_def)
next
  case (Some x)
  with rdb have D: "Option.bind c pc_rdb = Some D" by simp
  show ?thesis
  proof (rule writesI)
    fix w r w' assume run: "cache_Get L c u w = (r, w')"
    obtain r1 w1 where m: "rd_SMembers D (permissionsKey L u) w = (r1, w1)" by force
    note W = writesD [OF SMembers m]
    from run m D have w': "w' = w1" and r: "r = (case r1 of Inl e \<Rightarrow> None
        | Inr ms \<Rightarrow> if ms = [] then None else Some (set_of ms))"
      by (auto simp: cache_Get_def bindS_def split: sum.splits if_splits)
    from W obtain t where s': "seen K () w' = at_time t (seen K () w)"
      and ms: "\<And>ms. r1 = Inr ms \<Longrightarrow> set ms = (case rd_members (permissionsKey L u) (seen K () w') of
          None \<Rightarrow> {} | Some X \<Rightarrow> set X)"
      unfolding served_def w' by (cases r1) auto
    have "\<exists>N. cached_perms L c (seen K () w) u = Some N \<and>
        f = (\<lambda>m. if m \<in> N then Some True else None)" if "r = Some f" for f
    proof -
      from that r obtain l where l: "r1 = Inr l" "l \<noteq> []" "f = set_of l"
        by (auto split: sum.splits if_splits)
      with ms [of l] obtain X where X: "rd_members (permissionsKey L u) (seen K () w') = Some X"
        "set l = set X" by (auto split: option.splits)
      with rd_members_at_time [of "permissionsKey L u" t "seen K () w"] s'
      have "rd_members (permissionsKey L u) (seen K () w) = Some X" by auto
      with D l X show ?thesis
        by (intro exI [of _ "set X"]) (simp add: cached_perms_def set_of_eq)
    qed
    with W w' s' fewer_at_time [of t "seen K () w"] show "touched K () w w' \<and>
        cached_perms L c (seen K () w') \<subseteq>\<^sub>m cached_perms L c (seen K () w) \<and>
        (\<forall>f. r = Some f \<longrightarrow> (\<exists>N. cached_perms L c (seen K () w) u = Some N \<and>
          f = (\<lambda>m. if m \<in> N then Some True else None)))"
      by auto
  qed
qed

lemma ignored_writes:
  "writes K () Q m \<Longrightarrow> (\<And>h s r s'. Q h s r s' \<Longrightarrow> Q' h s () s') \<Longrightarrow>
   writes K () Q' (bindS m (\<lambda>_. Pair ()))"
  unfolding writes_def bindS_def by (auto split: prod.splits) blast+

lemma fewer_step:
  assumes "served P (\<lambda>s _ s'. s' = f s) h s r s'"
    and "\<And>s. cached_perms L c (f s) \<subseteq>\<^sub>m cached_perms L c s \<or>
      cached_perms L c (f s) \<subseteq>\<^sub>m (cached_perms L c s)(u \<mapsto> N)"
  shows "cached_perms L c s' \<subseteq>\<^sub>m cached_perms L c s \<or>
    cached_perms L c s' \<subseteq>\<^sub>m (cached_perms L c s)(u \<mapsto> N)"
proof -
  from assms(1) obtain t where "s' = at_time t s \<or> s' = f (at_time t s)"
    by (cases r) (auto simp: served_def)
  moreover have "(cached_perms L c (at_time t s))(u \<mapsto> N) \<subseteq>\<^sub>m (cached_perms L c s)(u \<mapsto> N)"
    by (rule map_le_upd [OF fewer_at_time])
  ultimately show ?thesis
    using assms(2) [of "at_time t s"] by (blast intro: map_le_trans fewer_at_time)
qed

lemma Set_writes: "writes K () (\<lambda>h s r s'.
    cached_perms L c s' \<subseteq>\<^sub>m cached_perms L c s \<or>
    cached_perms L c s' \<subseteq>\<^sub>m (cached_perms L c s)(u \<mapsto> set ps)) (cache_Set L c u ps)"
proof (cases "Option.bind c pc_rdb")
  case None
  then show ?thesis by (simp add: cache_Set_def writes_def)
next
  case (Some x)
  with rdb have D: "Option.bind c pc_rdb = Some D" by simp
  let ?key = "permissionsKey L u"
  show ?thesis
  proof (cases "ps = []")
    case True
    have run: "cache_Set L c u ps = bindS (rd_Set D (?key @ '':empty'') ''1'' minute) (\<lambda>_. Pair ())"
      using True D by (simp add: cache_Set_def Let_def)
    have min: "0 < minute" by simp
    have "cached_perms L c (rd_set (?key @ '':empty'') (RStr ''1'') (ttl minute) s) \<subseteq>\<^sub>m
        cached_perms L c s" for s
      by (rule map_leI) (simp add: cached_perms_def D)
    then show ?thesis unfolding run
      by (intro ignored_writes [OF SetEx [OF min]]) (erule fewer_step, blast)
  next
    case False
    have run: "cache_Set L c u ps = bindS (rd_TxPipeline D
        [Del [?key], SAdd ?key ps, Expire ?key permissionTTL]) (\<lambda>_. Pair ())"
      using False D by (simp add: cache_Set_def Let_def)
    have "cached_perms L c (fold (rd_exec ttl) [Del [?key], SAdd ?key ps, Expire ?key permissionTTL] s)
        \<subseteq>\<^sub>m (cached_perms L c s)(u \<mapsto> set ps)" for s
      by (rule map_leI) (simp add: cached_perms_def D inj_uuid del: fold.simps)
    then show ?thesis unfolding run
      by (intro ignored_writes [OF TxPipeline]) (erule fewer_step, blast)
  qed
qed

lemma Invalidate_writes: "writes K () (\<lambda>h s r s'.
    cached_perms L c s' \<subseteq>\<^sub>m cached_perms L c s \<and>
    (r = Inr () \<longrightarrow> cached_perms L c s' u = None) \<and> (h \<longrightarrow> r = Inr ())) (cache_Invalidate L c u)"
proof (cases "Option.bind c pc_rdb")
  case None
  then show ?thesis by (simp add: cache_Invalidate_def writes_def okE_def cached_perms_def)
next
  case (Some x)
  with rdb have D: "Option.bind c pc_rdb = Some D" by simp
  let ?del = "rd_del [permissionsKey L u, permissionsKey L u @ '':empty'']"
  have del: "cached_perms L c (?del s) \<subseteq>\<^sub>m cached_perms L c s" "cached_perms L c (?del s) u = None" for s
    by (rule map_leI) (auto simp: cached_perms_def D inj_uuid)
  show ?thesis unfolding cache_Invalidate_def D option.case
  proof (rule writes_weaken [OF Del])
    fix h s and r :: "error + unit" and s'
    assume S: "served (\<lambda>_. True) (\<lambda>s _ s'. s' = ?del s) h s r s'"
    then obtain t where t: "s' = at_time t s \<or> s' = ?del (at_time t s)"
      and "r = Inr () \<Longrightarrow> s' = ?del (at_time t s)" and "h \<Longrightarrow> r = Inr ()"
      by (cases r) (auto simp: served_def)
    moreover from t have "cached_perms L c s' \<subseteq>\<^sub>m cached_perms L c s"
      by (blast intro: map_le_trans del fewer_at_time)
    ultimately show "cached_perms L c s' \<subseteq>\<^sub>m cached_perms L c s \<and>
        (r = Inr () \<longrightarrow> cached_perms L c s' u = None) \<and> (h \<longrightarrow> r = Inr ())"
      using del(2) by simp
  qed
qed

end

sublocale redis_cache \<subseteq> perm_cache:
  permission_cache K "cached_perms L c" "cache_Get L c" "cache_Set L c" "cache_Invalidate L c"
  by (unfold_locales) (rule Get_writes, rule Set_writes, rule Invalidate_writes)

section \<open>What the blacklist promises\<close>

text \<open>
  \<open>banned s jti t\<close>: by the state \<open>s\<close>, the token \<open>jti\<close> is still listed at the time \<open>t\<close> of the
  server's clock, \<open>now s\<close>. A listing lasts as long as it was asked to, up to the rounding
  of times to live; a check never reports a token that is not listed, and while the server
  is up it misses none.
\<close>

locale token_blacklist =
  fixes K :: "(unit, 'w, 'k, 'q) window"
    and banned :: "'k \<Rightarrow> string \<Rightarrow> time \<Rightarrow> bool" and clock :: "'k \<Rightarrow> time"
    and Add :: "string \<Rightarrow> duration \<Rightarrow> ('w, error, unit) cmd"
    and Check :: "string \<Rightarrow> 'w \<Rightarrow> bool \<times> 'w"
  assumes Add: "writes K () (\<lambda>h s r s'. clock s \<le> clock s' \<and> (h \<longrightarrow> r = Inr ()) \<and>
      (r = Inr () \<longrightarrow> 0 < d \<longrightarrow> (\<forall>t \<le> clock s' + d - second. banned s' j t)) \<and>
      (\<forall>i t. i \<noteq> j \<longrightarrow> clock s' \<le> t \<longrightarrow> banned s' i t = banned s i t)) (Add j d)"
    and Check: "writes K () (\<lambda>h s r s'. clock s \<le> clock s' \<and>
      (r \<longrightarrow> banned s j (clock s')) \<and> (h \<longrightarrow> r = banned s j (clock s')) \<and>
      (\<forall>i t. clock s' \<le> t \<longrightarrow> banned s' i t = banned s i t)) (Check j)"

definition listed :: "redis_state \<Rightarrow> string \<Rightarrow> time \<Rightarrow> bool" where
  "listed s jti t \<longleftrightarrow> alive t (rs_keys s (blacklist_key jti)) \<noteq> None"

lemma alive_alive [simp]: "t \<le> t' \<Longrightarrow> alive t' (alive t e) = alive t' e"
  by (auto simp: alive_def split: option.splits prod.splits)

lemma listed_at_time [simp]: "t \<le> t' \<Longrightarrow> listed (at_time t s) i t' = listed s i t'"
  by (simp add: listed_def at_time_def)

lemma rs_now_at_time [simp]: "rs_now (at_time t s) = t"
  by (simp add: at_time_def)

lemma blacklist_key_eq [simp]: "blacklist_key i = blacklist_key j \<longleftrightarrow> i = j"
  by (simp add: blacklist_key_def)

lemma listed_set [simp]:
  "listed (rd_set (blacklist_key j) x d s) i t \<longleftrightarrow> (if i = j then t < rs_now s + d else listed s i t)"
  by (simp add: listed_def rd_set_def alive_def)

lemma rs_now_set [simp]: "rs_now (rd_set k x d s) = rs_now s"
  by (simp add: rd_set_def)

locale redis_blacklist = redis_contract K D ttl
  for K :: "(unit, 'w, redis_state, 'q) window" and D :: "'w redis" and ttl +
  fixes b :: "'w Blacklist option"
  assumes bl_rdb: "Option.bind b bl_rdb = Some D"
begin

lemma Add_writes: "writes K () (\<lambda>h s r s'. rs_now s \<le> rs_now s' \<and> (h \<longrightarrow> r = Inr ()) \<and>
    (r = Inr () \<longrightarrow> 0 < d \<longrightarrow> (\<forall>t \<le> rs_now s' + d - second. listed s' j t)) \<and>
    (\<forall>i t. i \<noteq> j \<longrightarrow> rs_now s' \<le> t \<longrightarrow> listed s' i t = listed s i t)) (blacklist_Add b j d)"
proof (cases "d \<le> 0")
  case True
  with bl_rdb show ?thesis by (simp add: blacklist_Add_def writes_def okE_def)
next
  case False
  then have d: "0 < d" by simp
  show ?thesis using False bl_rdb unfolding blacklist_Add_def option.case bl_rdb if_False
  proof (simp only: if_False, rule_tac writes_weaken [OF SetEx [OF d]])
    fix h s and r :: "error + unit" and s'
    assume "served (\<lambda>_. True) (\<lambda>s _ s'. s' = rd_set (blacklist_key j) (RStr ''1'') (ttl d) s) h s r s'"
    then obtain t where t: "rs_now s \<le> t" "h \<longrightarrow> r = Inr ()"
      "s' = at_time t s \<or> s' = rd_set (blacklist_key j) (RStr ''1'') (ttl d) (at_time t s)"
      "r = Inr () \<Longrightarrow> s' = rd_set (blacklist_key j) (RStr ''1'') (ttl d) (at_time t s)"
      by (cases r) (auto simp: served_def)
    then show "rs_now s \<le> rs_now s' \<and> (h \<longrightarrow> r = Inr ()) \<and>
      (r = Inr () \<longrightarrow> 0 < d \<longrightarrow> (\<forall>t \<le> rs_now s' + d - second. listed s' j t)) \<and>
      (\<forall>i t. i \<noteq> j \<longrightarrow> rs_now s' \<le> t \<longrightarrow> listed s' i t = listed s i t)"
      using ttl_bound [of d] by (cases r) auto
  qed
qed

lemma Check_writes: "writes K () (\<lambda>h s r s'. rs_now s \<le> rs_now s' \<and>
    (r \<longrightarrow> listed s j (rs_now s')) \<and> (h \<longrightarrow> r = listed s j (rs_now s')) \<and>
    (\<forall>i t. rs_now s' \<le> t \<longrightarrow> listed s' i t = listed s i t)) (IsBlacklisted b j)"
proof (rule writesI)
  fix w r w' assume run: "IsBlacklisted b j w = (r, w')"
  obtain r1 w1 where e: "rd_Exists D (blacklist_key j) w = (r1, w1)" by force
  with run bl_rdb have r: "w' = w1" "r = (case r1 of Inl e \<Rightarrow> False | Inr n \<Rightarrow> n > 0)"
    by (auto simp: IsBlacklisted_def bindS_def split: sum.splits)
  from writesD [OF Exists e] obtain t where "touched K () w w1" "rs_now (seen K () w) \<le> t"
    "seen K () w1 = at_time t (seen K () w)" "up K w \<longrightarrow> (\<exists>n. r1 = Inr n)"
    "\<And>n. r1 = Inr n \<Longrightarrow> n = (if rs_keys (at_time t (seen K () w)) (blacklist_key j) = None then 0 else 1)"
    unfolding served_def by (cases r1) auto
  with r show "touched K () w w' \<and> rs_now (seen K () w) \<le> rs_now (seen K () w') \<and>
    (r \<longrightarrow> listed (seen K () w) j (rs_now (seen K () w'))) \<and>
    (up K w \<longrightarrow> r = listed (seen K () w) j (rs_now (seen K () w'))) \<and>
    (\<forall>i t. rs_now (seen K () w') \<le> t \<longrightarrow> listed (seen K () w') i t = listed (seen K () w) i t)"
    by (cases r1) (auto simp: listed_def at_time_def split: if_splits)
qed

end

sublocale redis_blacklist \<subseteq> blacklist:
  token_blacklist K listed rs_now "blacklist_Add b" "IsBlacklisted b"
  by (unfold_locales) (rule Add_writes, rule Check_writes)

interpretation ref_blacklist:
  redis_blacklist ref_redis_window ref_redis "\<lambda>d. d" "Some \<lparr>bl_rdb = Some ref_redis\<rparr>"
  by unfold_locales simp

interpretation ref_cache:
  redis_cache ref_redis_window ref_redis "\<lambda>d. d" ref_lib "Some \<lparr>pc_rdb = Some ref_redis\<rparr>"
  by unfold_locales (simp_all add: inj_ref_String)

end
