(* ===== verification/RbacService.thy ===== *)
theory RbacService
  imports Domain Cache
begin

text \<open>
  \<open>internal/rbac/service.go\<close>: roles, permissions, assignments, and the check that gates
  every protected route. The service is verified against the contracts of the domain
  interfaces and of the permission cache; nothing here depends on Postgres or Redis.
\<close>

section \<open>The service\<close>

record 'w RbacService =
  rb_users :: "'w UserRepository"
  rb_roles :: "'w RoleRepository"
  rb_perms :: "'w PermissionRepository"
  rb_outbox :: "'w OutboxRepository"
  rb_txRunner :: "'w TxRunner"
  rb_cache :: "'w PermissionCache option"

definition rbac_NewService ::
  "'w UserRepository \<Rightarrow> 'w RoleRepository \<Rightarrow> 'w PermissionRepository \<Rightarrow> 'w OutboxRepository \<Rightarrow>
   'w TxRunner \<Rightarrow> 'w PermissionCache option \<Rightarrow> 'w RbacService" where
  "rbac_NewService users roles perms outbox txRunner permCache = \<lparr>rb_users = users, rb_roles = roles,
     rb_perms = perms, rb_outbox = outbox, rb_txRunner = txRunner, rb_cache = permCache\<rparr>"

definition CreateRole :: "'w RbacService \<Rightarrow> ctx \<Rightarrow> string \<Rightarrow> string \<Rightarrow> ('w, error, Role) cmd" where
  "CreateRole S c name description =
     roles_Create (rb_roles S) c
       \<lparr>r_ID = 0, r_Name = name, r_Description = description, r_CreatedAt = 0\<rparr>"

definition ListRoles :: "'w RbacService \<Rightarrow> ctx \<Rightarrow> ('w, error, Role list) cmd" where
  "ListRoles S c = roles_List (rb_roles S) c"

definition DeleteRole :: "'w RbacService \<Rightarrow> ctx \<Rightarrow> uuid \<Rightarrow> ('w, error, unit) cmd" where
  "DeleteRole S c i = roles_Delete (rb_roles S) c i"

definition CreatePermission ::
  "'w RbacService \<Rightarrow> ctx \<Rightarrow> string \<Rightarrow> string \<Rightarrow> string \<Rightarrow> string \<Rightarrow> ('w, error, Permission) cmd" where
  "CreatePermission S c name resource action description =
     perms_Create (rb_perms S) c \<lparr>p_ID = 0, p_Name = name, p_Resource = resource,
       p_Action = action, p_Description = description, p_CreatedAt = 0\<rparr>"

definition ListPermissions :: "'w RbacService \<Rightarrow> ctx \<Rightarrow> ('w, error, Permission list) cmd" where
  "ListPermissions S c = perms_List (rb_perms S) c"

definition DeletePermission :: "'w RbacService \<Rightarrow> ctx \<Rightarrow> uuid \<Rightarrow> ('w, error, unit) cmd" where
  "DeletePermission S c i = perms_Delete (rb_perms S) c i"

subsection \<open>Assignments\<close>

text \<open>\<open>if s.cache != nil { _ = s.cache.Invalidate(ctx, userID) }\<close>\<close>

definition invalidate :: "lib \<Rightarrow> 'w RbacService \<Rightarrow> uuid \<Rightarrow> ('w, error, unit) cmd" where
  "invalidate L S u = (case rb_cache S of
     None \<Rightarrow> okE ()
   | Some _ \<Rightarrow> bindS (cache_Invalidate L (rb_cache S) u) (\<lambda>_. okE ()))"

fun invalidate_all :: "lib \<Rightarrow> 'w RbacService \<Rightarrow> uuid list \<Rightarrow> ('w, error, unit) cmd" where
  "invalidate_all L S [] = okE ()"
| "invalidate_all L S (u # us) =
     bindS (cache_Invalidate L (rb_cache S) u) (\<lambda>_. invalidate_all L S us)"

definition role_assigned :: "lib \<Rightarrow> uuid \<Rightarrow> uuid \<Rightarrow> uuid \<Rightarrow> json" where
  "role_assigned L userID roleID assignedBy = JObj
     [(''user_id'', JStr (uuid_String L userID)), (''role_id'', JStr (uuid_String L roleID)),
      (''assigned_by'', JStr (uuid_String L assignedBy))]"

definition role_revoked :: "lib \<Rightarrow> uuid \<Rightarrow> uuid \<Rightarrow> json" where
  "role_revoked L userID roleID = JObj
     [(''user_id'', JStr (uuid_String L userID)), (''role_id'', JStr (uuid_String L roleID))]"

definition permission_attached :: "lib \<Rightarrow> uuid \<Rightarrow> uuid \<Rightarrow> json" where
  "permission_attached L roleID permissionID = JObj
     [(''role_id'', JStr (uuid_String L roleID)),
      (''permission_id'', JStr (uuid_String L permissionID))]"

definition AssignRoleToUser ::
  "lib \<Rightarrow> 'w runtime \<Rightarrow> 'w RbacService \<Rightarrow> ctx \<Rightarrow> uuid \<Rightarrow> uuid \<Rightarrow> uuid \<Rightarrow> ('w, error, unit) cmd" where
  "AssignRoleToUser L RT S c userID roleID assignedBy =
     bindE (RunInTx (rb_txRunner S) c (\<lambda>c.
       bindE (users_AssignRole (rb_users S) c userID roleID assignedBy) (\<lambda>_.
       outbox_Create (rb_outbox S) c ''role.assigned'' (role_assigned L userID roleID assignedBy))))
     (\<lambda>_. doS (rt_Inc RT RoleAssignmentsTotal) (invalidate L S userID))"

definition RemoveRoleFromUser ::
  "lib \<Rightarrow> 'w RbacService \<Rightarrow> ctx \<Rightarrow> uuid \<Rightarrow> uuid \<Rightarrow> ('w, error, unit) cmd" where
  "RemoveRoleFromUser L S c userID roleID =
     bindE (RunInTx (rb_txRunner S) c (\<lambda>c.
       bindE (users_RemoveRole (rb_users S) c userID roleID) (\<lambda>_.
       outbox_Create (rb_outbox S) c ''role.revoked'' (role_revoked L userID roleID))))
     (\<lambda>_. invalidate L S userID)"

definition AttachPermissionToRole ::
  "lib \<Rightarrow> 'w RbacService \<Rightarrow> ctx \<Rightarrow> uuid \<Rightarrow> uuid \<Rightarrow> ('w, error, unit) cmd" where
  "AttachPermissionToRole L S c roleID permissionID =
     bindE (RunInTx (rb_txRunner S) c (\<lambda>c.
       bindE (roles_AttachPermission (rb_roles S) c roleID permissionID) (\<lambda>_.
       outbox_Create (rb_outbox S) c ''permission.attached'' (permission_attached L roleID permissionID))))
     (\<lambda>_. case rb_cache S of
        None \<Rightarrow> okE ()
      | Some _ \<Rightarrow> bindS (roles_GetUserIDsForRole (rb_roles S) c roleID) (\<lambda>r.
          case r of Inl _ \<Rightarrow> okE () | Inr userIDs \<Rightarrow> invalidate_all L S userIDs))"

subsection \<open>The check\<close>

definition resultLabel :: "bool \<Rightarrow> string" where
  "resultLabel allowed = (if allowed then ''allowed'' else ''denied'')"

text \<open>The loop over the permissions: the names, and whether the one asked for is among them.\<close>

fun scan_perms :: "string \<Rightarrow> Permission list \<Rightarrow> string list \<times> bool \<Rightarrow> string list \<times> bool" where
  "scan_perms name [] acc = acc"
| "scan_perms name (p # ps) (names, allowed) =
     scan_perms name ps (names @ [p_Name p], if p_Name p = name then True else allowed)"

definition Authorize ::
  "lib \<Rightarrow> 'w runtime \<Rightarrow> 'w RbacService \<Rightarrow> ctx \<Rightarrow> uuid \<Rightarrow> string \<Rightarrow> ('w, error, bool) cmd" where
  "Authorize L RT S c userID permissionName =
     bindS (case rb_cache S of None \<Rightarrow> Pair None | Some _ \<Rightarrow> cache_Get L (rb_cache S) userID) (\<lambda>got.
     case got of
       Some hit \<Rightarrow>
         (let allowed = go_index hit permissionName in
          doS (rt_Inc RT RedisCacheHitTotal)
          (doS (rt_Inc RT (PermissionChecksTotal ''hit'' (resultLabel allowed)))
          (okE allowed)))
     | None \<Rightarrow>
         doS (rt_Inc RT RedisCacheMissTotal)
         (bindE (users_GetPermissions (rb_users S) c userID) (\<lambda>perms.
          let (names, allowed) = scan_perms permissionName perms ([], False) in
          bindS (case rb_cache S of None \<Rightarrow> Pair () | Some _ \<Rightarrow> cache_Set L (rb_cache S) userID names) (\<lambda>_.
          doS (rt_Inc RT (PermissionChecksTotal ''miss'' (resultLabel allowed)))
          (okE allowed)))))"

lemma scan_perms_eq:
  "scan_perms name ps (ns, b) = (ns @ map p_Name ps, b \<or> name \<in> p_Name ` set ps)"
  by (induction ps arbitrary: ns b) auto

section \<open>What the service promises\<close>

text \<open>
  \<open>recorded f ty j s s'\<close>: the store went from \<open>s\<close> to \<open>f s\<close> and one pending event was
  appended to the outbox. The business change and its event come together or not at all.
\<close>

definition recorded ::
  "(json \<Rightarrow> string \<Rightarrow> bool) \<Rightarrow> (store \<Rightarrow> store) \<Rightarrow> string \<Rightarrow> json \<Rightarrow> store \<Rightarrow> store \<Rightarrow> bool" where
  "recorded encodes f ty j s s' \<longleftrightarrow>
     (\<exists>b. encodes j b \<and> s' = (f s)\<lparr>st_events := st_events s @ [(ty, b, ''pending'')]\<rparr>)"

text \<open>
  \<open>committed\<close>: what a write reports and what it does. \<open>P\<close> is what the constraints demand of
  the store; a write that reports success has happened, with its event; one that reports
  an error has happened in full or not at all, and while the database is up it fails only
  for a reason.
\<close>

definition committed ::
  "bool \<Rightarrow> bool \<Rightarrow> (json \<Rightarrow> string \<Rightarrow> bool) \<Rightarrow> (store \<Rightarrow> bool) \<Rightarrow> (store \<Rightarrow> store) \<Rightarrow>
   string \<Rightarrow> json \<Rightarrow> store \<Rightarrow> error + unit \<Rightarrow> store \<Rightarrow> bool" where
  "committed h writable encodes P f ty j s r s' \<longleftrightarrow> (case r of
     Inr _ \<Rightarrow> P s \<and> recorded encodes f ty j s s'
   | Inl e \<Rightarrow> \<not> (h \<and> P s \<and> writable \<and> length (st_events s) < 2 ^ 64) \<and>
       (s' = s \<or> P s \<and> recorded encodes f ty j s s'))"

definition assign :: "uuid \<Rightarrow> uuid \<Rightarrow> store \<Rightarrow> store" where
  "assign u r s = s\<lparr>st_assign := insert (u, r) (st_assign s)\<rparr>"

definition unassign :: "uuid \<Rightarrow> uuid \<Rightarrow> store \<Rightarrow> store" where
  "unassign u r s = s\<lparr>st_assign := st_assign s - {(u, r)}\<rparr>"

definition grant :: "uuid \<Rightarrow> uuid \<Rightarrow> store \<Rightarrow> store" where
  "grant r p s = s\<lparr>st_grant := insert (r, p) (st_grant s)\<rparr>"

text \<open>Which assignments and grants the foreign keys allow.\<close>

definition assignable :: "uuid \<Rightarrow> uuid \<Rightarrow> uuid \<Rightarrow> store \<Rightarrow> bool" where
  "assignable u r a s \<longleftrightarrow>
     (u, r) \<in> st_assign s \<or> {u, a} \<subseteq> u_ID ` st_users s \<and> r \<in> r_ID ` st_roles s"

definition grantable :: "uuid \<Rightarrow> uuid \<Rightarrow> store \<Rightarrow> bool" where
  "grantable r p s \<longleftrightarrow>
     (r, p) \<in> st_grant s \<or> r \<in> r_ID ` st_roles s \<and> p \<in> p_ID ` st_perms s"

lemma recorded_perm_names:
  "recorded enc f ty j s s' \<Longrightarrow> perm_names s' v = perm_names (f s) v"
  by (auto simp: recorded_def)

lemma perm_names_other [simp]:
  "u \<noteq> v \<Longrightarrow> perm_names (assign u r s) v = perm_names s v"
  "u \<noteq> v \<Longrightarrow> perm_names (unassign u r s) v = perm_names s v"
  "(v, r) \<notin> st_assign s \<Longrightarrow> perm_names (grant r p s) v = perm_names s v"
  by (simp_all add: assign_def unassign_def grant_def perm_names_assign_other
      perm_names_revoke_other perm_names_grant_other)

lemma step_sel [simp]:
  "st_events (assign u r s) = st_events s" "st_events (unassign u r s) = st_events s"
  "st_events (grant r p s) = st_events s"
  by (simp_all add: assign_def unassign_def grant_def)

locale rbac_service =
  users: user_repository W st "rb_users S" storable +
  roles: role_repository W st "rb_roles S" +
  perms: permission_repository W st "rb_perms S" +
  outbox: outbox_repository W st "rb_outbox S" encodes encodable +
  tx: tx_runner W "rb_txRunner S" +
  cache: permission_cache K cached "cache_Get L (rb_cache S)" "cache_Set L (rb_cache S)"
    "cache_Invalidate L (rb_cache S)" +
  db: quiet_runtime W RT +
  rd: quiet_runtime K RT
  for W :: "(ctx, 'w, 's, 'o) window" and st :: "'s \<Rightarrow> store" and S :: "'w RbacService"
    and storable and encodes and encodable and K :: "(unit, 'w, 'k, 'q) window" and cached
    and L :: lib and RT :: "'w runtime" +
  assumes apart: "apart W K"
    and no_cache: "rb_cache S = None \<Longrightarrow> cached k u = None"
begin

abbreviation data :: "'w \<Rightarrow> store" where
  "data w \<equiv> st (seen W Background w)"

abbreviation cache :: "'w \<Rightarrow> uuid \<Rightarrow> string set option" where
  "cache w \<equiv> cached (seen K () w)"

text \<open>A change and its event, in one transaction.\<close>

lemma event_tx:
  assumes run: "RunInTx (rb_txRunner S) c (\<lambda>c. bindE (m c) (\<lambda>_. outbox_Create (rb_outbox S) c ty j)) w
      = (r, w')"
    and m: "writes W InTx (\<lambda>h s. changed h (P (st s)) (\<lambda>_ s'. st s' = f (st s) \<and> P (st s)) s) (m InTx)"
    and keep: "\<And>s. st_events (f s) = st_events s"
  shows "rest W w' = rest W w \<and> (up W w \<longrightarrow> up W w') \<and>
    (case r of
       Inr _ \<Rightarrow> P (data w) \<and> recorded encodes f ty j (data w) (data w')
     | Inl e \<Rightarrow> \<not> (up W w \<and> P (data w) \<and> encodable ty j \<and> length (st_events (data w)) < 2 ^ 64) \<and>
         (data w' = data w \<or> P (data w) \<and> recorded encodes f ty j (data w) (data w')))"
proof -
  let ?P = "\<lambda>s. P (st s) \<and> encodable ty j \<and> length (st_events (st s)) < 2 ^ 64"
  let ?Q = "\<lambda>s s'. P (st s) \<and> recorded encodes f ty j (st s) (st s')"
  have "writes W InTx (\<lambda>h s. achieved h (?P s) (\<lambda>_ s'. st s' = f (st s) \<and> P (st s))) (m InTx)"
    by (rule writes_weaken [OF m]) (auto simp: changed_def achieved_def split: sum.splits)
  moreover have "writes W InTx (\<lambda>h s. achieved h (encodable ty j \<and> length (st_events (st s)) < 2 ^ 64)
      (\<lambda>_ s'. \<exists>b. encodes j b \<and> st s' = (st s)\<lparr>st_events := st_events (st s) @ [(ty, b, ''pending'')]\<rparr>))
      (outbox_Create (rb_outbox S) InTx ty j)"
    by (rule writes_weaken [OF outbox.OutboxCreate]) (rule changed_achieved)
  ultimately have "writes W InTx (\<lambda>h s. achieved h (?P s) (\<lambda>_ s'. \<exists>s1.
        (st s1 = f (st s) \<and> P (st s)) \<and>
        (\<exists>b. encodes j b \<and> st s' = (st s1)\<lparr>st_events := st_events (st s1) @ [(ty, b, ''pending'')]\<rparr>)))
      (bindE (m InTx) (\<lambda>_. outbox_Create (rb_outbox S) InTx ty j))"
    by (rule writes_seq) (simp add: keep)
  then have body: "writes W InTx (\<lambda>h s. achieved h (?P s) (\<lambda>_ s'. ?Q s s'))
      (bindE (m InTx) (\<lambda>_. outbox_Create (rb_outbox S) InTx ty j))"
    by (rule writes_weaken)
      (auto simp: achieved_def recorded_def keep split: sum.splits)
  have ne: "Background \<noteq> InTx" by simp
  from transacted_atomic [OF tx.Tx [OF run] ne body] show ?thesis
    by (cases r) auto
qed

text \<open>The transactions of the three changes.\<close>

abbreviation assign_tx :: "ctx \<Rightarrow> uuid \<Rightarrow> uuid \<Rightarrow> uuid \<Rightarrow> ('w, error, unit) cmd" where
  "assign_tx c u i a \<equiv> RunInTx (rb_txRunner S) c (\<lambda>c. bindE (users_AssignRole (rb_users S) c u i a) (\<lambda>_.
     outbox_Create (rb_outbox S) c ''role.assigned'' (role_assigned L u i a)))"

abbreviation unassign_tx :: "ctx \<Rightarrow> uuid \<Rightarrow> uuid \<Rightarrow> ('w, error, unit) cmd" where
  "unassign_tx c u i \<equiv> RunInTx (rb_txRunner S) c (\<lambda>c. bindE (users_RemoveRole (rb_users S) c u i) (\<lambda>_.
     outbox_Create (rb_outbox S) c ''role.revoked'' (role_revoked L u i)))"

abbreviation grant_tx :: "ctx \<Rightarrow> uuid \<Rightarrow> uuid \<Rightarrow> ('w, error, unit) cmd" where
  "grant_tx c i j \<equiv> RunInTx (rb_txRunner S) c (\<lambda>c. bindE (roles_AttachPermission (rb_roles S) c i j) (\<lambda>_.
     outbox_Create (rb_outbox S) c ''permission.attached'' (permission_attached L i j)))"

lemma assign_writes: "writes W InTx (\<lambda>h s. changed h (assignable u i a (st s))
    (\<lambda>_ s'. st s' = assign u i (st s) \<and> assignable u i a (st s)) s) (users_AssignRole (rb_users S) InTx u i a)"
  unfolding assignable_def assign_def by (rule users.AssignRole)

lemma unassign_writes: "writes W InTx (\<lambda>h s. changed h True (\<lambda>_ s'. st s' = unassign u i (st s) \<and> True) s)
    (users_RemoveRole (rb_users S) InTx u i)"
  unfolding unassign_def simp_thms by (rule users.RemoveRole)

lemma grant_writes: "writes W InTx (\<lambda>h s. changed h (grantable i j (st s))
    (\<lambda>_ s'. st s' = grant i j (st s) \<and> grantable i j (st s)) s) (roles_AttachPermission (rb_roles S) InTx i j)"
  unfolding grantable_def grant_def by (rule roles.AttachPermission)

lemmas assign_event = event_tx [where m = "\<lambda>c. users_AssignRole (rb_users S) c u i a" and
  P = "assignable u i a" and f = "assign u i" for u i a, OF _ assign_writes step_sel(1)]
lemmas unassign_event = event_tx [where m = "\<lambda>c. users_RemoveRole (rb_users S) c u i" and
  P = "\<lambda>_. True" and f = "unassign u i" for u i, OF _ unassign_writes step_sel(2)]
lemmas grant_event = event_tx [where m = "\<lambda>c. roles_AttachPermission (rb_roles S) c i j" and
  P = "grantable i j" and f = "grant i j" for i j, OF _ grant_writes step_sel(3)]

text \<open>What an invalidation does to the two views.\<close>

lemma invalidate_run:
  assumes "invalidate L S u w = (r, w')"
  shows "r = Inr ()" and "data w' = data w" and "up W w \<longrightarrow> up W w'"
    and "cache w' \<subseteq>\<^sub>m cache w" and "up K w \<longrightarrow> cache w' u = None"
    and "up K w \<longrightarrow> up K w'"
proof -
  have "r = Inr () \<and> data w' = data w \<and> (up W w \<longrightarrow> up W w') \<and>
      cache w' \<subseteq>\<^sub>m cache w \<and> (up K w \<longrightarrow> cache w' u = None) \<and>
      (up K w \<longrightarrow> up K w')"
  proof (cases "rb_cache S")
    case None
    with assms no_cache show ?thesis by (simp add: invalidate_def okE_def)
  next
    case (Some C)
    then obtain r1 where "cache_Invalidate L (rb_cache S) u w = (r1, w')" and "r = Inr ()"
      using assms by (auto simp: invalidate_def bindS_eq okE_def)
    from writesD [OF cache.Invalidate this(1)] \<open>r = Inr ()\<close> show ?thesis
      using apartD(3,4) [OF apart] by (auto simp: touched_up)
  qed
  then show "r = Inr ()" "data w' = data w" "up W w \<longrightarrow> up W w'"
    "cache w' \<subseteq>\<^sub>m cache w" "up K w \<longrightarrow> cache w' u = None"
    "up K w \<longrightarrow> up K w'" by auto
qed

lemma invalidate_all_run:
  assumes "invalidate_all L S us w = (r, w')"
  shows "r = Inr () \<and> data w' = data w \<and> (up W w \<longrightarrow> up W w') \<and>
    cache w' \<subseteq>\<^sub>m cache w \<and>
    (up K w \<longrightarrow> (\<forall>u\<in>set us. cache w' u = None))"
  using assms
proof (induction us arbitrary: w)
  case Nil
  then show ?case by (simp add: okE_def)
next
  case (Cons u us)
  then obtain r1 w1 where i: "cache_Invalidate L (rb_cache S) u w = (r1, w1)"
    and tl: "invalidate_all L S us w1 = (r, w')" by (auto simp: bindS_eq)
  from writesD [OF cache.Invalidate i] have t: "touched K () w w1"
    and c: "cache w1 \<subseteq>\<^sub>m cache w" "up K w \<Longrightarrow> cache w1 u = None"
    by auto
  note up = apartD(3,4) [OF apart t] touched_up [OF t]
  from Cons.IH [OF tl] c up show ?case
    by (auto intro: map_le_trans dest: map_le_None)
qed

text \<open>The writes: what they do to the store, and to what the cache may answer.\<close>

abbreviation outcome ::
  "(store \<Rightarrow> bool) \<Rightarrow> (store \<Rightarrow> store) \<Rightarrow> string \<Rightarrow> json \<Rightarrow> 'w \<Rightarrow> error + unit \<Rightarrow> 'w \<Rightarrow> bool" where
  "outcome P f ty j w r w' \<equiv>
     committed (up W w) (encodable ty j) encodes P f ty j (data w) r (data w')"

lemma AssignRoleToUser_run:
  assumes run: "AssignRoleToUser L RT S c u i a w = (r, w')"
  shows "outcome (assignable u i a) (assign u i) ''role.assigned'' (role_assigned L u i a) w r w'"
    and "cache w' \<subseteq>\<^sub>m cache w"
    and "r = Inr () \<Longrightarrow> up K w \<Longrightarrow> cache w' u = None"
proof -
  obtain r1 w1 where tx: "assign_tx c u i a w = (r1, w1)" by force
  note T = assign_event [OF tx]
  note K = apart_rest [OF apart, OF T [THEN conjunct1]]
  have "outcome (assignable u i a) (assign u i) ''role.assigned'' (role_assigned L u i a) w r w' \<and>
    cache w' \<subseteq>\<^sub>m cache w \<and>
    (r = Inr () \<longrightarrow> up K w \<longrightarrow> cache w' u = None)"
  proof (cases r1)
    case (Inl e)
    with run tx T K show ?thesis by (auto simp: AssignRoleToUser_def bindE_def committed_def)
  next
    case (Inr x)
    with run tx have "invalidate L S u (rt_Inc RT RoleAssignmentsTotal w1) = (r, w')"
      by (simp add: AssignRoleToUser_def bindE_def doS_def)
    note I = invalidate_run [OF this]
    from I(1,2,4,5) T K Inr show ?thesis
      by (auto simp: committed_def db.Inc_seen rd.Inc_seen intro: rd.Inc_up)
  qed
  then show "outcome (assignable u i a) (assign u i) ''role.assigned'' (role_assigned L u i a) w r w'"
    and "cache w' \<subseteq>\<^sub>m cache w"
    and "r = Inr () \<Longrightarrow> up K w \<Longrightarrow> cache w' u = None" by auto
qed

lemma RemoveRoleFromUser_run:
  assumes run: "RemoveRoleFromUser L S c u i w = (r, w')"
  shows "outcome (\<lambda>_. True) (unassign u i) ''role.revoked'' (role_revoked L u i) w r w'"
    and "cache w' \<subseteq>\<^sub>m cache w"
    and "r = Inr () \<Longrightarrow> up K w \<Longrightarrow> cache w' u = None"
proof -
  obtain r1 w1 where tx: "unassign_tx c u i w = (r1, w1)" by force
  note T = unassign_event [OF tx]
  note K = apart_rest [OF apart, OF T [THEN conjunct1]]
  have "outcome (\<lambda>_. True) (unassign u i) ''role.revoked'' (role_revoked L u i) w r w' \<and>
    cache w' \<subseteq>\<^sub>m cache w \<and>
    (r = Inr () \<longrightarrow> up K w \<longrightarrow> cache w' u = None)"
  proof (cases r1)
    case (Inl e)
    with run tx T K show ?thesis by (auto simp: RemoveRoleFromUser_def bindE_def committed_def)
  next
    case (Inr x)
    with run tx have "invalidate L S u w1 = (r, w')"
      by (simp add: RemoveRoleFromUser_def bindE_def)
    note I = invalidate_run [OF this]
    from I(1,2,4,5) T K Inr show ?thesis by (auto simp: committed_def)
  qed
  then show "outcome (\<lambda>_. True) (unassign u i) ''role.revoked'' (role_revoked L u i) w r w'"
    and "cache w' \<subseteq>\<^sub>m cache w"
    and "r = Inr () \<Longrightarrow> up K w \<Longrightarrow> cache w' u = None" by auto
qed

lemma AttachPermissionToRole_run:
  assumes run: "AttachPermissionToRole L S Background i j w = (r, w')"
  shows "outcome (grantable i j) (grant i j) ''permission.attached'' (permission_attached L i j) w r w'"
    and "cache w' \<subseteq>\<^sub>m cache w"
    and "r = Inr () \<Longrightarrow> up W w \<Longrightarrow> up K w \<Longrightarrow> (v, i) \<in> st_assign (data w) \<Longrightarrow> cache w' v = None"
proof -
  obtain r1 w1 where tx: "grant_tx Background i j w = (r1, w1)" by force
  note T = grant_event [OF tx]
  note K = apart_rest [OF apart, OF T [THEN conjunct1]]
  have "outcome (grantable i j) (grant i j) ''permission.attached'' (permission_attached L i j) w r w' \<and>
    cache w' \<subseteq>\<^sub>m cache w \<and>
    (r = Inr () \<longrightarrow> up W w \<longrightarrow> up K w \<longrightarrow> (v, i) \<in> st_assign (data w) \<longrightarrow> cache w' v = None)"
  proof (cases r1)
    case (Inl e)
    with run tx T K show ?thesis by (auto simp: AttachPermissionToRole_def bindE_def committed_def)
  next
    case (Inr x)
    show ?thesis
    proof (cases "rb_cache S")
      case None
      with run tx Inr have "r = Inr ()" "w' = w1"
        by (simp_all add: AttachPermissionToRole_def bindE_def okE_def)
      with T K Inr no_cache [OF None] show ?thesis by (simp add: committed_def)
    next
      case (Some C)
      obtain r2 w2 where g: "roles_GetUserIDsForRole (rb_roles S) Background i w1 = (r2, w2)" by force
      note G = readsD [OF roles.GetUserIDsForRole g]
      note K2 = apart_untouched [OF apart, OF G [THEN conjunct1]]
      from T Inr have rec: "grantable i j (data w)"
        "recorded encodes (grant i j) ''permission.attached'' (permission_attached L i j) (data w) (data w1)"
        by auto
      then have same: "st_assign (data w1) = st_assign (data w)"
        by (auto simp: recorded_def grant_def)
      show ?thesis
      proof (cases r2)
        case (Inl e)
        with run tx Inr Some g have "r = Inr ()" "w' = w2"
          by (simp_all add: AttachPermissionToRole_def bindE_def bindS_def okE_def)
        with Inl T K K2 Inr G rec show ?thesis by (auto simp: committed_def untouched_def)
      next
        case us: (Inr us)
        with run tx Inr Some g have inv: "invalidate_all L S us w2 = (r, w')"
          by (simp add: AttachPermissionToRole_def bindE_def bindS_def)
        note I = invalidate_all_run [OF inv]
        from G us same have "up W w1 \<longrightarrow> set us = {u. (u, i) \<in> st_assign (data w)}" by simp
        with I T K K2 G us rec show ?thesis by (auto simp: committed_def untouched_def)
      qed
    qed
  qed
  then show "outcome (grantable i j) (grant i j) ''permission.attached'' (permission_attached L i j) w r w'"
    and "cache w' \<subseteq>\<^sub>m cache w"
    and "r = Inr () \<Longrightarrow> up W w \<Longrightarrow> up K w \<Longrightarrow> (v, i) \<in> st_assign (data w) \<Longrightarrow> cache w' v = None"
    by auto
qed

text \<open>Coherence of the cache with the store.\<close>

abbreviation fresh_cache :: "'w \<Rightarrow> bool" where
  "fresh_cache w \<equiv> coherent (cache w) (perm_names (data w))"

lemma outcome_ok:
  "outcome P f ty j w (Inr x) w' \<Longrightarrow> perm_names (data w') v = perm_names (f (data w)) v"
  by (auto simp: committed_def recorded_perm_names)

lemma AssignRoleToUser_fresh:
  assumes "AssignRoleToUser L RT S c u i a w = (Inr (), w')" and "up K w" and "fresh_cache w"
  shows "fresh_cache w'"
proof -
  note A = AssignRoleToUser_run [OF assms(1)]
  show ?thesis
    by (rule coherent_after [OF assms(3) A(2), where U = "{u}"])
      (use A(3) assms(2) outcome_ok [OF A(1)] in simp_all)
qed

lemma RemoveRoleFromUser_fresh:
  assumes "RemoveRoleFromUser L S c u i w = (Inr (), w')" and "up K w" and "fresh_cache w"
  shows "fresh_cache w'"
proof -
  note A = RemoveRoleFromUser_run [OF assms(1)]
  show ?thesis
    by (rule coherent_after [OF assms(3) A(2), where U = "{u}"])
      (use A(3) assms(2) outcome_ok [OF A(1)] in simp_all)
qed

lemma AttachPermissionToRole_fresh:
  assumes "AttachPermissionToRole L S Background i j w = (Inr (), w')" and "up W w" and "up K w"
    and "fresh_cache w"
  shows "fresh_cache w'"
proof -
  note A = AttachPermissionToRole_run [OF assms(1)]
  show ?thesis
    by (rule coherent_after [OF assms(4) A(2), where U = "{v. (v, i) \<in> st_assign (data w)}"])
      (use A(3) assms(2,3) outcome_ok [OF A(1)] in simp_all)
qed

text \<open>The check.\<close>

text \<open>
  \<open>Authorize\<close> asks the cache; on a hit that is all. On a miss it asks the database, and puts
  what it is told into the cache.
\<close>

abbreviation lookup :: "uuid \<Rightarrow> 'w \<Rightarrow> (string \<Rightarrow> bool option) option \<times> 'w" where
  "lookup u \<equiv> (case rb_cache S of None \<Rightarrow> Pair None | Some _ \<Rightarrow> cache_Get L (rb_cache S) u)"

abbreviation put_in :: "uuid \<Rightarrow> string list \<Rightarrow> 'w \<Rightarrow> unit \<times> 'w" where
  "put_in u ps \<equiv> (case rb_cache S of None \<Rightarrow> Pair () | Some _ \<Rightarrow> cache_Set L (rb_cache S) u ps)"

lemma lookup_run:
  assumes "lookup u w = (got, w1)"
  shows "touched K () w w1 \<and> cache w1 \<subseteq>\<^sub>m cache w \<and>
    (\<forall>f. got = Some f \<longrightarrow> (\<exists>N. cache w u = Some N \<and> f = (\<lambda>m. if m \<in> N then Some True else None)))"
  using assms writesD [OF cache.Get, of u w got w1] by (cases "rb_cache S") auto

lemma put_in_run:
  assumes "put_in u ps w = (x, w1)"
  shows "touched K () w w1 \<and> (cache w1 \<subseteq>\<^sub>m cache w \<or> cache w1 \<subseteq>\<^sub>m (cache w)(u \<mapsto> set ps))"
  using assms writesD [OF cache.Put, of u ps w x w1] by (cases "rb_cache S") auto

lemma Authorize_path:
  assumes run: "Authorize L RT S Background u p w = (r, w')"
  obtains (hit) f w1 where "lookup u w = (Some f, w1)" "r = Inr (go_index f p)"
      "data w' = data w" "seen K () w' = seen K () w1"
  | (failed) e w1 where "lookup u w = (None, w1)" "r = Inl e" "\<not> up W w"
      "data w' = data w" "seen K () w' = seen K () w1"
  | (miss) ps x w1 w2 w3 where "lookup u w = (None, w1)" "seen K () w2 = seen K () w1"
      "put_in u ps w2 = (x, w3)" "set ps = perm_names (data w) u" "r = Inr (p \<in> set ps)"
      "data w' = data w" "seen K () w' = seen K () w3"
proof -
  obtain got w1 where g: "lookup u w = (got, w1)" by force
  from lookup_run [OF g] have G: "data w1 = data w" "up W w \<longrightarrow> up W w1"
    using apartD(3,4) [OF apart] by auto
  show thesis
  proof (cases got)
    case (Some f)
    with run g have "r = Inr (go_index f p)" and
      w': "w' = rt_Inc RT (PermissionChecksTotal ''hit'' (resultLabel (go_index f p)))
        (rt_Inc RT RedisCacheHitTotal w1)"
      by (auto simp: Authorize_def bindS_def doS_def okE_def Let_def)
    with hit g Some G show thesis by (simp add: db.Inc_seen rd.Inc_seen)
  next
    case None
    let ?w1 = "rt_Inc RT RedisCacheMissTotal w1"
    obtain r2 w2 where q: "users_GetPermissions (rb_users S) Background u ?w1 = (r2, w2)" by force
    note Q = readsD [OF users.GetPermissions q]
    have same: "data w2 = data w" "seen K () w2 = seen K () w1"
      using Q G apart_untouched [OF apart, OF Q [THEN conjunct1]]
      by (simp_all add: untouched_def db.Inc_seen rd.Inc_seen)
    show thesis
    proof (cases r2)
      case (Inl e)
      with run g None q have "r = Inl e" "w' = w2"
        by (simp_all add: Authorize_def bindS_def bindE_def doS_def)
      moreover from Inl Q G have "\<not> up W w" by (auto simp: db.Inc_up)
      ultimately show thesis using failed g None same by simp
    next
      case (Inr ps)
      with Q have names: "p_Name ` set ps = perm_names (data w) u"
        by (simp add: db.Inc_seen G perm_names_def)
      obtain x w3 where put: "put_in u (map p_Name ps) w2 = (x, w3)" by (metis surj_pair)
      from run g None q Inr put have "r = Inr (p \<in> set (map p_Name ps))"
        and "w' = rt_Inc RT (PermissionChecksTotal ''miss'' (resultLabel (p \<in> set (map p_Name ps)))) w3"
        by (auto simp: Authorize_def bindS_def bindE_def doS_def okE_def scan_perms_eq)
      moreover have "data w3 = data w"
        using apartD(3) [OF apart put_in_run [OF put, THEN conjunct1]] same by simp
      ultimately show thesis
        using miss [OF _ same(2) put] g None names by (simp add: db.Inc_seen rd.Inc_seen)
    qed
  qed
qed

lemma Authorize_run:
  assumes run: "Authorize L RT S Background u p w = (r, w')"
  shows "data w' = data w"
    and "cache w' \<subseteq>\<^sub>m cache w \<or>
      cache w' \<subseteq>\<^sub>m (cache w)(u \<mapsto> perm_names (data w) u)"
    and "case r of
        Inl e \<Rightarrow> \<not> up W w
      | Inr b \<Rightarrow> (\<exists>N. cache w u = Some N \<and> b = (p \<in> N)) \<or> b = (p \<in> perm_names (data w) u)"
proof -
  have "data w' = data w \<and>
    (cache w' \<subseteq>\<^sub>m cache w \<or> cache w' \<subseteq>\<^sub>m (cache w)(u \<mapsto> perm_names (data w) u)) \<and>
    (case r of
        Inl e \<Rightarrow> \<not> up W w
      | Inr b \<Rightarrow> (\<exists>N. cache w u = Some N \<and> b = (p \<in> N)) \<or> b = (p \<in> perm_names (data w) u))"
    using run
  proof (cases rule: Authorize_path)
    case (hit f w1)
    with lookup_run [OF hit(1)] show ?thesis by auto
  next
    case (failed e w1)
    with lookup_run [OF failed(1)] show ?thesis by auto
  next
    case (miss ps x w1 w2 w3)
    from lookup_run [OF miss(1)] have c: "cache w1 \<subseteq>\<^sub>m cache w" by blast
    with put_in_run [OF miss(3)] have "cache w3 \<subseteq>\<^sub>m cache w \<or> cache w3 \<subseteq>\<^sub>m (cache w)(u \<mapsto> set ps)"
      unfolding miss(2) by (blast intro: map_le_trans map_le_upd)
    with miss show ?thesis by simp
  qed
  then show "data w' = data w"
    and "cache w' \<subseteq>\<^sub>m cache w \<or>
      cache w' \<subseteq>\<^sub>m (cache w)(u \<mapsto> perm_names (data w) u)"
    and "case r of
        Inl e \<Rightarrow> \<not> up W w
      | Inr b \<Rightarrow> (\<exists>N. cache w u = Some N \<and> b = (p \<in> N)) \<or> b = (p \<in> perm_names (data w) u)"
    by auto
qed

lemma Authorize_correct:
  assumes run: "Authorize L RT S Background u p w = (r, w')" and coh: "fresh_cache w"
  shows "fresh_cache w'" and "data w' = data w"
    and "case r of Inl e \<Rightarrow> \<not> up W w | Inr b \<Rightarrow> b = (p \<in> perm_names (data w) u)"
proof -
  note A = Authorize_run [OF run]
  from A(1) show "data w' = data w" .
  from coh coherent_put [OF coh A(2)] A(1) show "fresh_cache w'" by simp
  from A(3) coh show "case r of Inl e \<Rightarrow> \<not> up W w | Inr b \<Rightarrow> b = (p \<in> perm_names (data w) u)"
    by (auto simp: coherent_def split: sum.splits)
qed

text \<open>Deleting a role or a permission leaves the cache alone.\<close>

lemma DeleteRole_run:
  assumes "DeleteRole S c i w = (r, w')"
  shows "cache w' = cache w" and "c = Background \<Longrightarrow> changed (up W w) True
    (\<lambda>_ s'. s' = drop_role i (data w)) (data w) r (data w')"
proof -
  note D = writesD [OF roles.RoleDelete assms [unfolded DeleteRole_def]]
  from apartD(1) [OF apart, OF D [THEN conjunct1]] show "cache w' = cache w" by simp
  from D show "c = Background \<Longrightarrow> changed (up W w) True
    (\<lambda>_ s'. s' = drop_role i (data w)) (data w) r (data w')"
    by (cases r) auto
qed

lemma DeletePermission_run:
  assumes "DeletePermission S c i w = (r, w')"
  shows "cache w' = cache w" and "c = Background \<Longrightarrow> changed (up W w) True
    (\<lambda>_ s'. s' = drop_perm i (data w)) (data w) r (data w')"
proof -
  note D = writesD [OF perms.PermDelete assms [unfolded DeletePermission_def]]
  from apartD(1) [OF apart, OF D [THEN conjunct1]] show "cache w' = cache w" by simp
  from D show "c = Background \<Longrightarrow> changed (up W w) True
    (\<lambda>_ s'. s' = drop_perm i (data w)) (data w) r (data w')"
    by (cases r) auto
qed

text \<open>
  What the changes do to the state behind the cache: whatever \<open>R\<close> an invalidation keeps to, whether
  it succeeds or fails, they keep to.
\<close>

definition heeds :: "('k \<Rightarrow> 'k \<Rightarrow> bool) \<Rightarrow> bool" where
  "heeds R \<longleftrightarrow> reflp R \<and> transp R \<and> (\<forall>u. writes K () (\<lambda>h s r s'. R s s') (cache_Invalidate L (rb_cache S) u))"

lemma invalidate_heeds:
  assumes "heeds R" and "invalidate L S u w = (r, w')"
  shows "R (seen K () w) (seen K () w')"
  using assms writesD [of K "()" "\<lambda>h s r s'. R s s'" "cache_Invalidate L (rb_cache S) u" w]
  by (auto simp: heeds_def invalidate_def okE_def bindS_eq reflpD split: option.splits)

lemma invalidate_all_heeds:
  assumes "heeds R" and "invalidate_all L S us w = (r, w')"
  shows "R (seen K () w) (seen K () w')"
  using assms(2)
proof (induction us arbitrary: w)
  case Nil
  with assms(1) show ?case by (auto simp: heeds_def okE_def reflpD)
next
  case (Cons u us)
  then obtain r1 w1 where i: "cache_Invalidate L (rb_cache S) u w = (r1, w1)"
    and tl: "invalidate_all L S us w1 = (r, w')" by (auto simp: bindS_eq)
  from assms(1) have "writes K () (\<lambda>h s r s'. R s s') (cache_Invalidate L (rb_cache S) u)"
    by (simp add: heeds_def)
  from writesD [OF this i] have "R (seen K () w) (seen K () w1)" by simp
  with Cons.IH [OF tl] assms(1) show ?case by (auto simp: heeds_def dest: transpD)
qed

lemma changes_heed:
  assumes R: "heeds R"
  shows "AssignRoleToUser L RT S c u i a w = (r, w') \<Longrightarrow> R (seen K () w) (seen K () w')"
    and "RemoveRoleFromUser L S c u i w = (r, w') \<Longrightarrow> R (seen K () w) (seen K () w')"
    and "AttachPermissionToRole L S c i j w = (r, w') \<Longrightarrow> R (seen K () w) (seen K () w')"
proof -
  have refl: "R s s" for s using R by (simp add: heeds_def reflpD)
  show "R (seen K () w) (seen K () w')" if run: "AssignRoleToUser L RT S c u i a w = (r, w')"
  proof -
    obtain r1 w1 where tx: "assign_tx c u i a w = (r1, w1)" by force
    note K = apart_rest(1) [OF apart assign_event [OF tx, THEN conjunct1], of "()"]
    show ?thesis
    proof (cases r1)
      case (Inl e)
      with run tx K refl show ?thesis by (simp add: AssignRoleToUser_def bindE_def)
    next
      case (Inr x)
      with run tx have "invalidate L S u (rt_Inc RT RoleAssignmentsTotal w1) = (r, w')"
        by (simp add: AssignRoleToUser_def bindE_def doS_def)
      from invalidate_heeds [OF R this] K show ?thesis by (simp add: rd.Inc_seen)
    qed
  qed
  show "R (seen K () w) (seen K () w')" if run: "RemoveRoleFromUser L S c u i w = (r, w')"
  proof -
    obtain r1 w1 where tx: "unassign_tx c u i w = (r1, w1)" by force
    note K = apart_rest(1) [OF apart unassign_event [OF tx, THEN conjunct1], of "()"]
    show ?thesis
    proof (cases r1)
      case (Inl e)
      with run tx K refl show ?thesis by (simp add: RemoveRoleFromUser_def bindE_def)
    next
      case (Inr x)
      with run tx have "invalidate L S u w1 = (r, w')" by (simp add: RemoveRoleFromUser_def bindE_def)
      from invalidate_heeds [OF R this] K show ?thesis by simp
    qed
  qed
  show "R (seen K () w) (seen K () w')" if run: "AttachPermissionToRole L S c i j w = (r, w')"
  proof -
    obtain r1 w1 where tx: "grant_tx c i j w = (r1, w1)" by force
    note K = apart_rest(1) [OF apart grant_event [OF tx, THEN conjunct1], of "()"]
    obtain r2 w2 where g: "roles_GetUserIDsForRole (rb_roles S) c i w1 = (r2, w2)" by force
    note K2 = apart_untouched(1) [OF apart readsD [OF roles.GetUserIDsForRole g, THEN conjunct1], of "()"]
    from run tx g have "w' = w1 \<or> w' = w2 \<or> (\<exists>us. invalidate_all L S us w2 = (r, w'))"
      by (auto simp: AttachPermissionToRole_def bindE_def bindS_def okE_def split: sum.splits option.splits)
    with K K2 refl invalidate_all_heeds [OF R, of _ w2 r w'] show ?thesis by auto
  qed
qed

end

end
