(* ===== verification/Jwt.thy ===== *)
theory Jwt
  imports Platform
begin

text \<open>
  \<open>internal/platform/jwt/jwt.go\<close>: access tokens. Signing, parsing and checking a token is
  the golang-jwt library's: the fields of \<open>jwtlib\<close>, with \<open>jwt_contract\<close> for what is
  documented of them. What the code adds is the claims it issues, and the choice of the
  key by the token's signing method.
\<close>

section \<open>Claims and the library\<close>

text \<open>The embedded \<open>jwt.RegisteredClaims\<close> are the fields after \<open>cl_Roles\<close>.\<close>

record Claims =
  cl_UserID :: uuid
  cl_Roles :: "string list"
  cl_Issuer :: string
  cl_Subject :: string
  cl_Audience :: "string list"
  cl_ExpiresAt :: "time option"
  cl_NotBefore :: "time option"
  cl_IssuedAt :: "time option"
  cl_ID :: string

text \<open>The dates of a token that the library looks at: it is \<open>in_force\<close> from \<open>nbf\<close> on until \<open>exp\<close>.\<close>

definition in_force :: "time \<Rightarrow> Claims \<Rightarrow> bool" where
  "in_force now c \<longleftrightarrow>
     (case cl_ExpiresAt c of None \<Rightarrow> True | Some e \<Rightarrow> now < e) \<and>
     (case cl_NotBefore c of None \<Rightarrow> True | Some n \<Rightarrow> n \<le> now)"

lemma in_force_iff: "in_force now c \<longleftrightarrow>
    (\<forall>e. cl_ExpiresAt c = Some e \<longrightarrow> now < e) \<and> (\<forall>n. cl_NotBefore c = Some n \<longrightarrow> n \<le> now)"
  by (simp add: in_force_def split: option.split)

text \<open>\<open>t.Method.(*jwt.SigningMethodHMAC)\<close>: does the type assertion hold?\<close>

datatype jwt_method = SigningMethodHMAC | OtherMethod

text \<open>
  \<open>jwt.NewNumericDate\<close>; \<open>jwt.NewWithClaims(HS256, claims).SignedString(key)\<close>;
  \<open>jwt.ParseWithClaims\<close> at a time, with the key function: the claims and \<open>token.Valid\<close>.
\<close>

record jwtlib =
  jl_NumericDate :: "time \<Rightarrow> time"
  jl_SignedString :: "Claims \<Rightarrow> string \<Rightarrow> string option"
  jl_ParseWithClaims ::
    "time \<Rightarrow> string \<Rightarrow> (jwt_method \<Rightarrow> error + string) \<Rightarrow> error + (Claims \<times> bool)"

section \<open>The manager\<close>

record Manager =
  mgr_secret :: string
  mgr_accessTTL :: duration

definition NewManager :: "string \<Rightarrow> duration \<Rightarrow> Manager" where
  "NewManager secret accessTTL = \<lparr>mgr_secret = secret, mgr_accessTTL = accessTTL\<rparr>"

definition access_claims ::
  "lib \<Rightarrow> jwtlib \<Rightarrow> Manager \<Rightarrow> uuid \<Rightarrow> string list \<Rightarrow> string \<Rightarrow> time \<Rightarrow> Claims" where
  "access_claims L J m userID roles jti now =
     \<lparr>cl_UserID = userID, cl_Roles = roles, cl_Issuer = [], cl_Subject = uuid_String L userID,
      cl_Audience = [], cl_ExpiresAt = Some (jl_NumericDate J (now + mgr_accessTTL m)),
      cl_NotBefore = None, cl_IssuedAt = Some (jl_NumericDate J now), cl_ID = jti\<rparr>"

definition GenerateAccessToken ::
  "lib \<Rightarrow> jwtlib \<Rightarrow> 'w runtime \<Rightarrow> Manager \<Rightarrow> uuid \<Rightarrow> string list \<Rightarrow> ('w, error, string \<times> string) cmd" where
  "GenerateAccessToken L J RT m userID roles =
     bindS (rt_NewString RT) (\<lambda>jti.
     bindS (rt_Now RT) (\<lambda>now.
     case jl_SignedString J (access_claims L J m userID roles jti now) (mgr_secret m) of
       None \<Rightarrow> failE (ErrOther ''sign'')
     | Some tok \<Rightarrow> okE (tok, jti)))"

text \<open>The key function of \<open>Parse\<close>: the secret for an HMAC token, an error for any other.\<close>

definition parse_key :: "Manager \<Rightarrow> jwt_method \<Rightarrow> error + string" where
  "parse_key m meth = (case meth of
     SigningMethodHMAC \<Rightarrow> Inr (mgr_secret m)
   | OtherMethod \<Rightarrow> Inl ErrInvalidToken)"

lemma parse_key_Inr: "parse_key m meth = Inr k \<longleftrightarrow> meth = SigningMethodHMAC \<and> k = mgr_secret m"
  by (cases meth) (auto simp: parse_key_def)

definition Parse :: "jwtlib \<Rightarrow> 'w runtime \<Rightarrow> Manager \<Rightarrow> string \<Rightarrow> ('w, error, Claims) cmd" where
  "Parse J RT m tokenStr =
     bindS (rt_Now RT) (\<lambda>now.
     case jl_ParseWithClaims J now tokenStr (parse_key m) of
       Inl e \<Rightarrow> failE ErrInvalidToken
     | Inr (claims, valid) \<Rightarrow> if \<not> valid then failE ErrInvalidToken else okE claims)"

section \<open>What the library promises\<close>

text \<open>
  \<open>authentic meth k tok c\<close>: \<open>tok\<close> carries the claims \<open>c\<close> and verifies under the key \<open>k\<close> with
  the method \<open>meth\<close>. \<open>plain c\<close>: claims that JSON gives back unchanged. With no options given, as
  here, the library checks of the claims that \<open>exp\<close> has not come and that \<open>nbf\<close> has, where they are
  present; issuer, audience and \<open>iat\<close> it does not look at.
\<close>

locale jwt_contract =
  fixes J :: jwtlib
    and authentic :: "jwt_method \<Rightarrow> string \<Rightarrow> string \<Rightarrow> Claims \<Rightarrow> bool"
    and plain_claims :: "Claims \<Rightarrow> bool"
  assumes Parse_sound: "jl_ParseWithClaims J now tok kf = Inr (c, True) \<Longrightarrow>
      \<exists>meth k. kf meth = Inr k \<and> authentic meth k tok c \<and> in_force now c"
    and Parse_complete: "authentic meth k tok c \<Longrightarrow> kf meth = Inr k \<Longrightarrow>
      in_force now c \<Longrightarrow> jl_ParseWithClaims J now tok kf = Inr (c, True)"
    and Signed: "plain_claims c \<Longrightarrow> \<exists>tok. jl_SignedString J c k = Some tok"
    and Signed_authentic: "plain_claims c \<Longrightarrow> jl_SignedString J c k = Some tok \<Longrightarrow>
      authentic SigningMethodHMAC k tok c"
    and NumericDate: "t - second < jl_NumericDate J t" "jl_NumericDate J t \<le> t"
begin

text \<open>A token is accepted exactly if an HMAC under the secret vouches for it and it is in force.\<close>

lemma Parse_run:
  assumes "Parse J RT m tok w = (r, w')"
  shows "\<exists>now. rt_Now RT w = (now, w') \<and> (case r of
      Inr c \<Rightarrow> authentic SigningMethodHMAC (mgr_secret m) tok c \<and> in_force now c
    | Inl e \<Rightarrow> e = ErrInvalidToken \<and>
        (\<nexists>c. authentic SigningMethodHMAC (mgr_secret m) tok c \<and> in_force now c))"
proof -
  obtain now w1 where n: "rt_Now RT w = (now, w1)" by force
  have accept: "jl_ParseWithClaims J now tok (parse_key m) = Inr (c, True)"
    if "authentic SigningMethodHMAC (mgr_secret m) tok c" "in_force now c" for c
    by (rule Parse_complete [OF that(1) _ that(2)]) (simp add: parse_key_def)
  show ?thesis
  proof (cases "jl_ParseWithClaims J now tok (parse_key m)")
    case (Inl e)
    moreover have "\<nexists>c. authentic SigningMethodHMAC (mgr_secret m) tok c \<and> in_force now c"
      using Inl accept by auto
    ultimately show ?thesis using assms n by (auto simp: Parse_def bindS_def failE_def)
  next
    case (Inr cv)
    obtain c v where cv: "cv = (c, v)" by force
    show ?thesis
    proof (cases v)
      case True
      with Parse_sound [of now tok "parse_key m" c] Inr cv
      have "authentic SigningMethodHMAC (mgr_secret m) tok c \<and> in_force now c"
        by (auto simp: parse_key_Inr)
      then show ?thesis using assms n Inr cv True by (auto simp: Parse_def bindS_def okE_def)
    next
      case False
      have "\<nexists>c. authentic SigningMethodHMAC (mgr_secret m) tok c \<and> in_force now c"
        using Inr cv False accept by auto
      then show ?thesis using assms n Inr cv False by (auto simp: Parse_def bindS_def failE_def)
    qed
  qed
qed

text \<open>A generated token parses back to the user and the roles it was issued for, until it expires.\<close>

lemma Generate_run:
  assumes "GenerateAccessToken L J RT m u roles w = (Inr (tok, jti), w')"
    and "rt_NewString RT w = (jti', w1)" "rt_Now RT w1 = (now, w2)"
    and "plain_claims (access_claims L J m u roles jti' now)"
  shows "jti = jti' \<and> w' = w2 \<and>
    authentic SigningMethodHMAC (mgr_secret m) tok (access_claims L J m u roles jti now)"
  using assms Signed_authentic
  by (auto simp: GenerateAccessToken_def cmd_simps split: option.splits)

lemma Parse_generated:
  assumes gen: "GenerateAccessToken L J RT m u roles w = (Inr (tok, jti), w1)"
    and issued: "rt_NewString RT w = (jti', w0)" "rt_Now RT w0 = (now, w1')"
    and plain: "plain_claims (access_claims L J m u roles jti' now)"
    and later: "rt_Now RT w2 = (check, w3)" "check \<le> now + mgr_accessTTL m - second"
  shows "Parse J RT m tok w2 = (Inr (access_claims L J m u roles jti now), w3)"
proof -
  have "authentic SigningMethodHMAC (mgr_secret m) tok (access_claims L J m u roles jti now)"
    using Generate_run [OF gen issued plain] by blast
  moreover have "check < jl_NumericDate J (now + mgr_accessTTL m)"
    using NumericDate(1) [of "now + mgr_accessTTL m"] later(2) by linarith
  ultimately have "jl_ParseWithClaims J check tok (parse_key m) =
      Inr (access_claims L J m u roles jti now, True)"
    by (intro Parse_complete [where meth = SigningMethodHMAC and k = "mgr_secret m"])
      (auto simp: access_claims_def parse_key_def in_force_def)
  with later(1) show ?thesis by (simp add: Parse_def bindS_def okE_def)
qed

end

section \<open>A reference library\<close>

text \<open>
  The reference token is the key and the claims, in clear; it verifies by comparing the
  keys. Times are of 16 bytes.
\<close>

definition ref_time :: "time option \<Rightarrow> string" where
  "ref_time t = (case t of None \<Rightarrow> [] | Some n \<Rightarrow> CHR ''T'' # ref_bytes n 16)"

definition ref_untime :: "string \<Rightarrow> time option" where
  "ref_untime s = (case s of [] \<Rightarrow> None | _ # b \<Rightarrow> Some (ref_int b))"

definition ref_plain :: "Claims \<Rightarrow> bool" where
  "ref_plain c \<longleftrightarrow>
     (case cl_IssuedAt c of None \<Rightarrow> True | Some t \<Rightarrow> 0 \<le> t \<and> t < 256 ^ 16) \<and>
     (case cl_NotBefore c of None \<Rightarrow> True | Some t \<Rightarrow> 0 \<le> t \<and> t < 256 ^ 16) \<and>
     (case cl_ExpiresAt c of None \<Rightarrow> True | Some t \<Rightarrow> 0 \<le> t \<and> t < 256 ^ 16)"

definition ref_Signed :: "Claims \<Rightarrow> string \<Rightarrow> string option" where
  "ref_Signed c k = (if ref_plain c then Some (enc_strings
     ([k, ref_bytes (uint (cl_UserID c)) 16, cl_ID c, cl_Issuer c, cl_Subject c,
       enc_strings (cl_Audience c), ref_time (cl_IssuedAt c), ref_time (cl_NotBefore c),
       ref_time (cl_ExpiresAt c)] @ cl_Roles c)) else None)"

definition ref_claims :: "string list \<Rightarrow> Claims option" where
  "ref_claims ss = (case ss of
     k # u # i # iss # s # aud # ia # nb # ex # roles \<Rightarrow> Some \<lparr>cl_UserID = word_of_int (ref_int u),
       cl_Roles = roles, cl_Issuer = iss, cl_Subject = s, cl_Audience = dec_strings 0 aud,
       cl_ExpiresAt = ref_untime ex, cl_NotBefore = ref_untime nb, cl_IssuedAt = ref_untime ia, cl_ID = i\<rparr>
   | _ \<Rightarrow> None)"

definition ref_ParseWithClaims ::
  "time \<Rightarrow> string \<Rightarrow> (jwt_method \<Rightarrow> error + string) \<Rightarrow> error + (Claims \<times> bool)" where
  "ref_ParseWithClaims now tok kf = (case ref_claims (dec_strings 0 tok) of
     None \<Rightarrow> Inl (ErrOther ''malformed'')
   | Some c \<Rightarrow> (case kf SigningMethodHMAC of
       Inl e \<Rightarrow> Inl e
     | Inr k \<Rightarrow>
         if ref_Signed c k \<noteq> Some tok then Inl (ErrOther ''signature'')
         else if in_force now c then Inr (c, True) else Inl (ErrOther ''expired'')))"

definition ref_jwt :: jwtlib where
  "ref_jwt = \<lparr>jl_NumericDate = (\<lambda>t. t div second * second),
     jl_SignedString = ref_Signed, jl_ParseWithClaims = ref_ParseWithClaims\<rparr>"

definition ref_authentic :: "jwt_method \<Rightarrow> string \<Rightarrow> string \<Rightarrow> Claims \<Rightarrow> bool" where
  "ref_authentic meth k tok c \<longleftrightarrow> meth = SigningMethodHMAC \<and> ref_Signed c k = Some tok"

lemma ref_untime_time:
  "(case t of None \<Rightarrow> True | Some t \<Rightarrow> 0 \<le> t \<and> t < 256 ^ 16) \<Longrightarrow> ref_untime (ref_time t) = t"
  by (auto simp: ref_untime_def ref_time_def ref_int_bytes split: option.splits)

lemma ref_claims_signed: "ref_Signed c k = Some tok \<Longrightarrow> ref_claims (dec_strings 0 tok) = Some c"
proof -
  have u: "ref_int (ref_bytes (uint u) 16) = uint u" for u :: uuid
    using uint_lt2p [of u] by (intro ref_int_bytes) simp_all
  assume "ref_Signed c k = Some tok"
  then show ?thesis
    by (cases c) (auto simp: ref_Signed_def ref_claims_def ref_plain_def ref_untime_time u
        simp del: enc_strings.simps split: if_splits)
qed

interpretation ref_jwt: jwt_contract ref_jwt ref_authentic ref_plain
proof (unfold_locales, goal_cases)
  case (1 now tok kf c)
  then show ?case
    by (auto simp: ref_jwt_def ref_ParseWithClaims_def ref_authentic_def
        split: option.splits sum.splits if_splits)
next
  case (2 meth k tok c kf now)
  then have s: "ref_Signed c k = Some tok" and k: "kf SigningMethodHMAC = Inr k"
    by (simp_all add: ref_authentic_def)
  from 2(3) show ?case
    by (simp add: ref_jwt_def ref_ParseWithClaims_def ref_claims_signed [OF s] s k)
next
  case (3 c k)
  then show ?case by (simp add: ref_jwt_def ref_Signed_def)
next
  case (4 c k tok)
  then show ?case by (simp add: ref_jwt_def ref_authentic_def)
next
  case (5 t)
  show ?case
    using pos_mod_bound [of second t] by (simp add: ref_jwt_def minus_mod_eq_div_mult [symmetric])
next
  case (6 t)
  show ?case
    using pos_mod_sign [of second t] by (simp add: ref_jwt_def minus_mod_eq_div_mult [symmetric])
qed

end
