(* ===== verification/AuthService.thy ===== *)
theory AuthService
  imports Domain Cache Jwt
begin

text \<open>
  \<open>internal/auth/service.go\<close>: signup, login, refresh and logout, verified against the
  contracts of the repositories, of the blacklist and of the JWT library.
\<close>

section \<open>The service\<close>

record 'w AuthService =
  au_users :: "'w UserRepository"
  au_roles :: "'w RoleRepository"
  au_tokens :: "'w RefreshTokenRepository"
  au_jwtMgr :: Manager
  au_refreshTTL :: duration
  au_blacklist :: "'w Blacklist option"

definition auth_NewService ::
  "'w UserRepository \<Rightarrow> 'w RoleRepository \<Rightarrow> 'w RefreshTokenRepository \<Rightarrow> Manager \<Rightarrow> duration \<Rightarrow>
   'w Blacklist option \<Rightarrow> 'w AuthService" where
  "auth_NewService users roles tokens jwtMgr refreshTTL blacklist = \<lparr>au_users = users, au_roles = roles,
     au_tokens = tokens, au_jwtMgr = jwtMgr, au_refreshTTL = refreshTTL, au_blacklist = blacklist\<rparr>"

record TokenPair =
  tp_AccessToken :: string
  tp_RefreshToken :: string

definition hashToken :: "lib \<Rightarrow> string \<Rightarrow> string" where
  "hashToken L raw = hex_Encode (sha256_Sum L raw)"

definition generateRefreshToken :: "lib \<Rightarrow> 'w runtime \<Rightarrow> 'w \<Rightarrow> (string \<times> string) \<times> 'w" where
  "generateRefreshToken L RT =
     bindS (rt_Rand RT 32) (\<lambda>b. let raw = hex_Encode b in Pair (raw, hashToken L raw))"

definition new_token :: "uuid \<Rightarrow> string \<Rightarrow> time \<Rightarrow> RefreshToken" where
  "new_token userID hash expires = \<lparr>t_ID = 0, t_UserID = userID, t_TokenHash = hash,
     t_ExpiresAt = expires, t_RevokedAt = None, t_CreatedAt = 0\<rparr>"

definition issueTokenPair ::
  "lib \<Rightarrow> jwtlib \<Rightarrow> 'w runtime \<Rightarrow> 'w AuthService \<Rightarrow> ctx \<Rightarrow> User \<Rightarrow> ('w, error, TokenPair) cmd" where
  "issueTokenPair L J RT S c u =
     bindE (users_GetRoles (au_users S) c (u_ID u)) (\<lambda>roles.
     bindE (GenerateAccessToken L J RT (au_jwtMgr S) (u_ID u) (map r_Name roles)) (\<lambda>(access, _).
     bindS (generateRefreshToken L RT) (\<lambda>(rawRefresh, hash).
     bindS (rt_Now RT) (\<lambda>now.
     bindE (tokens_Create (au_tokens S) c (new_token (u_ID u) hash (now + au_refreshTTL S))) (\<lambda>_.
     okE \<lparr>tp_AccessToken = access, tp_RefreshToken = rawRefresh\<rparr>)))))"

definition new_user :: "string \<Rightarrow> string \<Rightarrow> string \<Rightarrow> User" where
  "new_user email hash fullName = \<lparr>u_ID = 0, u_Email = email, u_PasswordHash = hash,
     u_FullName = fullName, u_IsActive = True, u_CreatedAt = 0, u_UpdatedAt = 0\<rparr>"

text \<open>\<open>if defaultRole, rErr := \<dots>; rErr == nil { _ = s.users.AssignRole(\<dots>) }\<close>\<close>

definition assignDefaultRole :: "'w AuthService \<Rightarrow> ctx \<Rightarrow> User \<Rightarrow> ('w, error, User) cmd" where
  "assignDefaultRole S c u =
     bindS (roles_GetByName (au_roles S) c ''developer'') (\<lambda>r.
     case r of
       Inl rErr \<Rightarrow> okE u
     | Inr defaultRole \<Rightarrow>
         bindS (users_AssignRole (au_users S) c (u_ID u) (r_ID defaultRole) (u_ID u)) (\<lambda>_. okE u))"

definition Signup ::
  "'w runtime \<Rightarrow> 'w AuthService \<Rightarrow> ctx \<Rightarrow> string \<Rightarrow> string \<Rightarrow> string \<Rightarrow> ('w, error, User) cmd" where
  "Signup RT S c email password fullName =
     bindS (users_GetByEmail (au_users S) c email) (\<lambda>r.
     case r of
       Inr _ \<Rightarrow> failE ErrAlreadyExists
     | Inl err \<Rightarrow>
         if err \<noteq> ErrNotFound then failE err
         else
           bindE (rt_Bcrypt RT password) (\<lambda>hash.
           bindE (users_Create (au_users S) c (new_user email hash fullName)) (\<lambda>u.
           doS (rt_Inc RT UsersCreatedTotal) (assignDefaultRole S c u))))"

definition Login ::
  "lib \<Rightarrow> jwtlib \<Rightarrow> 'w runtime \<Rightarrow> 'w AuthService \<Rightarrow> ctx \<Rightarrow> string \<Rightarrow> string \<Rightarrow>
   ('w, error, TokenPair) cmd" where
  "Login L J RT S c email password =
     bindS (users_GetByEmail (au_users S) c email) (\<lambda>r.
     case r of
       Inl err \<Rightarrow>
         if err = ErrNotFound
         then doS (rt_Inc RT LoginFailureTotal) (failE ErrInvalidCredentials)
         else failE err
     | Inr u \<Rightarrow>
         if \<not> u_IsActive u
         then doS (rt_Inc RT LoginFailureTotal) (failE ErrInvalidCredentials)
         else if \<not> bcrypt_Compare L (u_PasswordHash u) password
         then doS (rt_Inc RT LoginFailureTotal) (failE ErrInvalidCredentials)
         else doS (rt_Inc RT LoginSuccessTotal) (issueTokenPair L J RT S c u))"

text \<open>\<open>stored.RevokedAt != nil || time.Now().After(stored.ExpiresAt)\<close>: the clock is read only
  if the token is not revoked.\<close>

definition token_spent :: "'w runtime \<Rightarrow> RefreshToken \<Rightarrow> 'w \<Rightarrow> bool \<times> 'w" where
  "token_spent RT t =
     (if t_RevokedAt t \<noteq> None then Pair True
      else bindS (rt_Now RT) (\<lambda>now. Pair (t_ExpiresAt t < now)))"

definition Refresh ::
  "lib \<Rightarrow> jwtlib \<Rightarrow> 'w runtime \<Rightarrow> 'w AuthService \<Rightarrow> ctx \<Rightarrow> string \<Rightarrow> ('w, error, TokenPair) cmd" where
  "Refresh L J RT S c rawRefresh =
     bindS (tokens_GetByHash (au_tokens S) c (hashToken L rawRefresh)) (\<lambda>r.
     case r of
       Inl _ \<Rightarrow> failE ErrInvalidCredentials
     | Inr tok \<Rightarrow>
         bindS (token_spent RT tok) (\<lambda>spent.
         if spent then failE ErrTokenExpired
         else
           bindE (tokens_Revoke (au_tokens S) c (t_ID tok)) (\<lambda>_.
           bindE (users_GetByID (au_users S) c (t_UserID tok)) (\<lambda>u.
           issueTokenPair L J RT S c u))))"

definition Logout ::
  "lib \<Rightarrow> 'w AuthService \<Rightarrow> ctx \<Rightarrow> string \<Rightarrow> string \<Rightarrow> duration \<Rightarrow> ('w, error, unit) cmd" where
  "Logout L S c rawRefresh jti accessTokenRemaining =
     bindS (if au_blacklist S \<noteq> None \<and> jti \<noteq> []
            then blacklist_Add (au_blacklist S) jti accessTokenRemaining else okE ()) (\<lambda>_.
     bindS (tokens_GetByHash (au_tokens S) c (hashToken L rawRefresh)) (\<lambda>r.
     case r of
       Inl _ \<Rightarrow> okE ()
     | Inr tok \<Rightarrow> tokens_Revoke (au_tokens S) c (t_ID tok)))"

section \<open>What the service promises\<close>

text \<open>\<open>token_added\<close>: one token was added, usable for the user, with the hash of \<open>raw\<close>.\<close>

definition token_added :: "lib \<Rightarrow> uuid \<Rightarrow> string \<Rightarrow> store \<Rightarrow> store \<Rightarrow> bool" where
  "token_added L u raw s s' \<longleftrightarrow>
     (\<exists>t. t_UserID t = u \<and> t_TokenHash t = hashToken L raw \<and> t_RevokedAt t = None \<and>
        t_ID t \<notin> t_ID ` st_tokens s \<and>
        s' = s\<lparr>st_tokens := insert t (st_tokens s)\<rparr>)"

definition revoked :: "uuid \<Rightarrow> store \<Rightarrow> store \<Rightarrow> bool" where
  "revoked i s s' \<longleftrightarrow> (\<exists>t. s' = s\<lparr>st_tokens :=
     (\<lambda>x. if t_ID x = i then x\<lparr>t_RevokedAt := Some t\<rparr> else x) ` st_tokens s\<rparr>)"

text \<open>
  \<open>signed_up\<close>: the email was free, the user is there, active and under a new identifier,
  and the only other change is the assignment of the default role, which is made if the
  database is up (\<open>h\<close>) and the role exists.
\<close>

definition default_assignment :: "store \<Rightarrow> uuid \<Rightarrow> (uuid \<times> uuid) set \<Rightarrow> bool" where
  "default_assignment s i A \<longleftrightarrow>
     A = {} \<or> (\<exists>d\<in>st_roles s. r_Name d = ''developer'' \<and> A = {(i, r_ID d)})"

definition signed_up :: "bool \<Rightarrow> string \<Rightarrow> string \<Rightarrow> User \<Rightarrow> store \<Rightarrow> store \<Rightarrow> bool" where
  "signed_up h email fullName u s s' \<longleftrightarrow>
     email \<notin> u_Email ` st_users s \<and> u_ID u \<notin> u_ID ` st_users s \<and>
     u_Email u = email \<and> u_FullName u = fullName \<and> u_IsActive u \<and>
     (\<exists>A. default_assignment s (u_ID u) A \<and>
        s' = s\<lparr>st_users := insert u (st_users s), st_assign := st_assign s \<union> A\<rparr> \<and>
        (h \<longrightarrow> (\<exists>d\<in>st_roles s. r_Name d = ''developer'') \<longrightarrow> A \<noteq> {}))"

text \<open>The hash of a refresh token determines it, as far as SHA-256 does.\<close>

lemma hashToken_inj: "hashToken L a = hashToken L b \<longleftrightarrow> sha256_Sum L a = sha256_Sum L b"
  by (simp add: hashToken_def hex_Encode_inj)

locale auth_service =
  users: user_repository W st "au_users S" storable +
  roles: role_repository W st "au_roles S" +
  tokens: token_repository W st "au_tokens S" storable_token +
  banlist: token_blacklist K banned clock "blacklist_Add (au_blacklist S)" "IsBlacklisted (au_blacklist S)" +
  db: quiet_runtime W RT +
  rd: quiet_runtime K RT
  for W :: "(ctx, 'w, 's, 'o) window" and st :: "'s \<Rightarrow> store" and S :: "'w AuthService"
    and storable storable_token and K :: "(unit, 'w, 'k, 'q) window" and banned clock
    and RT :: "'w runtime" +
  assumes apart: "apart W K"
begin

abbreviation data :: "'w \<Rightarrow> store" where
  "data w \<equiv> st (seen W Background w)"

lemma rand_quiet:
  assumes "generateRefreshToken L RT w = ((raw, hash), w')"
  shows "untouched W w w'" and "hash = hashToken L raw"
  using assms db.Rand_silent
  by (auto simp: generateRefreshToken_def bindS_def Let_def dest!: silentD split: prod.splits)

lemma Generate_quiet: "silent W (GenerateAccessToken L J RT m u roles)"
  unfolding silent_def
proof (intro allI impI)
  fix w a w' assume g: "GenerateAccessToken L J RT m u roles w = (a, w')"
  obtain jti w1 where n: "rt_NewString RT w = (jti, w1)" by force
  obtain now w2 where t: "rt_Now RT w1 = (now, w2)" by force
  from g n t have "w' = w2"
    by (auto simp: GenerateAccessToken_def bindS_def failE_def okE_def split: option.splits)
  with silentD [OF db.NewString_silent n] silentD [OF db.Now_silent t]
  show "untouched W w w'" by (auto dest: untouched_trans)
qed

lemma issueTokenPair_run:
  assumes run: "issueTokenPair L J RT S Background u w = (r, w')"
  shows "touched W Background w w' \<and> (case r of
      Inr p \<Rightarrow> token_added L (u_ID u) (tp_RefreshToken p) (data w) (data w') \<and>
        u_ID u \<in> u_ID ` st_users (data w) \<and>
        (\<exists>names w1 jti w2. set names = r_Name ` {x \<in> st_roles (data w). (u_ID u, r_ID x) \<in> st_assign (data w)} \<and>
           GenerateAccessToken L J RT (au_jwtMgr S) (u_ID u) names w1 = (Inr (tp_AccessToken p, jti), w2))
    | Inl e \<Rightarrow> data w' = data w)"
proof -
  obtain r1 w1 where g: "users_GetRoles (au_users S) Background (u_ID u) w = (r1, w1)" by force
  note G = readsD [OF users.GetRoles g]
  show ?thesis
  proof (cases r1)
    case (Inl e)
    with run g G show ?thesis
      by (auto simp: issueTokenPair_def bindE_def untouched_seen untouched_touched)
  next
    case (Inr rs)
    obtain r2 w2 where a: "GenerateAccessToken L J RT (au_jwtMgr S) (u_ID u) (map r_Name rs) w1 = (r2, w2)"
      by force
    note A = silentD [OF Generate_quiet a]
    show ?thesis
    proof (cases r2)
      case (Inl e)
      with run g Inr a G A show ?thesis
        by (auto simp: issueTokenPair_def bindE_def untouched_seen
            intro: touched_trans [OF untouched_touched untouched_touched])
    next
      case acc: (Inr aj)
      obtain access jti where aj: "aj = (access, jti)" by force
      obtain rh w3 where h: "generateRefreshToken L RT w2 = (rh, w3)"
        by (metis surj_pair)
      obtain raw hash where rh: "rh = (raw, hash)" by force
      obtain now w4 where n: "rt_Now RT w3 = (now, w4)" by force
      let ?t = "new_token (u_ID u) hash (now + au_refreshTTL S)"
      obtain r5 w5 where c: "tokens_Create (au_tokens S) Background ?t w4 = (r5, w5)" by force
      note H = rand_quiet [OF h [unfolded rh]]
      note N = silentD [OF db.Now_silent n]
      have t0: "t_ID ?t = 0" "t_RevokedAt ?t = None" by (simp_all add: new_token_def)
      note C = writesD [OF tokens.TokenCreate [OF t0] c]
      have quiet: "untouched W w w4"
        using G A H(1) N by (blast intro: untouched_trans)
      then have same: "seen W Background w4 = seen W Background w" by (rule untouched_seen)
      have touch: "touched W Background w w5"
        using C touched_trans [OF untouched_touched [OF quiet]] by blast
      show ?thesis
      proof (cases r5)
        case (Inl e)
        with run g Inr a acc aj h rh n c have "r = Inl e" "w' = w5"
          by (simp_all add: issueTokenPair_def bindE_def bindS_def)
        with C Inl same touch show ?thesis by simp
      next
        case tok: (Inr t)
        with run g Inr a acc aj h rh n c have r: "w' = w5"
          "r = Inr \<lparr>tp_AccessToken = access, tp_RefreshToken = raw\<rparr>"
          by (simp_all add: issueTokenPair_def bindE_def bindS_def okE_def)
        have "token_added L (u_ID u) raw (data w) (data w')"
          using C tok same r H(2) unfolding token_added_def
          by (intro exI [of _ t]) (auto simp: new_token_def)
        moreover have "\<exists>names w1 jti w2. set names =
            r_Name ` {x \<in> st_roles (data w). (u_ID u, r_ID x) \<in> st_assign (data w)} \<and>
            GenerateAccessToken L J RT (au_jwtMgr S) (u_ID u) names w1 = (Inr (access, jti), w2)"
          using G Inr a acc aj by (intro exI [of _ "map r_Name rs"] exI conjI) (simp, blast)
        moreover have "u_ID u \<in> u_ID ` st_users (data w)"
          using C tok same by (simp add: new_token_def)
        ultimately show ?thesis using r touch by simp
      qed
    qed
  qed
qed

text \<open>While the database is up, a pair is issued to every user there is, if it can be signed and stored.\<close>

lemma issueTokenPair_accepts:
  assumes up: "up W w" and u: "u_ID u \<in> u_ID ` st_users (data w)"
    and sign: "\<And>roles v. \<exists>a v'. GenerateAccessToken L J RT (au_jwtMgr S) (u_ID u) roles v = (Inr a, v')"
    and store: "\<And>h e. storable_token (new_token (u_ID u) h e)"
    and room: "\<exists>i. i \<noteq> 0 \<and> i \<notin> t_ID ` st_tokens (data w)"
  shows "\<exists>p w'. issueTokenPair L J RT S Background u w = (Inr p, w')"
proof -
  obtain r1 w1 where g: "users_GetRoles (au_users S) Background (u_ID u) w = (r1, w1)" by force
  note G = readsD [OF users.GetRoles g]
  from G up obtain rs where r1: "r1 = Inr rs" by (cases r1) auto
  obtain access jti w2 where a: "GenerateAccessToken L J RT (au_jwtMgr S) (u_ID u) (map r_Name rs) w1 =
      (Inr (access, jti), w2)"
    using sign [of "map r_Name rs" w1] by fastforce
  obtain raw hash w3 where h: "generateRefreshToken L RT w2 = ((raw, hash), w3)" by (metis surj_pair)
  obtain now w4 where n: "rt_Now RT w3 = (now, w4)" by force
  let ?t = "new_token (u_ID u) hash (now + au_refreshTTL S)"
  obtain r5 w5 where c: "tokens_Create (au_tokens S) Background ?t w4 = (r5, w5)" by force
  have t0: "t_ID ?t = 0" "t_RevokedAt ?t = None" by (simp_all add: new_token_def)
  note C = writesD [OF tokens.TokenCreate [OF t0] c]
  have quiet: "untouched W w w4"
    using G silentD [OF Generate_quiet a] rand_quiet(1) [OF h] silentD [OF db.Now_silent n]
    by (blast intro: untouched_trans)
  have "u_ID u \<in> u_ID ` st_users (data w4)" "up W w4" "\<exists>i. i \<noteq> 0 \<and> i \<notin> t_ID ` st_tokens (data w4)"
    using u up room untouched_seen [OF quiet] untouched_up [OF quiet] by simp_all
  with C store [of hash "now + au_refreshTTL S"] obtain x where "r5 = Inr x"
    by (cases r5) (auto simp: new_token_def)
  with g r1 a h n c show ?thesis
    by (simp add: issueTokenPair_def bindE_def bindS_def okE_def)
qed

text \<open>
  Login: a token pair means that the email and the password are those of an active user;
  with an up database wrong ones are answered by \<open>ErrInvalidCredentials\<close>, and an error
  leaves the store as it was.
\<close>

lemma Login_run:
  assumes run: "Login L J RT S Background email password w = (r, w')"
  shows "case r of
      Inr p \<Rightarrow> \<exists>u\<in>st_users (data w). u_Email u = email \<and> u_IsActive u \<and>
        bcrypt_Compare L (u_PasswordHash u) password \<and>
        token_added L (u_ID u) (tp_RefreshToken p) (data w) (data w')
    | Inl e \<Rightarrow> data w' = data w"
    and "up W w \<Longrightarrow> (\<And>u. u \<in> st_users (data w) \<Longrightarrow> u_Email u = email \<Longrightarrow>
        \<not> (u_IsActive u \<and> bcrypt_Compare L (u_PasswordHash u) password)) \<Longrightarrow>
      r = Inl ErrInvalidCredentials"
proof -
  obtain r1 w1 where g: "users_GetByEmail (au_users S) Background email w = (r1, w1)" by force
  note G = readsD [OF users.UserGetByEmail g]
  have same: "data w1 = data w" using untouched_seen [OF G [THEN conjunct1]] by simp
  have "(case r of
      Inr p \<Rightarrow> \<exists>u\<in>st_users (data w). u_Email u = email \<and> u_IsActive u \<and>
        bcrypt_Compare L (u_PasswordHash u) password \<and>
        token_added L (u_ID u) (tp_RefreshToken p) (data w) (data w')
    | Inl e \<Rightarrow> data w' = data w) \<and>
    (up W w \<longrightarrow> (\<forall>u\<in>st_users (data w). u_Email u = email \<longrightarrow>
        \<not> (u_IsActive u \<and> bcrypt_Compare L (u_PasswordHash u) password)) \<longrightarrow>
      r = Inl ErrInvalidCredentials)"
  proof (cases r1)
    case (Inl e)
    with run g G same show ?thesis
      by (auto simp: Login_def bindS_def doS_def failE_def db.Inc_seen split: if_splits)
  next
    case (Inr u)
    with G have u: "u \<in> st_users (data w)" "u_Email u = email" by auto
    show ?thesis
    proof (cases "u_IsActive u \<and> bcrypt_Compare L (u_PasswordHash u) password")
      case False
      with run g Inr same show ?thesis
        by (auto simp: Login_def bindS_def doS_def failE_def db.Inc_seen split: if_splits)
    next
      case True
      with run g Inr have "issueTokenPair L J RT S Background u (rt_Inc RT LoginSuccessTotal w1) = (r, w')"
        by (simp add: Login_def bindS_def doS_def)
      from issueTokenPair_run [OF this] u True same show ?thesis
        by (auto simp: db.Inc_seen split: sum.splits)
    qed
  qed
  then show "case r of
      Inr p \<Rightarrow> \<exists>u\<in>st_users (data w). u_Email u = email \<and> u_IsActive u \<and>
        bcrypt_Compare L (u_PasswordHash u) password \<and>
        token_added L (u_ID u) (tp_RefreshToken p) (data w) (data w')
    | Inl e \<Rightarrow> data w' = data w"
    and "up W w \<Longrightarrow> (\<And>u. u \<in> st_users (data w) \<Longrightarrow> u_Email u = email \<Longrightarrow>
        \<not> (u_IsActive u \<and> bcrypt_Compare L (u_PasswordHash u) password)) \<Longrightarrow>
      r = Inl ErrInvalidCredentials"
    by blast+
qed

lemma Login_accepts:
  assumes "up W w" and "\<exists>u\<in>st_users (data w). u_Email u = email"
    and "\<And>u. u \<in> st_users (data w) \<Longrightarrow> u_Email u = email \<Longrightarrow>
      u_IsActive u \<and> bcrypt_Compare L (u_PasswordHash u) password"
  shows "\<exists>u w1. u \<in> st_users (data w) \<and> u_Email u = email \<and> data w1 = data w \<and>
    Login L J RT S Background email password w = issueTokenPair L J RT S Background u w1"
proof -
  obtain r1 w1 where g: "users_GetByEmail (au_users S) Background email w = (r1, w1)" by force
  note G = readsD [OF users.UserGetByEmail g]
  from G assms(1,2) obtain u where r1: "r1 = Inr u" and u: "u \<in> st_users (data w)" "u_Email u = email"
    by (cases r1) auto
  have "Login L J RT S Background email password w =
      issueTokenPair L J RT S Background u (rt_Inc RT LoginSuccessTotal w1)"
    using g r1 assms(3) [OF u] by (simp add: Login_def bindS_def doS_def)
  moreover have "data (rt_Inc RT LoginSuccessTotal w1) = data w"
    using untouched_seen [OF G [THEN conjunct1]] by (simp add: db.Inc_seen)
  ultimately show ?thesis using u by blast
qed

text \<open>
  Signup: on success the email was free and the user is there, with a bcrypt hash of the
  password; the only other change is the assignment of the default role, which is made
  if the database is up and the role exists. An error leaves the store as it was.
\<close>

lemma assignDefaultRole_run:
  assumes run: "assignDefaultRole S Background u w = (r, w')"
  shows "r = Inr u \<and> (\<exists>A. default_assignment (data w) (u_ID u) A \<and>
    data w' = (data w)\<lparr>st_assign := st_assign (data w) \<union> A\<rparr> \<and>
    (up W w \<longrightarrow> u_ID u \<in> u_ID ` st_users (data w) \<longrightarrow>
      (\<exists>d\<in>st_roles (data w). r_Name d = ''developer'') \<longrightarrow> A \<noteq> {}))"
proof -
  obtain r1 w1 where g: "roles_GetByName (au_roles S) Background ''developer'' w = (r1, w1)" by force
  note G = readsD [OF roles.RoleGetByName g]
  note same = untouched_seen [OF G [THEN conjunct1]] and up = untouched_up [OF G [THEN conjunct1]]
  show ?thesis
  proof (cases r1)
    case (Inl e)
    with run g have "r = Inr u" "w' = w1" by (simp_all add: assignDefaultRole_def bindS_def okE_def)
    with G same Inl show ?thesis
      by (intro conjI exI [of _ "{}"]) (auto simp: default_assignment_def)
  next
    case (Inr d)
    obtain r2 w2 where a: "users_AssignRole (au_users S) Background (u_ID u) (r_ID d) (u_ID u) w1 = (r2, w2)"
      by force
    note A = writesD [OF users.AssignRole a, unfolded same]
    from run g Inr a have r: "r = Inr u" "w' = w2"
      by (simp_all add: assignDefaultRole_def bindS_def okE_def)
    from G Inr have d: "d \<in> st_roles (data w)" "r_Name d = ''developer''" by auto
    show ?thesis
    proof (cases r2)
      case ok: (Inr x)
      with A r d show ?thesis
        by (intro conjI exI [of _ "{(u_ID u, r_ID d)}"]) (auto simp: default_assignment_def)
    next
      case err: (Inl e)
      with A r d up show ?thesis
        by (intro conjI exI [of _ "{}"]) (auto simp: default_assignment_def)
    qed
  qed
qed

lemma Signup_run:
  assumes run: "Signup RT S Background email password fullName w = (r, w')"
  shows "case r of
      Inl e \<Rightarrow> data w' = data w \<and> (e = ErrAlreadyExists \<longrightarrow> email \<in> u_Email ` st_users (data w))
    | Inr u \<Rightarrow> signed_up (up W w) email fullName u (data w) (data w') \<and>
        (\<exists>w1 w2. rt_Bcrypt RT password w1 = (Inr (u_PasswordHash u), w2))"
    and "up W w \<Longrightarrow> email \<in> u_Email ` st_users (data w) \<Longrightarrow> r = Inl ErrAlreadyExists"
proof -
  obtain r1 w1 where g: "users_GetByEmail (au_users S) Background email w = (r1, w1)" by force
  note G = readsD [OF users.UserGetByEmail g]
  note same = untouched_seen [OF G [THEN conjunct1]] and up1 = untouched_up [OF G [THEN conjunct1]]
  have "(case r of
      Inl e \<Rightarrow> data w' = data w \<and> (e = ErrAlreadyExists \<longrightarrow> email \<in> u_Email ` st_users (data w))
    | Inr u \<Rightarrow> signed_up (up W w) email fullName u (data w) (data w') \<and>
        (\<exists>w1 w2. rt_Bcrypt RT password w1 = (Inr (u_PasswordHash u), w2))) \<and>
    (up W w \<longrightarrow> email \<in> u_Email ` st_users (data w) \<longrightarrow> r = Inl ErrAlreadyExists)"
  proof (cases r1)
    case (Inr u)
    with run g G same show ?thesis by (auto simp: Signup_def bindS_def failE_def)
  next
    case (Inl e)
    show ?thesis
    proof (cases "e = ErrNotFound")
      case False
      with run g Inl G same users.UserGetByEmail_error [of Background email w e w1] show ?thesis
        by (auto simp: Signup_def bindS_def failE_def)
    next
      case True
      with G Inl have free: "email \<notin> u_Email ` st_users (data w)" by auto
      obtain r2 w2 where b: "rt_Bcrypt RT password w1 = (r2, w2)" by force
      note B = silentD [OF db.Bcrypt_silent b]
      note same2 = untouched_seen [OF B] and up2 = untouched_up [OF B]
      show ?thesis
      proof (cases r2)
        case e2: (Inl e2)
        from db.Bcrypt_error b e2 have "e2 \<noteq> ErrAlreadyExists" by auto
        with run g Inl True b e2 same same2 free show ?thesis
          by (auto simp: Signup_def bindS_def bindE_def failE_def)
      next
        case hash: (Inr hash)
        obtain r3 w3 where c: "users_Create (au_users S) Background (new_user email hash fullName) w2 = (r3, w3)"
          by force
        have "u_ID (new_user email hash fullName) = 0" by (simp add: new_user_def)
        note C = writesD [OF users.UserCreate [OF this] c]
        show ?thesis
        proof (cases r3)
          case e3: (Inl e3)
          with users.UserCreate_error [of Background "new_user email hash fullName" w2 e3 w3] c
          have "e3 \<noteq> ErrAlreadyExists" by auto
          with run g Inl True b hash c e3 C same same2 free show ?thesis
            by (auto simp: Signup_def bindS_def bindE_def failE_def)
        next
          case u: (Inr u)
          let ?w3 = "rt_Inc RT UsersCreatedTotal w3"
          have fin: "assignDefaultRole S Background u ?w3 = (r, w')"
            using run g Inl True b hash c u by (simp add: Signup_def bindS_def bindE_def doS_def)
          from C u same same2 have user: "u_Email u = email" "u_FullName u = fullName" "u_IsActive u"
              "u_PasswordHash u = hash" "u_ID u \<notin> u_ID ` st_users (data w)"
            and new: "data w3 = (data w)\<lparr>st_users := insert (u\<lparr>u_IsActive := True\<rparr>) (st_users (data w))\<rparr>"
            by (auto simp: new_user_def)
          have "u\<lparr>u_IsActive := True\<rparr> = u" using user(3) by (cases u) simp
          with new have new: "data ?w3 = (data w)\<lparr>st_users := insert u (st_users (data w))\<rparr>"
            by (simp add: db.Inc_seen)
          have up3: "up W w \<longrightarrow> up W ?w3"
            using up1 up2 touched_up [OF C [THEN conjunct1]] by (auto intro: db.Inc_up)
          from assignDefaultRole_run [OF fin] obtain A where r: "r = Inr u"
            and A: "default_assignment (data w) (u_ID u) A"
              "data w' = (data w)\<lparr>st_users := insert u (st_users (data w)),
                st_assign := st_assign (data w) \<union> A\<rparr>"
              "up W w \<longrightarrow> (\<exists>d\<in>st_roles (data w). r_Name d = ''developer'') \<longrightarrow> A \<noteq> {}"
            unfolding new using up3 by (auto simp: default_assignment_def)
          from A have "\<exists>A. default_assignment (data w) (u_ID u) A \<and>
              data w' = (data w)\<lparr>st_users := insert u (st_users (data w)),
                st_assign := st_assign (data w) \<union> A\<rparr> \<and>
              (up W w \<longrightarrow> (\<exists>d\<in>st_roles (data w). r_Name d = ''developer'') \<longrightarrow> A \<noteq> {})"
            by blast
          with user free have "signed_up (up W w) email fullName u (data w) (data w')"
            by (simp add: signed_up_def)
          with r user(4) free b hash show ?thesis by auto
        qed
      qed
    qed
  qed
  then show "case r of
      Inl e \<Rightarrow> data w' = data w \<and> (e = ErrAlreadyExists \<longrightarrow> email \<in> u_Email ` st_users (data w))
    | Inr u \<Rightarrow> signed_up (up W w) email fullName u (data w) (data w') \<and>
        (\<exists>w1 w2. rt_Bcrypt RT password w1 = (Inr (u_PasswordHash u), w2))"
    and "up W w \<Longrightarrow> email \<in> u_Email ` st_users (data w) \<Longrightarrow> r = Inl ErrAlreadyExists"
    by blast+
qed

text \<open>
  Refresh: a new pair means that a stored token with the hash of the one presented was
  neither revoked nor expired; that token is now revoked, and the new one belongs to the
  same user. A failure after the revocation leaves the presented token revoked.
\<close>

lemma token_spent_quiet:
  assumes "token_spent RT t w = (b, w')"
  shows "untouched W w w'"
    and "\<not> b \<Longrightarrow> t_RevokedAt t = None \<and> (\<exists>now w1 w2. rt_Now RT w1 = (now, w2) \<and> now \<le> t_ExpiresAt t)"
    and "t_RevokedAt t \<noteq> None \<Longrightarrow> b"
  using assms db.Now_silent
  by (auto simp: token_spent_def bindS_def not_less dest: silentD split: if_splits prod.splits)

lemma Refresh_run:
  assumes run: "Refresh L J RT S Background raw w = (r, w')"
  shows "case r of
      Inr p \<Rightarrow> \<exists>t\<in>st_tokens (data w). t_TokenHash t = hashToken L raw \<and> t_RevokedAt t = None \<and>
        (\<exists>now w1 w2. rt_Now RT w1 = (now, w2) \<and> now \<le> t_ExpiresAt t) \<and>
        (\<exists>s1. revoked (t_ID t) (data w) s1 \<and> token_added L (t_UserID t) (tp_RefreshToken p) s1 (data w'))
    | Inl e \<Rightarrow> data w' = data w \<or> (\<exists>t\<in>st_tokens (data w). t_TokenHash t = hashToken L raw \<and>
        t_RevokedAt t = None \<and> revoked (t_ID t) (data w) (data w'))"
proof -
  obtain r1 w1 where g: "tokens_GetByHash (au_tokens S) Background (hashToken L raw) w = (r1, w1)" by force
  note G = readsD [OF tokens.TokenGetByHash g]
  note same1 = untouched_seen [OF G [THEN conjunct1]]
  show ?thesis
  proof (cases r1)
    case (Inl e)
    with run g same1 show ?thesis by (auto simp: Refresh_def bindS_def failE_def)
  next
    case (Inr t)
    with G have t: "t \<in> st_tokens (data w)" "t_TokenHash t = hashToken L raw" by auto
    obtain spent w2 where sp: "token_spent RT t w1 = (spent, w2)" by (metis surj_pair)
    note SP = token_spent_quiet [OF sp]
    have same2: "data w2 = data w" using untouched_seen [OF SP(1)] same1 by simp
    show ?thesis
    proof (cases spent)
      case True
      with run g Inr sp same2 show ?thesis by (auto simp: Refresh_def bindS_def failE_def)
    next
      case False
      obtain r3 w3 where v: "tokens_Revoke (au_tokens S) Background (t_ID t) w2 = (r3, w3)" by force
      note V = writesD [OF tokens.TokenRevoke v]
      show ?thesis
      proof (cases r3)
        case e3: (Inl e)
        with run g Inr sp False v V same2 show ?thesis by (auto simp: Refresh_def bindS_def bindE_def)
      next
        case (Inr x)
        with V same2 have rev: "revoked (t_ID t) (data w) (data w3)" by (auto simp: revoked_def)
        then have users: "st_users (data w3) = st_users (data w)" by (auto simp: revoked_def)
        obtain r4 w4 where u: "users_GetByID (au_users S) Background (t_UserID t) w3 = (r4, w4)" by force
        note U = readsD [OF users.UserGetByID u]
        have same4: "data w4 = data w3" using untouched_seen [OF U [THEN conjunct1]] by simp
        show ?thesis
        proof (cases r4)
          case e4: (Inl e)
          with run g \<open>r1 = Inr t\<close> sp False v Inr u have "r = Inl e" "w' = w4"
            by (simp_all add: Refresh_def bindS_def bindE_def)
          with t SP(2) False rev same4 show ?thesis by auto
        next
          case us: (Inr us)
          from U us have id: "u_ID us = t_UserID t" by simp
          have "issueTokenPair L J RT S Background us w4 = (r, w')"
            using run g \<open>r1 = Inr t\<close> sp False v Inr u us by (simp add: Refresh_def bindS_def bindE_def)
          from issueTokenPair_run [OF this] t SP(2) False rev same4 id show ?thesis
            by (cases r) auto
        qed
      qed
    qed
  qed
qed

lemma revoked_ids: "revoked i s s' \<Longrightarrow> t_ID ` st_tokens s' = t_ID ` st_tokens s"
proof -
  assume "revoked i s s'"
  then obtain t where "st_tokens s' = (\<lambda>x. if t_ID x = i then x\<lparr>t_RevokedAt := Some t\<rparr> else x) ` st_tokens s"
    unfolding revoked_def by fastforce
  moreover have "t_ID ` (\<lambda>x. if t_ID x = i then x\<lparr>t_RevokedAt := Some t\<rparr> else x) ` X = t_ID ` X" for X
    unfolding image_image by (rule image_cong) simp_all
  ultimately show ?thesis by simp
qed

text \<open>While the database is up, a live token of any user there is gets a new pair.\<close>

lemma Refresh_accepts:
  assumes up: "up W w" and t: "t \<in> st_tokens (data w)" "t_TokenHash t = hashToken L raw" "t_RevokedAt t = None"
    and one: "\<And>x. x \<in> st_tokens (data w) \<Longrightarrow> t_TokenHash x = hashToken L raw \<Longrightarrow> x = t"
    and get: "tokens_GetByHash (au_tokens S) Background (hashToken L raw) w = (y, w1)"
    and now: "rt_Now RT w1 = (now, w2)" "now \<le> t_ExpiresAt t"
    and user: "t_UserID t \<in> u_ID ` st_users (data w)"
    and sign: "\<And>roles v. \<exists>a v'. GenerateAccessToken L J RT (au_jwtMgr S) (t_UserID t) roles v = (Inr a, v')"
    and store: "\<And>h e. storable_token (new_token (t_UserID t) h e)"
    and room: "\<exists>i. i \<noteq> 0 \<and> i \<notin> t_ID ` st_tokens (data w)"
  shows "\<exists>p w'. Refresh L J RT S Background raw w = (Inr p, w')"
proof -
  note G = readsD [OF tokens.TokenGetByHash get]
  from G up t have y: "y = Inr t" by (cases y) (auto dest: one)
  have spent: "token_spent RT t w1 = (False, w2)"
    using t(3) now by (simp add: token_spent_def bindS_def)
  have q: "untouched W w w2"
    using G silentD [OF db.Now_silent now(1)] by (blast intro: untouched_trans)
  obtain r3 w3 where v: "tokens_Revoke (au_tokens S) Background (t_ID t) w2 = (r3, w3)" by force
  note V = writesD [OF tokens.TokenRevoke v]
  have up2: "up W w2" using untouched_up [OF q up] .
  with V obtain x where r3: "r3 = Inr x" by (cases r3) auto
  have rev: "revoked (t_ID t) (data w) (data w3)"
    using V r3 untouched_seen [OF q] by (auto simp: revoked_def)
  then have users: "st_users (data w3) = st_users (data w)" by (auto simp: revoked_def)
  have ids: "t_ID ` st_tokens (data w3) = t_ID ` st_tokens (data w)"
    by (rule revoked_ids [OF rev])
  have up3: "up W w3" using V up2 by (auto dest: touched_up)
  obtain r4 w4 where u: "users_GetByID (au_users S) Background (t_UserID t) w3 = (r4, w4)" by force
  note U = readsD [OF users.UserGetByID u]
  from U up3 user users obtain us where us: "r4 = Inr us" "u_ID us = t_UserID t"
    by (cases r4) auto
  have D: "data w4 = data w3" "up W w4"
    using untouched_seen [OF U [THEN conjunct1]] untouched_up [OF U [THEN conjunct1] up3] by simp_all
  have "\<exists>p w'. issueTokenPair L J RT S Background us w4 = (Inr p, w')"
    by (rule issueTokenPair_accepts) (use D us users user ids sign store room in simp_all)
  with get y spent v r3 u us show ?thesis by (simp add: Refresh_def bindS_def bindE_def)
qed

text \<open>A token whose stored copies are all revoked gets nothing, and changes nothing.\<close>

lemma Refresh_revoked:
  assumes run: "Refresh L J RT S Background raw w = (r, w')"
    and all: "\<And>t. t \<in> st_tokens (data w) \<Longrightarrow> t_TokenHash t = hashToken L raw \<Longrightarrow> t_RevokedAt t \<noteq> None"
  shows "(r = Inl ErrInvalidCredentials \<or> r = Inl ErrTokenExpired) \<and> data w' = data w"
proof -
  obtain r1 w1 where g: "tokens_GetByHash (au_tokens S) Background (hashToken L raw) w = (r1, w1)" by force
  note G = readsD [OF tokens.TokenGetByHash g]
  note same1 = untouched_seen [OF G [THEN conjunct1]]
  show ?thesis
  proof (cases r1)
    case (Inl e)
    with run g same1 show ?thesis by (auto simp: Refresh_def bindS_def failE_def)
  next
    case (Inr t)
    with G all have t: "t_RevokedAt t \<noteq> None" by auto
    then have "token_spent RT t w1 = (True, w1)" by (simp add: token_spent_def)
    with run g Inr same1 show ?thesis by (auto simp: Refresh_def bindS_def failE_def)
  qed
qed

lemma revoked_all:
  assumes "revoked i s s'" and "\<And>x. x \<in> st_tokens s \<Longrightarrow> t_TokenHash x = h \<Longrightarrow> t_ID x = i"
    and "x \<in> st_tokens s'" and "t_TokenHash x = h"
  shows "t_RevokedAt x \<noteq> None"
proof -
  from assms(1,3) obtain y t where y: "y \<in> st_tokens s"
    "x = (if t_ID y = i then y\<lparr>t_RevokedAt := Some t\<rparr> else y)"
    by (auto simp: revoked_def)
  with assms(4) have "t_TokenHash y = h" by (simp split: if_splits)
  with assms(2) y show ?thesis by simp
qed

text \<open>Single use: after a refresh that succeeded, the same token gets nothing.\<close>

lemma Refresh_single_use:
  assumes first: "Refresh L J RT S Background raw w = (Inr p, w1)"
    and unique: "\<And>x y. x \<in> st_tokens (data w) \<Longrightarrow> y \<in> st_tokens (data w) \<Longrightarrow>
      t_TokenHash x = hashToken L raw \<Longrightarrow> t_TokenHash y = hashToken L raw \<Longrightarrow> t_ID x = t_ID y"
    and other: "sha256_Sum L (tp_RefreshToken p) \<noteq> sha256_Sum L raw"
    and second: "Refresh L J RT S Background raw w2 = (r, w3)" and same: "data w2 = data w1"
  shows "(r = Inl ErrInvalidCredentials \<or> r = Inl ErrTokenExpired) \<and> data w3 = data w2"
proof (rule Refresh_revoked [OF second])
  fix x assume x: "x \<in> st_tokens (data w2)" "t_TokenHash x = hashToken L raw"
  from Refresh_run [OF first] obtain t s1 where t: "t \<in> st_tokens (data w)"
      "t_TokenHash t = hashToken L raw" and rev: "revoked (t_ID t) (data w) s1"
    and add: "token_added L (t_UserID t) (tp_RefreshToken p) s1 (data w1)" by auto
  from add x same other have "x \<in> st_tokens s1"
    by (auto simp: token_added_def hashToken_inj)
  with revoked_all [OF rev unique _ x(2)] t show "t_RevokedAt x \<noteq> None" by blast
qed

text \<open>
  Logout: revokes the token it is given if there is one; with the database up it succeeds.
  With Redis up the access token is banned for the time it had left.
\<close>

lemma Logout_run:
  assumes run: "Logout L S Background raw jti d w = (r, w')"
  shows "data w' = data w \<or> (\<exists>t\<in>st_tokens (data w). t_TokenHash t = hashToken L raw \<and>
      revoked (t_ID t) (data w) (data w'))"
    and "up W w \<Longrightarrow> r = Inr () \<and> ((\<exists>t\<in>st_tokens (data w). t_TokenHash t = hashToken L raw) \<longrightarrow>
      (\<exists>t\<in>st_tokens (data w). t_TokenHash t = hashToken L raw \<and> revoked (t_ID t) (data w) (data w')))"
    and "up K w \<Longrightarrow> au_blacklist S \<noteq> None \<Longrightarrow> jti \<noteq> [] \<Longrightarrow> 0 < d \<Longrightarrow>
      t \<le> clock (seen K () w') + d - second \<Longrightarrow> banned (seen K () w') jti t"
proof -
  let ?ban = "if au_blacklist S \<noteq> None \<and> jti \<noteq> [] then blacklist_Add (au_blacklist S) jti d else okE ()"
  obtain r1 w1 where b: "?ban w = (r1, w1)" by (metis surj_pair)
  have B: "data w1 = data w" "up W w \<longrightarrow> up W w1"
    "up K w \<longrightarrow> au_blacklist S \<noteq> None \<longrightarrow> jti \<noteq> [] \<longrightarrow> 0 < d \<longrightarrow>
      (\<forall>t \<le> clock (seen K () w1) + d - second. banned (seen K () w1) jti t)"
  proof -
    have "data w1 = data w \<and> (up W w \<longrightarrow> up W w1) \<and>
      (up K w \<longrightarrow> au_blacklist S \<noteq> None \<longrightarrow> jti \<noteq> [] \<longrightarrow> 0 < d \<longrightarrow>
        (\<forall>t \<le> clock (seen K () w1) + d - second. banned (seen K () w1) jti t))"
    proof (cases "au_blacklist S \<noteq> None \<and> jti \<noteq> []")
      case True
      with b have "blacklist_Add (au_blacklist S) jti d w = (r1, w1)" by simp
      from writesD [OF banlist.Add this] have T: "touched K () w w1"
        and ban: "up K w \<longrightarrow> 0 < d \<longrightarrow>
          (\<forall>t \<le> clock (seen K () w1) + d - second. banned (seen K () w1) jti t)" by simp_all
      from apartD(3,4) [OF apart T] ban show ?thesis by simp
    next
      case False
      with b show ?thesis by (auto simp: okE_def)
    qed
    then show "data w1 = data w" "up W w \<longrightarrow> up W w1"
      "up K w \<longrightarrow> au_blacklist S \<noteq> None \<longrightarrow> jti \<noteq> [] \<longrightarrow> 0 < d \<longrightarrow>
      (\<forall>t \<le> clock (seen K () w1) + d - second. banned (seen K () w1) jti t)" by auto
  qed
  obtain r2 w2 where g: "tokens_GetByHash (au_tokens S) Background (hashToken L raw) w1 = (r2, w2)" by force
  note G = readsD [OF tokens.TokenGetByHash g]
  note same = untouched_seen [OF G [THEN conjunct1]] and upG = untouched_up [OF G [THEN conjunct1]]
  have "(data w' = data w \<or> (\<exists>t\<in>st_tokens (data w). t_TokenHash t = hashToken L raw \<and>
      revoked (t_ID t) (data w) (data w'))) \<and>
    (up W w \<longrightarrow> r = Inr () \<and> ((\<exists>t\<in>st_tokens (data w). t_TokenHash t = hashToken L raw) \<longrightarrow>
      (\<exists>t\<in>st_tokens (data w). t_TokenHash t = hashToken L raw \<and> revoked (t_ID t) (data w) (data w')))) \<and>
    seen K () w' = seen K () w1"
  proof (cases r2)
    case (Inl e)
    with run b g have "r = Inr ()" "w' = w2" by (simp_all add: Logout_def bindS_def okE_def)
    with G Inl B same apart_untouched(1) [OF apart G [THEN conjunct1]] show ?thesis by auto
  next
    case (Inr t)
    with run b g have v: "tokens_Revoke (au_tokens S) Background (t_ID t) w2 = (r, w')"
      by (simp add: Logout_def bindS_def)
    note V = writesD [OF tokens.TokenRevoke v]
    from G Inr B have t: "t \<in> st_tokens (data w)" "t_TokenHash t = hashToken L raw" by auto
    from V same B upG have rev: "case r of Inr _ \<Rightarrow> revoked (t_ID t) (data w) (data w')
        | Inl e \<Rightarrow> data w' = data w \<and> \<not> up W w"
      by (cases r) (auto simp: revoked_def)
    from apartD(1) [OF apart V [THEN conjunct1]] apart_untouched(1) [OF apart G [THEN conjunct1]]
    have "seen K () w' = seen K () w1" by simp
    with rev t show ?thesis by (cases r) auto
  qed
  note R = this
  from R show "data w' = data w \<or> (\<exists>t\<in>st_tokens (data w). t_TokenHash t = hashToken L raw \<and>
      revoked (t_ID t) (data w) (data w'))" by (rule conjunct1)
  from R show "up W w \<Longrightarrow> r = Inr () \<and> ((\<exists>t\<in>st_tokens (data w). t_TokenHash t = hashToken L raw) \<longrightarrow>
      (\<exists>t\<in>st_tokens (data w). t_TokenHash t = hashToken L raw \<and> revoked (t_ID t) (data w) (data w')))"
    by (elim conjE) (erule mp)
  from R B(3) show "up K w \<Longrightarrow> au_blacklist S \<noteq> None \<Longrightarrow> jti \<noteq> [] \<Longrightarrow> 0 < d \<Longrightarrow>
      t \<le> clock (seen K () w') + d - second \<Longrightarrow> banned (seen K () w') jti t"
    by (elim conjE) simp
qed

end

end
