(* ===== verification/UserService.thy ===== *)
theory UserService
  imports Domain
begin

text \<open>
  \<open>internal/user/service.go\<close>, verified against the contract of \<open>domain.UserRepository\<close>.
\<close>

record 'w UserService =
  us_users :: "'w UserRepository"

definition user_NewService :: "'w UserRepository \<Rightarrow> 'w UserService" where
  "user_NewService users = \<lparr>us_users = users\<rparr>"

definition userSvc_Get :: "'w UserService \<Rightarrow> ctx \<Rightarrow> uuid \<Rightarrow> ('w, error, User) cmd" where
  "userSvc_Get S c i = users_GetByID (us_users S) c i"

definition userSvc_List ::
  "'w UserService \<Rightarrow> ctx \<Rightarrow> int \<Rightarrow> int \<Rightarrow> ('w, error, User list \<times> int) cmd" where
  "userSvc_List S c limit offset = users_List (us_users S) c limit offset"

definition UpdateProfile :: "'w UserService \<Rightarrow> ctx \<Rightarrow> uuid \<Rightarrow> string \<Rightarrow> ('w, error, User) cmd" where
  "UpdateProfile S c i fullName =
     bindE (users_GetByID (us_users S) c i) (\<lambda>u.
     let u = u\<lparr>u_FullName := fullName\<rparr> in
     bindE (users_Update (us_users S) c u) (\<lambda>_. okE u))"

text \<open>\<open>renamed\<close>: only the name (and the time of the last update) of one user changed.\<close>

definition renamed :: "uuid \<Rightarrow> string \<Rightarrow> store \<Rightarrow> store \<Rightarrow> bool" where
  "renamed i name s s' \<longleftrightarrow> (\<exists>a t. s' = s\<lparr>st_users := (\<lambda>x. if u_ID x = i
     then x\<lparr>u_FullName := name, u_IsActive := a, u_UpdatedAt := t\<rparr> else x) ` st_users s\<rparr> \<and>
     (\<exists>x\<in>st_users s. u_ID x = i \<and> u_IsActive x = a))"

locale user_service = user_repository W st "us_users S" storable
  for W :: "(ctx, 'w, 's, 'o) window" and st and S :: "'w UserService" and storable
begin

lemma UpdateProfile_run:
  assumes run: "UpdateProfile S c i name w = (r, w')"
  shows "touched W c w w' \<and> (case r of
      Inr u \<Rightarrow> u_FullName u = name \<and> u_ID u = i \<and> renamed i name (st (seen W c w)) (st (seen W c w'))
    | Inl e \<Rightarrow> st (seen W c w') = st (seen W c w))"
proof -
  obtain r1 w1 where g: "users_GetByID (us_users S) c i w = (r1, w1)" by force
  note G = readsD [OF UserGetByID g]
  note same = untouched_seen [OF G [THEN conjunct1]] and t1 = untouched_touched [OF G [THEN conjunct1]]
  show ?thesis
  proof (cases r1)
    case (Inl e)
    with run g same t1 show ?thesis by (auto simp: UpdateProfile_def Let_def bindE_def)
  next
    case (Inr u)
    with G have u: "u \<in> st_users (st (seen W c w))" "u_ID u = i" by auto
    let ?u = "u\<lparr>u_FullName := name\<rparr>"
    obtain r2 w2 where p: "users_Update (us_users S) c ?u w1 = (r2, w2)" by force
    note P = writesD [OF UserUpdate p]
    note t2 = touched_trans [OF t1 P [THEN conjunct1]]
    show ?thesis
    proof (cases r2)
      case (Inl e)
      with run g Inr p P same t2 show ?thesis by (auto simp: UpdateProfile_def Let_def bindE_def)
    next
      case ok: (Inr x)
      with run g Inr p have "r = Inr ?u" "w' = w2" by (simp_all add: UpdateProfile_def Let_def bindE_def okE_def)
      with P ok same t2 u show ?thesis by (auto simp: renamed_def)
    qed
  qed
qed

end

end
