(* ===== verification/Wiring.thy ===== *)
theory Wiring
  imports UserRepo RoleRepo TokenRepo OutboxRepo AuditRepo RbacService AuthService UserService
begin

text \<open>
  \<open>cmd/server/main.go\<close>: the services on top of the Postgres repositories and the Redis
  wrappers. \<open>pg_platform\<close> collects what the program assumes of the outside; under it the
  repositories and the cache meet the contracts that the services were verified against.
\<close>

section \<open>The services of main\<close>

text \<open>\<open>permCache := cache.NewPermissionCache(rdb)\<close>, \<open>blacklist := cache.NewBlacklist(rdb)\<close>\<close>

definition permCache :: "'w redis \<Rightarrow> 'w PermissionCache option" where
  "permCache rdb = Some (NewPermissionCache rdb)"

definition blacklist :: "'w redis \<Rightarrow> 'w Blacklist option" where
  "blacklist rdb = Some (NewBlacklist rdb)"

definition rbacSvc :: "'w gorm \<Rightarrow> 'w redis \<Rightarrow> lib \<Rightarrow> 'w RbacService" where
  "rbacSvc db rdb L = rbac_NewService (NewUserRepository db) (NewRoleRepository db)
     (NewPermissionRepository db) (NewOutboxRepository db L) (NewTxRunner db) (permCache rdb)"

lemma rbacSvc_sel [simp]:
  "rb_users (rbacSvc db rdb L) = NewUserRepository db"
  "rb_roles (rbacSvc db rdb L) = NewRoleRepository db"
  "rb_perms (rbacSvc db rdb L) = NewPermissionRepository db"
  "rb_outbox (rbacSvc db rdb L) = NewOutboxRepository db L"
  "rb_txRunner (rbacSvc db rdb L) = NewTxRunner db"
  "rb_cache (rbacSvc db rdb L) = permCache rdb"
  by (simp_all add: rbacSvc_def rbac_NewService_def)

definition authSvc :: "'w gorm \<Rightarrow> 'w redis \<Rightarrow> 'w runtime \<Rightarrow> Manager \<Rightarrow> duration \<Rightarrow> 'w AuthService" where
  "authSvc db rdb RT jwtMgr refreshTTL = auth_NewService (NewUserRepository db) (NewRoleRepository db)
     (NewRefreshTokenRepository db RT) jwtMgr refreshTTL (blacklist rdb)"

definition userSvc :: "'w gorm \<Rightarrow> 'w UserService" where
  "userSvc db = user_NewService (NewUserRepository db)"

lemma authSvc_sel [simp]:
  "au_users (authSvc db rdb RT m d) = NewUserRepository db"
  "au_roles (authSvc db rdb RT m d) = NewRoleRepository db"
  "au_tokens (authSvc db rdb RT m d) = NewRefreshTokenRepository db RT"
  "au_jwtMgr (authSvc db rdb RT m d) = m"
  "au_refreshTTL (authSvc db rdb RT m d) = d"
  "au_blacklist (authSvc db rdb RT m d) = blacklist rdb"
  by (simp_all add: authSvc_def auth_NewService_def)

lemma userSvc_sel [simp]: "us_users (userSvc db) = NewUserRepository db"
  by (simp add: userSvc_def user_NewService_def)

section \<open>What the program assumes of the outside\<close>

locale pg_platform =
  pg_clock V G jsonb fits coll RT +
  redis_cache K D ttl L "permCache D" +
  rd_quiet: quiet_runtime K RT
  for V :: "(conn, 'w, tables, 'o) window" and G jsonb fits coll and RT :: "'w runtime"
    and K :: "(unit, 'w, redis_state, 'q) window" and D ttl and L :: lib +
  assumes apart: "apart V K"

sublocale pg_platform \<subseteq> pg_quiet: quiet_runtime "pg_window V" RT
  unfolding pg_window_def by (rule quiet_runtime_reindex) (rule quiet_runtime_axioms)

sublocale pg_platform \<subseteq> rbac: rbac_service "pg_window V" store_of "rbacSvc G D L"
  "storable_user fits" "encodes L jsonb" "encodable L jsonb fits" K "cached_perms L (permCache D)" L RT
proof (intro rbac_service.intro rbac_service_axioms.intro, unfold rbacSvc_sel)
  show "apart (pg_window V) K" unfolding pg_window_def by (rule apart_reindex [OF apart])
qed (unfold_locales, simp add: permCache_def)

sublocale pg_platform \<subseteq> bans: redis_blacklist K D ttl "blacklist D"
  by unfold_locales (simp add: blacklist_def)

sublocale pg_platform \<subseteq> auth: auth_service "pg_window V" store_of "authSvc G D RT m d"
  "storable_user fits" "storable_token fits" K listed rs_now RT for m d
proof (intro auth_service.intro auth_service_axioms.intro, unfold authSvc_sel)
  show "apart (pg_window V) K" unfolding pg_window_def by (rule apart_reindex [OF apart])
qed unfold_locales

sublocale pg_platform \<subseteq> users: user_service "pg_window V" store_of "userSvc G" "storable_user fits"
  by (intro user_service.intro, unfold userSvc_sel) unfold_locales

interpretation ref_platform: pg_platform ref_window ref_gorm Some "\<lambda>_. True" ref_coll ref_runtime
  ref_redis_window ref_redis "\<lambda>d. d" ref_lib
  by unfold_locales (simp_all add: inj_ref_String permCache_def ref_apart)

text \<open>The store behind the base connection, and what the permission cache may answer.\<close>

abbreviation db_store :: "(conn, 'w, tables, 'o) window \<Rightarrow> 'w \<Rightarrow> store" where
  "db_store V w \<equiv> store_of (seen V BaseDB w)"

abbreviation cache_of ::
  "lib \<Rightarrow> (unit, 'w, redis_state, 'q) window \<Rightarrow> 'w redis \<Rightarrow> 'w \<Rightarrow> uuid \<Rightarrow> string set option" where
  "cache_of L K D w \<equiv> cached_perms L (permCache D) (seen K () w)"

context pg_platform
begin

lemmas Authorize_correct =
  rbac.Authorize_correct [unfolded pg_window_sel dbFromContext_simps]
lemmas Authorize_run =
  rbac.Authorize_run [unfolded pg_window_sel dbFromContext_simps]
lemmas AssignRoleToUser_run =
  rbac.AssignRoleToUser_run [unfolded pg_window_sel dbFromContext_simps]
lemmas RemoveRoleFromUser_run =
  rbac.RemoveRoleFromUser_run [unfolded pg_window_sel dbFromContext_simps]
lemmas AttachPermissionToRole_run =
  rbac.AttachPermissionToRole_run [unfolded pg_window_sel dbFromContext_simps]
lemmas AssignRoleToUser_fresh =
  rbac.AssignRoleToUser_fresh [unfolded pg_window_sel dbFromContext_simps]
lemmas RemoveRoleFromUser_fresh =
  rbac.RemoveRoleFromUser_fresh [unfolded pg_window_sel dbFromContext_simps]
lemmas AttachPermissionToRole_fresh =
  rbac.AttachPermissionToRole_fresh [unfolded pg_window_sel dbFromContext_simps]
lemmas DeleteRole_run =
  rbac.DeleteRole_run [unfolded pg_window_sel dbFromContext_simps]
lemmas DeletePermission_run =
  rbac.DeletePermission_run [unfolded pg_window_sel dbFromContext_simps]
lemmas Signup_run = auth.Signup_run [unfolded pg_window_sel dbFromContext_simps]
lemmas Login_run = auth.Login_run [unfolded pg_window_sel dbFromContext_simps]
lemmas Login_accepts = auth.Login_accepts [unfolded pg_window_sel dbFromContext_simps]
lemmas issueTokenPair_run = auth.issueTokenPair_run [unfolded pg_window_sel dbFromContext_simps]
lemmas Refresh_run = auth.Refresh_run [unfolded pg_window_sel dbFromContext_simps]
lemmas Refresh_accepts = auth.Refresh_accepts [unfolded pg_window_sel dbFromContext_simps]
lemmas Refresh_revoked = auth.Refresh_revoked [unfolded pg_window_sel dbFromContext_simps]
lemmas Refresh_single_use = auth.Refresh_single_use [unfolded pg_window_sel dbFromContext_simps]
lemmas Logout_run = auth.Logout_run [unfolded pg_window_sel dbFromContext_simps]
lemmas GetPermissions_reads = pg_users.GetPermissions [of Background]
lemmas UserPage_reads = user_List_reads [where c = Background]
lemmas UpdateProfile_run = users.UpdateProfile_run [unfolded pg_window_sel dbFromContext_simps]

end

section \<open>A world for the examples\<close>

text \<open>
  User 1 holds role 7, role 7 grants permission 9, \<open>assign_role\<close>; user 2 holds role 8,
  which grants permission 10, \<open>view_profile\<close>. Redis is empty.
\<close>

definition demo_user :: "uuid \<Rightarrow> string \<Rightarrow> UserModel" where
  "demo_user i email = \<lparr>um_ID = i, um_Email = email, um_PasswordHash = ''hash:secret'',
     um_FullName = ''A. User'', um_IsActive = True, um_CreatedAt = 0, um_UpdatedAt = 0\<rparr>"

definition demo_tables :: tables where
  "demo_tables = no_tables\<lparr>
     tb_users := [demo_user 1 ''ann@x'', demo_user 2 ''ben@x''],
     tb_roles := [\<lparr>rm_ID = 7, rm_Name = ''admin'', rm_Description = [], rm_CreatedAt = 0\<rparr>,
       \<lparr>rm_ID = 8, rm_Name = ''developer'', rm_Description = [], rm_CreatedAt = 0\<rparr>],
     tb_permissions := [
       \<lparr>pm_ID = 9, pm_Name = ''assign_role'', pm_Resource = ''role'', pm_Action = ''assign'',
        pm_Description = [], pm_CreatedAt = 0\<rparr>,
       \<lparr>pm_ID = 10, pm_Name = ''view_profile'', pm_Resource = ''user'', pm_Action = ''view'',
        pm_Description = [], pm_CreatedAt = 0\<rparr>],
     tb_user_roles := [
       \<lparr>urm_UserID = 1, urm_RoleID = 7, urm_AssignedBy = None, urm_AssignedAt = 0\<rparr>,
       \<lparr>urm_UserID = 2, urm_RoleID = 8, urm_AssignedBy = None, urm_AssignedAt = 0\<rparr>],
     tb_role_permissions := [
       \<lparr>rpm_RoleID = 7, rpm_PermissionID = 9, rpm_GrantedAt = 0\<rparr>,
       \<lparr>rpm_RoleID = 8, rpm_PermissionID = 10, rpm_GrantedAt = 0\<rparr>]\<rparr>"

definition demo :: redis_world where
  "demo = \<lparr>db_base = demo_tables, db_tx = no_tables, db_faults = [], db_clock = 100,
     rw_state = \<lparr>rs_keys = (\<lambda>_. None), rs_now = 0\<rparr>, rw_faults = []\<rparr>"

end
