(* ===== verification/Http.thy ===== *)
theory Http
  imports Platform
begin

text \<open>
  What the handlers use of gin: the request, the keys a middleware sets, the response; the
  error envelope of \<open>internal/httpx\<close>; \<open>strconv.Atoi\<close> and the decimal numbers of
  \<open>fmt\<close>; and the binding of request bodies, which is gin's and an argument.
\<close>

section \<open>Requests, contexts and handlers\<close>

record request =
  rq_Method :: string
  rq_Header :: "string \<Rightarrow> string"
  rq_Param :: "string \<Rightarrow> string"
  rq_Query :: "string \<Rightarrow> string option"
  rq_Body :: string
  rq_ClientIP :: string
  rq_FullPath :: string

text \<open>The values the code puts under a key of the context.\<close>

datatype key_value = VUuid uuid | VString string | VStrings "string list" | VTime time

record gin_context =
  gc_Request :: request
  gc_Keys :: "string \<Rightarrow> key_value option"
  gc_Response :: "(int \<times> json option) option"
  gc_Panicked :: bool

type_synonym 'w handler = "gin_context \<Rightarrow> 'w \<Rightarrow> gin_context \<times> 'w"

text \<open>
  A middleware either calls \<open>c.Next()\<close>, the handlers that come after it, or aborts: it is
  a function of the rest of the chain. (Every middleware of the code does one or the other.)
\<close>

type_synonym 'w middleware = "'w handler \<Rightarrow> 'w handler"

definition chain :: "'w middleware list \<Rightarrow> 'w handler \<Rightarrow> 'w handler" where
  "chain ms h = foldr (\<lambda>m. m) ms h"

lemma chain_simps [simp]: "chain [] h = h" "chain (m # ms) h = m (chain ms h)"
  by (simp_all add: chain_def)

lemma chain_append: "chain (ms @ ns) h = chain ms (chain ns h)"
  by (simp add: chain_def)

definition JSON :: "int \<Rightarrow> json \<Rightarrow> 'w handler" where
  "JSON status j c = Pair (c\<lparr>gc_Response := Some (status, Some j)\<rparr>)"

definition Status :: "int \<Rightarrow> 'w handler" where
  "Status status c = Pair (c\<lparr>gc_Response := Some (status, None)\<rparr>)"

definition setKey :: "string \<Rightarrow> key_value \<Rightarrow> gin_context \<Rightarrow> gin_context" where
  "setKey k v c = c\<lparr>gc_Keys := (gc_Keys c)(k \<mapsto> v)\<rparr>"

text \<open>\<open>httpx.Error\<close>\<close>

definition Error :: "int \<Rightarrow> string \<Rightarrow> string \<Rightarrow> 'w handler" where
  "Error status code message =
     JSON status (JObj [(''error'', JObj [(''code'', JStr code), (''message'', JStr message)])])"

text \<open>
  A panic unwinds the handlers: what a middleware does after \<open>c.Next()\<close> is skipped, up to
  \<open>gin.Recovery\<close>, which answers 500.
\<close>

definition panicked :: "'w handler" where
  "panicked c = Pair (c\<lparr>gc_Panicked := True\<rparr>)"

definition Recovery :: "'w middleware" where
  "Recovery next c = bindS (next c) (\<lambda>c.
     Pair (if gc_Panicked c then c\<lparr>gc_Response := Some (500, None)\<rparr> else c))"

text \<open>\<open>c.Writer.Status()\<close>, 200 as long as nothing was written; \<open>c.DefaultQuery(key, d)\<close>.\<close>

definition Writer_Status :: "gin_context \<Rightarrow> int" where
  "Writer_Status c = (case gc_Response c of None \<Rightarrow> 200 | Some (n, _) \<Rightarrow> n)"

definition DefaultQuery :: "gin_context \<Rightarrow> string \<Rightarrow> string \<Rightarrow> string" where
  "DefaultQuery c key d = (case rq_Query (gc_Request c) key of None \<Rightarrow> d | Some v \<Rightarrow> v)"

definition Param :: "gin_context \<Rightarrow> string \<Rightarrow> string" where
  "Param c key = rq_Param (gc_Request c) key"

text \<open>The context of a request before any handler.\<close>

definition new_context :: "request \<Rightarrow> gin_context" where
  "new_context q = \<lparr>gc_Request = q, gc_Keys = (\<lambda>_. None), gc_Response = None, gc_Panicked = False\<rparr>"

lemma new_context_sel [simp]:
  "gc_Request (new_context q) = q" "gc_Keys (new_context q) = (\<lambda>_. None)"
  "gc_Response (new_context q) = None" "\<not> gc_Panicked (new_context q)"
  by (simp_all add: new_context_def)

definition status_of :: "gin_context \<Rightarrow> int option" where
  "status_of c = map_option fst (gc_Response c)"

text \<open>The request has been answered with a status, and nothing panicked.\<close>

definition answers :: "int \<Rightarrow> gin_context \<Rightarrow> gin_context \<Rightarrow> bool" where
  "answers n c c' \<longleftrightarrow> status_of c' = Some n \<and> gc_Panicked c' = gc_Panicked c"

lemma answers_response [simp]: "answers n c (c\<lparr>gc_Response := Some (m, b)\<rparr>) \<longleftrightarrow> m = n"
  by (auto simp: answers_def status_of_def)

lemma JSON_eq [cmd_simps]:
  "JSON n j c w = (c', w') \<longleftrightarrow> w' = w \<and> c' = c\<lparr>gc_Response := Some (n, Some j)\<rparr>"
  by (auto simp: JSON_def)

lemma Status_eq [cmd_simps]:
  "Status n c w = (c', w') \<longleftrightarrow> w' = w \<and> c' = c\<lparr>gc_Response := Some (n, None)\<rparr>"
  by (auto simp: Status_def)

lemma Error_eq [cmd_simps]:
  "Error n code msg c w = (c', w') \<longleftrightarrow> w' = w \<and> c' = c\<lparr>gc_Response := Some (n, Some (JObj
     [(''error'', JObj [(''code'', JStr code), (''message'', JStr msg)])]))\<rparr>"
  by (auto simp: Error_def JSON_def)

lemma Error_snd [simp]: "snd (Error n code msg c w) = w"
  by (simp add: Error_def JSON_def)

lemma status_simps [simp]:
  "status_of (fst (JSON n j c w)) = Some n" "status_of (fst (Error n code msg c w)) = Some n"
  "status_of (fst (Status n c w)) = Some n" "snd (JSON n j c w) = w" "snd (Status n c w) = w"
  by (simp_all add: status_of_def JSON_def Error_def Status_def)

section \<open>Routes\<close>

text \<open>
  A route group as the list of its routes: method, pattern, and handlers chained. Matching
  a request is gin's: it fills \<open>rq_FullPath\<close>, the pattern, and the parameters.
\<close>

type_synonym 'w route_table = "((string \<times> string) \<times> 'w handler) list"

definition under :: "string \<Rightarrow> 'w route_table \<Rightarrow> 'w route_table" where
  "under prefix rs = map (\<lambda>((m, p), h). ((m, prefix @ p), h)) rs"

definition behind :: "'w middleware \<Rightarrow> 'w route_table \<Rightarrow> 'w route_table" where
  "behind m rs = map (\<lambda>(k, h). (k, m h)) rs"

definition dispatch :: "'w route_table \<Rightarrow> 'w handler" where
  "dispatch rs c =
     (case map_of rs (rq_Method (gc_Request c), rq_FullPath (gc_Request c)) of
        None \<Rightarrow> Status 404 c
      | Some h \<Rightarrow> h c)"

lemma behind_simps [simp]:
  "behind m [] = []" "behind m ((k, h) # rs) = (k, m h) # behind m rs"
  "behind m (rs @ ss) = behind m rs @ behind m ss"
  by (simp_all add: behind_def)

lemma under_simps [simp]:
  "under a [] = []" "under a (((m, p), h) # rs) = ((m, a @ p), h) # under a rs"
  "under a (rs @ ss) = under a rs @ under a ss"
  by (simp_all add: under_def)

lemma set_behind: "(k, h) \<in> set (behind m rs) \<longleftrightarrow> (\<exists>h'. h = m h' \<and> (k, h') \<in> set rs)"
  by (auto simp: behind_def)

lemma dispatch_cases:
  assumes "dispatch rs c w = (c', w')"
  obtains (no_route) "answers 404 c c'" "w' = w"
  | (route) h where "((rq_Method (gc_Request c), rq_FullPath (gc_Request c)), h) \<in> set rs"
      "h c w = (c', w')"
proof (cases "map_of rs (rq_Method (gc_Request c), rq_FullPath (gc_Request c))")
  case None
  with assms show thesis by (intro no_route) (auto simp: dispatch_def cmd_simps)
next
  case (Some h)
  with assms show thesis by (intro route [of h]) (auto simp: dispatch_def dest: map_of_SomeD)
qed

lemma dispatch_known:
  assumes "dispatch rs c w = (c', w')"
    and "(rq_Method (gc_Request c), rq_FullPath (gc_Request c)) \<in> fst ` set rs"
  shows "\<exists>h. ((rq_Method (gc_Request c), rq_FullPath (gc_Request c)), h) \<in> set rs \<and> h c w = (c', w')"
proof (cases "map_of rs (rq_Method (gc_Request c), rq_FullPath (gc_Request c))")
  case None
  with assms(2) show ?thesis by (simp add: map_of_eq_None_iff)
next
  case (Some h)
  with assms(1) show ?thesis by (intro exI [of _ h]) (auto simp: dispatch_def dest: map_of_SomeD)
qed

section \<open>Binding of request bodies\<close>

text \<open>
  A request struct is a list of its string fields with their JSON names and \<open>binding\<close>
  tags. \<open>c.ShouldBindJSON(&req)\<close> gives an error text or the values of the fields.
\<close>

datatype tag = Required | Email | Min nat

type_synonym fields = "(string \<times> tag list) list"

record ginlib =
  gl_ShouldBindJSON :: "fields \<Rightarrow> string \<Rightarrow> string + (string \<Rightarrow> string)"

locale gin_binding =
  fixes GL :: ginlib
  assumes bind_required: "gl_ShouldBindJSON GL fs body = Inr v \<Longrightarrow>
      (f, tags) \<in> set fs \<Longrightarrow> Required \<in> set tags \<Longrightarrow> v f \<noteq> []"
    and bind_min: "gl_ShouldBindJSON GL fs body = Inr v \<Longrightarrow>
      (f, tags) \<in> set fs \<Longrightarrow> Min n \<in> set tags \<Longrightarrow> n \<le> length (v f)"

definition bindJSON ::
  "ginlib \<Rightarrow> fields \<Rightarrow> ((string \<Rightarrow> string) \<Rightarrow> 'w handler) \<Rightarrow> 'w handler" where
  "bindJSON GL fs k c =
     (case gl_ShouldBindJSON GL fs (rq_Body (gc_Request c)) of
        Inl e \<Rightarrow> Error 400 ''invalid_request'' e c
      | Inr req \<Rightarrow> k req c)"

lemma keeps_Pair [keeps_intros]: "keeps obs (Pair a)"
  by (simp add: keeps_def)

lemma keeps_response [keeps_intros]:
  "keeps obs (JSON n j c)" "keeps obs (Error n code msg c)" "keeps obs (Status n c)"
  "keeps obs (panicked c)"
  by (simp_all add: keeps_def panicked_def)

lemma keeps_bindJSON [keeps_intros]:
  "(\<And>req. keeps obs (k req c)) \<Longrightarrow> keeps obs (bindJSON GL fs k c)"
  by (simp add: bindJSON_def keeps_response split: sum.splits)

text \<open>\<open>uuid.Parse\<close> on a text of the request, answered by 400 when it is no identifier.\<close>

definition parseID :: "lib \<Rightarrow> string \<Rightarrow> string \<Rightarrow> (uuid \<Rightarrow> 'w handler) \<Rightarrow> 'w handler" where
  "parseID L s msg k c =
     (case uuid_Parse L s of
        None \<Rightarrow> Error 400 ''invalid_id'' msg c
      | Some i \<Rightarrow> k i c)"

lemma keeps_parseID [keeps_intros]:
  "(\<And>i. keeps obs (k i c)) \<Longrightarrow> keeps obs (parseID L s msg k c)"
  by (simp add: parseID_def keeps_response split: option.splits)

text \<open>A reference binding: bodies are flat objects as \<open>ref_lib\<close> writes them.\<close>

fun tag_ok :: "string \<Rightarrow> tag \<Rightarrow> bool" where
  "tag_ok s Required \<longleftrightarrow> s \<noteq> []"
| "tag_ok s Email \<longleftrightarrow> CHR 0x40 \<in> set s"
| "tag_ok s (Min n) \<longleftrightarrow> n \<le> length s"

definition field_value :: "(string \<times> json) list \<Rightarrow> string \<Rightarrow> string" where
  "field_value fs f = (case map_of fs f of Some (JStr s) \<Rightarrow> s | _ \<Rightarrow> [])"

definition ref_gin :: ginlib where
  "ref_gin = \<lparr>gl_ShouldBindJSON = (\<lambda>fs body.
     case json_Unmarshal ref_lib body of
       Some (JObj os) \<Rightarrow>
         if \<forall>(f, tags)\<in>set fs. \<forall>t\<in>set tags. tag_ok (field_value os f) t
         then Inr (field_value os) else Inl ''validation''
     | _ \<Rightarrow> Inl ''syntax'')\<rparr>"

interpretation ref_gin: gin_binding ref_gin
  by unfold_locales (force simp: ref_gin_def split: option.splits json.splits if_splits)+

section \<open>Numbers\<close>

definition is_digit :: "char \<Rightarrow> bool" where
  "is_digit c \<longleftrightarrow> (let n = of_char c :: nat in 48 \<le> n \<and> n \<le> 57)"

fun digits_value :: "int \<Rightarrow> string \<Rightarrow> int" where
  "digits_value acc [] = acc"
| "digits_value acc (c # s) = digits_value (10 * acc + (of_char c - 48)) s"

text \<open>
  \<open>n, _ := strconv.Atoi(s)\<close>, the error dropped: 0 for a text that is not a number, and the
  nearest 64-bit integer for a number out of range.
\<close>

definition Atoi :: "string \<Rightarrow> int" where
  "Atoi s =
     (let neg = (s \<noteq> [] \<and> hd s = CHR ''-'');
          ds = (if s \<noteq> [] \<and> (hd s = CHR ''-'' \<or> hd s = CHR ''+'') then tl s else s)
      in if ds = [] \<or> \<not> list_all is_digit ds then 0
         else if neg then max (- digits_value 0 ds) (- (2 ^ 63))
         else min (digits_value 0 ds) (2 ^ 63 - 1))"

text \<open>\<open>%d\<close>\<close>

definition digit :: "nat \<Rightarrow> char" where
  "digit n = char_of (48 + n)"

fun dec_nat :: "nat \<Rightarrow> string" where
  "dec_nat n = (if n < 10 then [digit n] else dec_nat (n div 10) @ [digit (n mod 10)])"

declare dec_nat.simps [simp del]

definition dec_int :: "int \<Rightarrow> string" where
  "dec_int i = (if i < 0 then CHR ''-'' # dec_nat (nat (- i)) else dec_nat (nat i))"

lemma of_char_digit [simp]:
  "n < 10 \<Longrightarrow> (of_char (digit n) :: nat) = 48 + n" "n < 10 \<Longrightarrow> (of_char (digit n) :: int) = 48 + int n"
proof -
  show nat: "n < 10 \<Longrightarrow> (of_char (digit n) :: nat) = 48 + n" by (simp add: digit_def)
  show "n < 10 \<Longrightarrow> (of_char (digit n) :: int) = 48 + int n"
    using nat by (subst of_nat_of_char [symmetric]) simp
qed

lemma digits_value_append: "digits_value acc (s @ t) = digits_value (digits_value acc s) t"
  by (induction s arbitrary: acc) auto

lemma is_digit_digit [simp]: "n < 10 \<Longrightarrow> is_digit (digit n)"
  by (simp add: is_digit_def Let_def)

lemma dec_nat_digits:
  "list_all is_digit (dec_nat n) \<and> digits_value 0 (dec_nat n) = int n \<and> dec_nat n \<noteq> []"
proof (induction n rule: dec_nat.induct)
  case (1 n)
  show ?case
  proof (cases "n < 10")
    case True
    then show ?thesis by (subst (1 2 3) dec_nat.simps) simp
  next
    case False
    have "n mod 10 < 10" by simp
    moreover have "10 * int (n div 10) + int (n mod 10) = int n" by presburger
    moreover have "dec_nat n = dec_nat (n div 10) @ [digit (n mod 10)]"
      using False by (subst dec_nat.simps) simp
    ultimately show ?thesis
      using 1 [OF False] by (simp add: digits_value_append)
  qed
qed

lemma digits_value_mono: "0 \<le> a \<Longrightarrow> list_all is_digit s \<Longrightarrow> 0 \<le> digits_value a s"
proof (induction s arbitrary: a)
  case Nil
  then show ?case by simp
next
  case (Cons c s)
  then have "48 \<le> (of_char c :: nat)" by (simp add: is_digit_def Let_def)
  then have "48 \<le> (of_char c :: int)" by (subst of_nat_of_char [symmetric]) simp
  with Cons show ?case by simp
qed

lemma dec_nat_not_sign: "hd (dec_nat n) \<noteq> CHR ''-'' \<and> hd (dec_nat n) \<noteq> CHR ''+''"
proof -
  have "is_digit (hd (dec_nat n))" using dec_nat_digits [of n] by (cases "dec_nat n") auto
  then show ?thesis by (auto simp: is_digit_def Let_def)
qed

lemma Atoi_nat: "Atoi (dec_nat n) = min (int n) (2 ^ 63 - 1)"
  using dec_nat_digits [of n] dec_nat_not_sign [of n] by (simp add: Atoi_def Let_def)

lemma dec_nat_inj: "dec_nat m = dec_nat n \<Longrightarrow> m = n"
  by (metis dec_nat_digits of_nat_eq_iff)

lemma dec_nat_no_sign: "dec_nat n \<noteq> CHR ''-'' # s"
  using dec_nat_not_sign [of n] by (cases "dec_nat n") auto

lemma dec_int_inj: "dec_int i = dec_int j \<longleftrightarrow> i = j"
proof
  assume "dec_int i = dec_int j"
  then show "i = j"
    by (cases "i < 0"; cases "j < 0")
      (auto simp: dec_int_def dec_nat_no_sign dec_nat_no_sign [symmetric] dest: dec_nat_inj)
qed simp

text \<open>
  Limits and offsets of the lists: every answer of \<open>Atoi\<close> is a 64-bit integer, and every
  64-bit integer comes back from its decimal text.
\<close>

lemma Atoi_bounds: "- (2 ^ 63) \<le> Atoi s \<and> Atoi s < 2 ^ 63"
proof -
  have "list_all is_digit t \<Longrightarrow> - (2 ^ 63) \<le> digits_value 0 t \<and> - digits_value 0 t < 2 ^ 63" for t
    using digits_value_mono [of 0 t] by simp
  then show ?thesis by (auto simp: Atoi_def Let_def)
qed

lemma Atoi_dec_int:
  assumes "- (2 ^ 63) \<le> i" and "i < 2 ^ 63"
  shows "Atoi (dec_int i) = i"
proof (cases "i < 0")
  case True
  with assms dec_nat_digits [of "nat (- i)"] show ?thesis
    by (simp add: Atoi_def Let_def dec_int_def)
next
  case False
  with assms show ?thesis by (simp add: dec_int_def Atoi_nat)
qed

end
