(* ===== verification/Middleware.thy ===== *)
theory Middleware
  imports Http Cache Jwt "HOL-Library.Signed_Division"
begin

text \<open>
  \<open>internal/middleware\<close>: the checks in front of the handlers, \<open>JWTAuth\<close>,
  \<open>RequirePermission\<close> and \<open>RateLimit\<close>, and the request metrics. For each: when it lets a
  request through, and what it answers otherwise.
\<close>

type_synonym 'w AuthorizeFunc = "ctx \<Rightarrow> uuid \<Rightarrow> string \<Rightarrow> ('w, error, bool) cmd"

section \<open>rbac_check.go\<close>

definition RequirePermission :: "'w AuthorizeFunc \<Rightarrow> string \<Rightarrow> 'w middleware" where
  "RequirePermission authorize permission next c =
     (case gc_Keys c ''user_id'' of
        None \<Rightarrow> Error 401 ''unauthenticated'' ''authentication required'' c
      | Some userIDVal \<Rightarrow>
          (case userIDVal of
             VUuid userID \<Rightarrow>
               bindS (authorize Background userID permission) (\<lambda>r.
               case r of
                 Inl e \<Rightarrow> Error 500 ''internal_error'' ''could not verify permission'' c
               | Inr allowed \<Rightarrow>
                   if \<not> allowed
                   then Error 403 ''permission_denied''
                     ''you do not have permission to perform this action'' c
                   else next c)
           | _ \<Rightarrow> Error 401 ''unauthenticated'' ''authentication required'' c))"

text \<open>The caller, as a handler behind \<open>JWTAuth\<close> finds him.\<close>

definition caller :: "gin_context \<Rightarrow> uuid option" where
  "caller c = (case gc_Keys c ''user_id'' of Some (VUuid u) \<Rightarrow> Some u | _ \<Rightarrow> None)"

lemma RequirePermission_cases:
  assumes "RequirePermission authorize p next c w = (c', w')"
  obtains (unauthenticated) "caller c = None" "answers 401 c c'" "w' = w"
  | (unverified) u e where "caller c = Some u" "authorize Background u p w = (Inl e, w')"
      "answers 500 c c'"
  | (denied) u where "caller c = Some u" "authorize Background u p w = (Inr False, w')"
      "answers 403 c c'"
  | (allowed) u w1 where "caller c = Some u" "authorize Background u p w = (Inr True, w1)"
      "next c w1 = (c', w')"
proof (cases "caller c")
  case None
  then have "RequirePermission authorize p next c w =
      Error 401 ''unauthenticated'' ''authentication required'' c w"
    by (auto simp: RequirePermission_def caller_def split: option.splits key_value.splits)
  with assms None show thesis by (intro unauthenticated) (auto simp: cmd_simps)
next
  case (Some u)
  obtain r w1 where a: "authorize Background u p w = (r, w1)" by force
  from Some have "gc_Keys c ''user_id'' = Some (VUuid u)"
    by (auto simp: caller_def split: option.splits key_value.splits)
  with assms a have run: "(case r of
      Inl e \<Rightarrow> Error 500 ''internal_error'' ''could not verify permission'' c
    | Inr allowed \<Rightarrow> if \<not> allowed
        then Error 403 ''permission_denied'' ''you do not have permission to perform this action'' c
        else next c) w1 = (c', w')"
    by (simp add: RequirePermission_def bindS_def)
  show thesis
  proof (cases r)
    case (Inl e)
    with run a Some show thesis by (intro unverified) (auto simp: cmd_simps)
  next
    case (Inr b)
    with run a Some show thesis
      by (cases b) (auto simp: cmd_simps intro: denied allowed)
  qed
qed

section \<open>jwt_auth.go\<close>

definition set_claims :: "Claims \<Rightarrow> gin_context \<Rightarrow> gin_context" where
  "set_claims claims c =
     (let c = setKey ''user_id'' (VUuid (cl_UserID claims)) c;
          c = setKey ''roles'' (VStrings (cl_Roles claims)) c;
          c = setKey ''jti'' (VString (cl_ID claims)) c
      in case cl_ExpiresAt claims of
           None \<Rightarrow> c
         | Some t \<Rightarrow> setKey ''token_exp'' (VTime t) c)"

definition JWTAuth ::
  "jwtlib \<Rightarrow> 'w runtime \<Rightarrow> Manager \<Rightarrow> 'w Blacklist option \<Rightarrow> 'w middleware" where
  "JWTAuth J RT mgr bl next c =
     (let header = rq_Header (gc_Request c) ''Authorization'' in
      if take 7 header \<noteq> ''Bearer ''
      then Error 401 ''missing_token'' ''authorization header is required'' c
      else
        (let tokenStr = drop 7 header in
         bindS (Parse J RT mgr tokenStr) (\<lambda>r.
         case r of
           Inl err \<Rightarrow> Error 401 ''invalid_token'' ''token is invalid or expired'' c
         | Inr claims \<Rightarrow>
             bindS (IsBlacklisted bl (cl_ID claims)) (\<lambda>revoked.
             if revoked then Error 401 ''token_revoked'' ''this token has been revoked'' c
             else next (set_claims claims c)))))"

lemma caller_set_claims [simp]: "caller (set_claims cl c) = Some (cl_UserID cl)"
  by (simp add: caller_def set_claims_def setKey_def Let_def split: option.splits)

lemma set_claims_sel [simp]:
  "gc_Request (set_claims cl c) = gc_Request c" "gc_Response (set_claims cl c) = gc_Response c"
  "gc_Panicked (set_claims cl c) = gc_Panicked c"
  by (simp_all add: set_claims_def setKey_def Let_def split: option.splits)

lemma set_claims_keys [simp]:
  "gc_Keys (set_claims cl c) ''jti'' = Some (VString (cl_ID cl))"
  "gc_Keys (set_claims cl c) ''user_id'' = Some (VUuid (cl_UserID cl))"
  "cl_ExpiresAt cl = Some t \<Longrightarrow> gc_Keys (set_claims cl c) ''token_exp'' = Some (VTime t)"
  by (simp_all add: set_claims_def setKey_def Let_def split: option.splits)

lemma JWTAuth_cases:
  assumes "JWTAuth J RT mgr bl next c w = (c', w')"
  obtains (missing) "answers 401 c c'" "w' = w"
      "take 7 (rq_Header (gc_Request c) ''Authorization'') \<noteq> ''Bearer ''"
  | (invalid) e where "answers 401 c c'"
      "Parse J RT mgr (drop 7 (rq_Header (gc_Request c) ''Authorization'')) w = (Inl e, w')"
  | (revoked) cl w1 where "answers 401 c c'"
      "Parse J RT mgr (drop 7 (rq_Header (gc_Request c) ''Authorization'')) w = (Inr cl, w1)"
      "IsBlacklisted bl (cl_ID cl) w1 = (True, w')"
  | (valid) cl w1 w2 where
      "take 7 (rq_Header (gc_Request c) ''Authorization'') = ''Bearer ''"
      "Parse J RT mgr (drop 7 (rq_Header (gc_Request c) ''Authorization'')) w = (Inr cl, w1)"
      "IsBlacklisted bl (cl_ID cl) w1 = (False, w2)"
      "next (set_claims cl c) w2 = (c', w')"
proof (cases "take 7 (rq_Header (gc_Request c) ''Authorization'') = ''Bearer ''")
  case False
  with assms show thesis
    by (intro missing) (auto simp: JWTAuth_def cmd_simps)
next
  case True
  obtain r w1 where p: "Parse J RT mgr (drop 7 (rq_Header (gc_Request c) ''Authorization'')) w = (r, w1)"
    by force
  show thesis
  proof (cases r)
    case (Inl e)
    with assms True p show thesis
      by (intro invalid) (auto simp: JWTAuth_def bindS_def cmd_simps)
  next
    case (Inr cl)
    obtain b w2 where b: "IsBlacklisted bl (cl_ID cl) w1 = (b, w2)" by (metis surj_pair)
    from assms True p Inr b show thesis
      by (cases b) (auto simp: JWTAuth_def bindS_def cmd_simps intro: revoked valid)
  qed
qed

section \<open>rate_limit.go\<close>

definition ratelimit_key :: "string \<Rightarrow> int \<Rightarrow> string" where
  "ratelimit_key ip windowID = ''ratelimit:'' @ ip @ '':'' @ dec_int windowID"

definition windowID :: "time \<Rightarrow> duration \<Rightarrow> int" where
  "windowID now window = (now div second) sdiv (window sdiv second)"

definition RateLimit ::
  "'w runtime \<Rightarrow> 'w redis option \<Rightarrow> int \<Rightarrow> duration \<Rightarrow> 'w middleware" where
  "RateLimit RT rdb limit window next c =
     (case rdb of
        None \<Rightarrow> next c
      | Some rdb \<Rightarrow>
          bindS (rt_Now RT) (\<lambda>now.
          if window sdiv second = 0 then panicked c
          else
            (let key = ratelimit_key (rq_ClientIP (gc_Request c)) (windowID now window) in
             bindS (rd_Incr rdb key) (\<lambda>r.
             case r of
               Inl err \<Rightarrow> next c
             | Inr n \<Rightarrow>
                 bindS (if n = 1 then rd_Expire rdb key window else okE ()) (\<lambda>_.
                 if n > limit
                 then Error 429 ''rate_limited'' ''too many requests, please try again shortly'' c
                 else next c)))))"

section \<open>metrics.go\<close>

definition HTTPMetrics :: "'w runtime \<Rightarrow> 'w middleware" where
  "HTTPMetrics RT next c =
     bindS (rt_Now RT) (\<lambda>start.
     bindS (next c) (\<lambda>c.
     if gc_Panicked c then Pair c
     else bindS (rt_Now RT) (\<lambda>now.
       doS (rt_Observe RT (rq_Method (gc_Request c)) (rq_FullPath (gc_Request c))
         (Writer_Status c) (now - start)) (Pair c))))"

section \<open>tracing.go\<close>

text \<open>
  What the middleware uses of OpenTelemetry: starting a span for a request, under the trace
  context its headers carry, setting attributes, and ending it. (\<open>defer\<close> ends it on a panic too.)
\<close>

type_synonym span = nat

record 'w tracer =
  tr_Start :: "request \<Rightarrow> string \<Rightarrow> 'w \<Rightarrow> span \<times> 'w"
  tr_SetString :: "span \<Rightarrow> string \<Rightarrow> string \<Rightarrow> 'w \<Rightarrow> 'w"
  tr_SetInt :: "span \<Rightarrow> string \<Rightarrow> int \<Rightarrow> 'w \<Rightarrow> 'w"
  tr_End :: "span \<Rightarrow> 'w \<Rightarrow> 'w"

definition Tracing :: "'w tracer \<Rightarrow> 'w middleware" where
  "Tracing TR next c =
     bindS (tr_Start TR (gc_Request c) (rq_Method (gc_Request c) @ '' '' @ rq_FullPath (gc_Request c)))
     (\<lambda>span.
     doS (tr_SetString TR span ''http.method'' (rq_Method (gc_Request c)))
     (doS (tr_SetString TR span ''http.path'' (rq_FullPath (gc_Request c)))
     (bindS (next c) (\<lambda>c.
     if gc_Panicked c then doS (tr_End TR span) (Pair c)
     else doS (tr_SetInt TR span ''http.status_code'' (Writer_Status c))
       (doS (tr_End TR span) (Pair c))))))"

locale quiet_tracer =
  fixes V :: "('c, 'w, 's, 'o) window" and TR :: "'w tracer"
  assumes Start_silent: "silent V (tr_Start TR q name)"
    and SetString_seen: "seen V c (tr_SetString TR sp k x w) = seen V c w"
    and SetString_up: "up V w \<Longrightarrow> up V (tr_SetString TR sp k x w)"
    and SetInt_seen: "seen V c (tr_SetInt TR sp k n w) = seen V c w"
    and SetInt_up: "up V w \<Longrightarrow> up V (tr_SetInt TR sp k n w)"
    and End_seen: "seen V c (tr_End TR sp w) = seen V c w"
    and End_up: "up V w \<Longrightarrow> up V (tr_End TR sp w)"

text \<open>A reference tracer, which records nothing.\<close>

definition ref_tracer :: "'w tracer" where
  "ref_tracer = \<lparr>tr_Start = (\<lambda>q name. Pair 0), tr_SetString = (\<lambda>_ _ _ w. w),
     tr_SetInt = (\<lambda>_ _ _ w. w), tr_End = (\<lambda>_ w. w)\<rparr>"

interpretation ref_quiet_tracer: quiet_tracer V ref_tracer for V
  by unfold_locales (simp_all add: ref_tracer_def silent_def)

end
