(* ===== verification/AuthHandler.thy ===== *)
theory AuthHandler
  imports Middleware AuthService
begin

text \<open>\<open>internal/auth/handler.go\<close>: the endpoints of signup, login, refresh and logout.\<close>

definition signupRequest :: fields where
  "signupRequest =
     [(''email'', [Required, Email]), (''password'', [Required, Min 8]), (''full_name'', [])]"

definition loginRequest :: fields where
  "loginRequest = [(''email'', [Required, Email]), (''password'', [Required])]"

definition refreshRequest :: fields where
  "refreshRequest = [(''refresh_token'', [Required])]"

definition auth_Signup :: "lib \<Rightarrow> ginlib \<Rightarrow> 'w runtime \<Rightarrow> 'w AuthService \<Rightarrow> 'w handler" where
  "auth_Signup L GL RT S = bindJSON GL signupRequest (\<lambda>req c.
     bindS (Signup RT S Background (req ''email'') (req ''password'') (req ''full_name'')) (\<lambda>r.
     case r of
       Inl err \<Rightarrow>
         if err = ErrAlreadyExists
         then Error 409 ''email_taken'' ''an account with this email already exists'' c
         else Error 500 ''internal_error'' ''could not create account'' c
     | Inr u \<Rightarrow>
         JSON 201 (JObj [(''id'', JStr (uuid_String L (u_ID u))), (''email'', JStr (u_Email u))]) c))"

definition token_pair :: "TokenPair \<Rightarrow> json" where
  "token_pair pair = JObj [(''access_token'', JStr (tp_AccessToken pair)),
     (''refresh_token'', JStr (tp_RefreshToken pair))]"

definition auth_Login ::
  "lib \<Rightarrow> ginlib \<Rightarrow> jwtlib \<Rightarrow> 'w runtime \<Rightarrow> 'w AuthService \<Rightarrow> 'w handler" where
  "auth_Login L GL J RT S = bindJSON GL loginRequest (\<lambda>req c.
     bindS (Login L J RT S Background (req ''email'') (req ''password'')) (\<lambda>r.
     case r of
       Inl err \<Rightarrow> Error 401 ''invalid_credentials'' ''email or password is incorrect'' c
     | Inr pair \<Rightarrow> JSON 200 (token_pair pair) c))"

definition auth_Refresh ::
  "lib \<Rightarrow> ginlib \<Rightarrow> jwtlib \<Rightarrow> 'w runtime \<Rightarrow> 'w AuthService \<Rightarrow> 'w handler" where
  "auth_Refresh L GL J RT S = bindJSON GL refreshRequest (\<lambda>req c.
     bindS (Refresh L J RT S Background (req ''refresh_token'')) (\<lambda>r.
     case r of
       Inl err \<Rightarrow> Error 401 ''invalid_refresh_token'' ''refresh token is invalid or expired'' c
     | Inr pair \<Rightarrow> JSON 200 (token_pair pair) c))"

text \<open>
  The \<open>jti\<close> and the expiry that \<open>JWTAuth\<close> has put into the context; a missing value is
  the zero value of its type, for a \<open>time.Time\<close> the start of the year 1, here counted from the
  Unix epoch. \<open>time.Until(exp)\<close>.
\<close>

definition jtiStr :: "gin_context \<Rightarrow> string" where
  "jtiStr c = (case gc_Keys c ''jti'' of Some (VString s) \<Rightarrow> s | _ \<Rightarrow> [])"

definition zero_time :: time where
  "zero_time = - 62135596800 * second"

definition token_exp :: "gin_context \<Rightarrow> time" where
  "token_exp c = (case gc_Keys c ''token_exp'' of Some (VTime t) \<Rightarrow> t | _ \<Rightarrow> zero_time)"

definition auth_Logout :: "lib \<Rightarrow> ginlib \<Rightarrow> 'w runtime \<Rightarrow> 'w AuthService \<Rightarrow> 'w handler" where
  "auth_Logout L GL RT S = bindJSON GL refreshRequest (\<lambda>req c.
     bindS (rt_Now RT) (\<lambda>now.
     let remaining = token_exp c - now in
     bindS (Logout L S Background (req ''refresh_token'') (jtiStr c) remaining) (\<lambda>_.
     JSON 200 (JObj [(''message'', JStr ''logged out'')]) c)))"

definition auth_RegisterRoutes ::
  "lib \<Rightarrow> ginlib \<Rightarrow> jwtlib \<Rightarrow> 'w runtime \<Rightarrow> 'w AuthService \<Rightarrow> 'w route_table" where
  "auth_RegisterRoutes L GL J RT S =
     [((''POST'', ''/signup''), auth_Signup L GL RT S),
      ((''POST'', ''/login''), auth_Login L GL J RT S),
      ((''POST'', ''/refresh''), auth_Refresh L GL J RT S)]"

definition auth_RegisterProtectedRoutes ::
  "lib \<Rightarrow> ginlib \<Rightarrow> 'w runtime \<Rightarrow> 'w AuthService \<Rightarrow> 'w route_table" where
  "auth_RegisterProtectedRoutes L GL RT S = [((''POST'', ''/logout''), auth_Logout L GL RT S)]"

end
