(* ===== verification/RbacHandler.thy ===== *)
theory RbacHandler
  imports Middleware RbacService
begin

text \<open>\<open>internal/rbac/handler.go\<close>: the endpoints of roles, permissions and assignments.\<close>

record 'w RbacHandler =
  rh_svc :: "'w RbacService"
  rh_authorize :: "'w AuthorizeFunc"

section \<open>What the entities look like in JSON\<close>

definition rbac_NewHandler :: "'w RbacService \<Rightarrow> 'w AuthorizeFunc \<Rightarrow> 'w RbacHandler" where
  "rbac_NewHandler svc authorize = \<lparr>rh_svc = svc, rh_authorize = authorize\<rparr>"

definition role_json :: "lib \<Rightarrow> Role \<Rightarrow> json" where
  "role_json L r = JObj [(''ID'', JStr (uuid_String L (r_ID r))), (''Name'', JStr (r_Name r)),
     (''Description'', JStr (r_Description r)), (''CreatedAt'', JStr (time_Text L (r_CreatedAt r)))]"

definition perm_json :: "lib \<Rightarrow> Permission \<Rightarrow> json" where
  "perm_json L p = JObj [(''ID'', JStr (uuid_String L (p_ID p))), (''Name'', JStr (p_Name p)),
     (''Resource'', JStr (p_Resource p)), (''Action'', JStr (p_Action p)),
     (''Description'', JStr (p_Description p)), (''CreatedAt'', JStr (time_Text L (p_CreatedAt p)))]"

section \<open>Roles\<close>

definition createRoleRequest :: fields where
  "createRoleRequest = [(''name'', [Required]), (''description'', [])]"

definition rbac_CreateRole :: "lib \<Rightarrow> ginlib \<Rightarrow> 'w RbacHandler \<Rightarrow> 'w handler" where
  "rbac_CreateRole L GL H = bindJSON GL createRoleRequest (\<lambda>req c.
     bindS (CreateRole (rh_svc H) Background (req ''name'') (req ''description'')) (\<lambda>r.
     case r of
       Inl err \<Rightarrow> Error 500 ''internal_error'' ''could not create role'' c
     | Inr role \<Rightarrow> JSON 201 (role_json L role) c))"

definition rbac_ListRoles :: "lib \<Rightarrow> 'w RbacHandler \<Rightarrow> 'w handler" where
  "rbac_ListRoles L H c =
     bindS (ListRoles (rh_svc H) Background) (\<lambda>r.
     case r of
       Inl err \<Rightarrow> Error 500 ''internal_error'' ''could not list roles'' c
     | Inr roles \<Rightarrow> JSON 200 (JArr (map (role_json L) roles)) c)"

definition rbac_DeleteRole :: "lib \<Rightarrow> 'w RbacHandler \<Rightarrow> 'w handler" where
  "rbac_DeleteRole L H c = parseID L (Param c ''id'') ''invalid role id'' (\<lambda>i c.
     bindS (DeleteRole (rh_svc H) Background i) (\<lambda>r.
     case r of
       Inl err \<Rightarrow> Error 500 ''internal_error'' ''could not delete role'' c
     | Inr _ \<Rightarrow> Status 204 c)) c"

section \<open>Permissions\<close>

definition createPermissionRequest :: fields where
  "createPermissionRequest = [(''name'', [Required]), (''resource'', [Required]),
     (''action'', [Required]), (''description'', [])]"

definition rbac_CreatePermission :: "lib \<Rightarrow> ginlib \<Rightarrow> 'w RbacHandler \<Rightarrow> 'w handler" where
  "rbac_CreatePermission L GL H = bindJSON GL createPermissionRequest (\<lambda>req c.
     bindS (CreatePermission (rh_svc H) Background (req ''name'') (req ''resource'') (req ''action'')
       (req ''description'')) (\<lambda>r.
     case r of
       Inl err \<Rightarrow> Error 500 ''internal_error'' ''could not create permission'' c
     | Inr p \<Rightarrow> JSON 201 (perm_json L p) c))"

definition rbac_ListPermissions :: "lib \<Rightarrow> 'w RbacHandler \<Rightarrow> 'w handler" where
  "rbac_ListPermissions L H c =
     bindS (ListPermissions (rh_svc H) Background) (\<lambda>r.
     case r of
       Inl err \<Rightarrow> Error 500 ''internal_error'' ''could not list permissions'' c
     | Inr perms \<Rightarrow> JSON 200 (JArr (map (perm_json L) perms)) c)"

definition rbac_DeletePermission :: "lib \<Rightarrow> 'w RbacHandler \<Rightarrow> 'w handler" where
  "rbac_DeletePermission L H c = parseID L (Param c ''id'') ''invalid permission id'' (\<lambda>i c.
     bindS (DeletePermission (rh_svc H) Background i) (\<lambda>r.
     case r of
       Inl err \<Rightarrow> Error 500 ''internal_error'' ''could not delete permission'' c
     | Inr _ \<Rightarrow> Status 204 c)) c"

section \<open>Assignments\<close>

definition assignRoleRequest :: fields where
  "assignRoleRequest = [(''role_id'', [Required])]"

text \<open>\<open>actorID, _ := c.Get("user_id"); actor, _ := actorID.(uuid.UUID)\<close>\<close>

definition actor_of :: "gin_context \<Rightarrow> uuid" where
  "actor_of c = (case gc_Keys c ''user_id'' of Some (VUuid u) \<Rightarrow> u | _ \<Rightarrow> 0)"

definition rbac_AssignRole :: "lib \<Rightarrow> ginlib \<Rightarrow> 'w runtime \<Rightarrow> 'w RbacHandler \<Rightarrow> 'w handler" where
  "rbac_AssignRole L GL RT H c = parseID L (Param c ''id'') ''invalid user id'' (\<lambda>userID.
     bindJSON GL assignRoleRequest (\<lambda>req.
     parseID L (req ''role_id'') ''invalid role id'' (\<lambda>roleID c.
     bindS (AssignRoleToUser L RT (rh_svc H) Background userID roleID (actor_of c)) (\<lambda>r.
     case r of
       Inl err \<Rightarrow> Error 500 ''internal_error'' ''could not assign role'' c
     | Inr _ \<Rightarrow> JSON 200 (JObj [(''message'', JStr ''role assigned'')]) c)))) c"

definition rbac_RemoveRole :: "lib \<Rightarrow> 'w RbacHandler \<Rightarrow> 'w handler" where
  "rbac_RemoveRole L H c = parseID L (Param c ''id'') ''invalid user id'' (\<lambda>userID c.
     parseID L (Param c ''roleId'') ''invalid role id'' (\<lambda>roleID c.
     bindS (RemoveRoleFromUser L (rh_svc H) Background userID roleID) (\<lambda>r.
     case r of
       Inl err \<Rightarrow> Error 500 ''internal_error'' ''could not remove role'' c
     | Inr _ \<Rightarrow> Status 204 c)) c) c"

definition attachPermissionRequest :: fields where
  "attachPermissionRequest = [(''permission_id'', [Required])]"

definition rbac_AttachPermission :: "lib \<Rightarrow> ginlib \<Rightarrow> 'w RbacHandler \<Rightarrow> 'w handler" where
  "rbac_AttachPermission L GL H c = parseID L (Param c ''id'') ''invalid role id'' (\<lambda>roleID.
     bindJSON GL attachPermissionRequest (\<lambda>req.
     parseID L (req ''permission_id'') ''invalid permission id'' (\<lambda>permID c.
     bindS (AttachPermissionToRole L (rh_svc H) Background roleID permID) (\<lambda>r.
     case r of
       Inl err \<Rightarrow> Error 500 ''internal_error'' ''could not attach permission'' c
     | Inr _ \<Rightarrow> JSON 200 (JObj [(''message'', JStr ''permission attached'')]) c)))) c"

section \<open>The check as an endpoint\<close>

definition authorizeRequest :: fields where
  "authorizeRequest = [(''user_id'', [Required]), (''permission'', [Required])]"

definition rbac_Authorize :: "lib \<Rightarrow> ginlib \<Rightarrow> 'w RbacHandler \<Rightarrow> 'w handler" where
  "rbac_Authorize L GL H = bindJSON GL authorizeRequest (\<lambda>req.
     parseID L (req ''user_id'') ''invalid user id'' (\<lambda>userID c.
     bindS (rh_authorize H Background userID (req ''permission'')) (\<lambda>r.
     case r of
       Inl err \<Rightarrow> Error 500 ''internal_error'' ''could not check permission'' c
     | Inr allowed \<Rightarrow>
         JSON 200 (JObj [(''allowed'', JBool allowed), (''permission'', JStr (req ''permission''))]) c)))"

section \<open>The routes\<close>

definition rbac_RegisterRoutes ::
  "lib \<Rightarrow> ginlib \<Rightarrow> 'w runtime \<Rightarrow> 'w RbacHandler \<Rightarrow> 'w route_table" where
  "rbac_RegisterRoutes L GL RT H =
     (let manage = RequirePermission (rh_authorize H) ''assign_role'' in
      [((''POST'', ''/roles''), manage (rbac_CreateRole L GL H)),
       ((''GET'', ''/roles''), rbac_ListRoles L H),
       ((''DELETE'', ''/roles/:id''), manage (rbac_DeleteRole L H)),
       ((''POST'', ''/permissions''), manage (rbac_CreatePermission L GL H)),
       ((''GET'', ''/permissions''), rbac_ListPermissions L H),
       ((''DELETE'', ''/permissions/:id''), manage (rbac_DeletePermission L H)),
       ((''POST'', ''/users/:id/roles''), manage (rbac_AssignRole L GL RT H)),
       ((''DELETE'', ''/users/:id/roles/:roleId''), manage (rbac_RemoveRole L H)),
       ((''POST'', ''/roles/:id/permissions''), manage (rbac_AttachPermission L GL H)),
       ((''POST'', ''/authorize''), rbac_Authorize L GL H)])"

end
