(* ===== verification/UserHandler.thy ===== *)
theory UserHandler
  imports Middleware UserService
begin

text \<open>
  \<open>internal/user/handler.go\<close>: the endpoints of the users, with the rule that everybody may
  read and rename himself, and others with a permission only.
\<close>

record 'w UserHandler =
  uh_svc :: "'w UserService"
  uh_authorize :: "'w AuthorizeFunc"

definition user_NewHandler :: "'w UserService \<Rightarrow> 'w AuthorizeFunc \<Rightarrow> 'w UserHandler" where
  "user_NewHandler svc authorize = \<lparr>uh_svc = svc, uh_authorize = authorize\<rparr>"

text \<open>\<open>domain.User\<close> carries no JSON tags: every field goes out, under its Go name.\<close>

definition user_json :: "lib \<Rightarrow> User \<Rightarrow> json" where
  "user_json L u = JObj [(''ID'', JStr (uuid_String L (u_ID u))), (''Email'', JStr (u_Email u)),
     (''PasswordHash'', JStr (u_PasswordHash u)), (''FullName'', JStr (u_FullName u)),
     (''IsActive'', JBool (u_IsActive u)), (''CreatedAt'', JStr (time_Text L (u_CreatedAt u))),
     (''UpdatedAt'', JStr (time_Text L (u_UpdatedAt u)))]"

text \<open>\<open>callerID, ok := c.MustGet("user_id").(uuid.UUID)\<close>: a panic if the key is missing.\<close>

definition mustGetCaller :: "(uuid \<Rightarrow> 'w handler) \<Rightarrow> 'w handler" where
  "mustGetCaller k c =
     (case gc_Keys c ''user_id'' of
        None \<Rightarrow> panicked c
      | Some v \<Rightarrow> (case v of
          VUuid callerID \<Rightarrow> k callerID c
        | _ \<Rightarrow> Error 401 ''unauthenticated'' ''authentication required'' c))"

definition hasPermission :: "'w UserHandler \<Rightarrow> ctx \<Rightarrow> uuid \<Rightarrow> string \<Rightarrow> 'w \<Rightarrow> bool \<times> 'w" where
  "hasPermission H ct userID permission =
     bindS (uh_authorize H ct userID permission) (\<lambda>r.
     Pair (case r of Inl err \<Rightarrow> False | Inr allowed \<Rightarrow> allowed))"

definition userH_List :: "lib \<Rightarrow> 'w UserHandler \<Rightarrow> 'w handler" where
  "userH_List L H = mustGetCaller (\<lambda>callerID c.
     bindS (uh_authorize H Background callerID ''view_users'') (\<lambda>r.
     case r of
       Inl err \<Rightarrow> Error 500 ''internal_error'' ''could not verify permission'' c
     | Inr allowed \<Rightarrow>
         if \<not> allowed
         then Error 403 ''permission_denied'' ''you do not have permission to list users'' c
         else
           (let limit = Atoi (DefaultQuery c ''limit'' ''20'');
                offset = Atoi (DefaultQuery c ''offset'' ''0'') in
            bindS (userSvc_List (uh_svc H) Background limit offset) (\<lambda>r.
            case r of
              Inl err \<Rightarrow> Error 500 ''internal_error'' ''could not list users'' c
            | Inr (users, n) \<Rightarrow>
                JSON 200 (JObj [(''users'', JArr (map (user_json L) users)), (''total'', JNum n)]) c))))"

text \<open>\<open>if callerID != targetID { if !h.hasPermission(\<dots>) { \<dots> return } }\<close>\<close>

definition selfOr :: "'w UserHandler \<Rightarrow> uuid \<Rightarrow> uuid \<Rightarrow> string \<Rightarrow> string \<Rightarrow> 'w handler \<Rightarrow> 'w handler" where
  "selfOr H callerID targetID permission msg k c =
     bindS (if callerID \<noteq> targetID then hasPermission H Background callerID permission else Pair True)
       (\<lambda>allowed. if \<not> allowed then Error 403 ''permission_denied'' msg c else k c)"

definition userH_Get :: "lib \<Rightarrow> 'w UserHandler \<Rightarrow> 'w handler" where
  "userH_Get L H = mustGetCaller (\<lambda>callerID c.
     parseID L (Param c ''id'') ''invalid user id'' (\<lambda>targetID.
     selfOr H callerID targetID ''view_profile'' ''you do not have permission to view this user'' (\<lambda>c.
     bindS (userSvc_Get (uh_svc H) Background targetID) (\<lambda>r.
     case r of
       Inl err \<Rightarrow> Error 404 ''not_found'' ''user not found'' c
     | Inr u \<Rightarrow> JSON 200 (user_json L u) c))) c)"

definition updateRequest :: fields where
  "updateRequest = [(''full_name'', [])]"

definition userH_Update :: "lib \<Rightarrow> ginlib \<Rightarrow> 'w UserHandler \<Rightarrow> 'w handler" where
  "userH_Update L GL H = mustGetCaller (\<lambda>callerID c.
     parseID L (Param c ''id'') ''invalid user id'' (\<lambda>targetID.
     selfOr H callerID targetID ''create_user'' ''you do not have permission to update this user''
     (bindJSON GL updateRequest (\<lambda>req c.
     bindS (UpdateProfile (uh_svc H) Background targetID (req ''full_name'')) (\<lambda>r.
     case r of
       Inl err \<Rightarrow> Error 500 ''internal_error'' ''could not update user'' c
     | Inr u \<Rightarrow> JSON 200 (user_json L u) c)))) c)"

definition user_RegisterRoutes :: "lib \<Rightarrow> ginlib \<Rightarrow> 'w UserHandler \<Rightarrow> 'w route_table" where
  "user_RegisterRoutes L GL H =
     [((''GET'', []), userH_List L H),
      ((''GET'', ''/:id''), userH_Get L H),
      ((''PATCH'', ''/:id''), userH_Update L GL H)]"

lemma keeps_mustGetCaller [keeps_intros]:
  "(\<And>u. keeps obs (k u c)) \<Longrightarrow> keeps obs (mustGetCaller k c)"
  by (simp add: mustGetCaller_def keeps_response split: option.splits key_value.splits)

lemma selfOr_cases:
  assumes "selfOr H u v p msg k c w = (c', w')"
  obtains (refused) "u \<noteq> v" "hasPermission H Background u p w = (False, w')" "answers 403 c c'"
  | (self) "u = v" "k c w = (c', w')"
  | (permitted) w1 where "u \<noteq> v" "hasPermission H Background u p w = (True, w1)" "k c w1 = (c', w')"
proof (cases "u = v")
  case True
  with assms show thesis by (intro self) (auto simp: selfOr_def bindS_def)
next
  case False
  obtain b w1 where h: "hasPermission H Background u p w = (b, w1)" by (metis surj_pair)
  with assms False show thesis
    by (cases b) (auto simp: selfOr_def bindS_def cmd_simps intro: refused permitted)
qed

end
