(* ===== verification/AuditHandler.thy ===== *)
theory AuditHandler
  imports Middleware
begin

text \<open>\<open>internal/audit/handler.go\<close>: reading the audit log.\<close>

record 'w AuditHandler =
  ah_repo :: "'w AuditRepository"
  ah_authorize :: "'w AuthorizeFunc"

definition audit_NewHandler :: "'w AuditRepository \<Rightarrow> 'w AuthorizeFunc \<Rightarrow> 'w AuditHandler" where
  "audit_NewHandler repo authorize = \<lparr>ah_repo = repo, ah_authorize = authorize\<rparr>"

definition audit_json :: "lib \<Rightarrow> AuditLog \<Rightarrow> json" where
  "audit_json L a = JObj [(''ID'', JNum (a_ID a)),
     (''ActorID'', (case a_ActorID a of None \<Rightarrow> JNull | Some u \<Rightarrow> JStr (uuid_String L u))),
     (''Action'', JStr (a_Action a)), (''ResourceType'', JStr (a_ResourceType a)),
     (''ResourceID'', JStr (a_ResourceID a)), (''Metadata'', a_Metadata a),
     (''CreatedAt'', JStr (time_Text L (a_CreatedAt a)))]"

definition auditlog_List :: "lib \<Rightarrow> 'w AuditHandler \<Rightarrow> 'w handler" where
  "auditlog_List L H c =
     (let limit = Atoi (DefaultQuery c ''limit'' ''50'');
          offset = Atoi (DefaultQuery c ''offset'' ''0'') in
      bindS (audit_List (ah_repo H) Background limit offset) (\<lambda>r.
      case r of
        Inl err \<Rightarrow> Error 500 ''internal_error'' ''could not list audit logs'' c
      | Inr (logs, n) \<Rightarrow>
          JSON 200 (JObj [(''logs'', JArr (map (audit_json L) logs)), (''total'', JNum n)]) c))"

definition audit_RegisterRoutes :: "lib \<Rightarrow> 'w AuditHandler \<Rightarrow> 'w route_table" where
  "audit_RegisterRoutes L H =
     [((''GET'', ''/audit''), RequirePermission (ah_authorize H) ''view_audit'' (auditlog_List L H))]"

end
