(* ===== verification/Server.thy ===== *)
theory Server
  imports Wiring AuthHandler RbacHandler UserHandler AuditHandler Config
begin

text \<open>
  The HTTP side of \<open>cmd/server/main.go\<close>: the router, with every route, the middleware in
  front of them, and the services behind. What holds of every request, whatever route it
  takes, is proved here: which requests can change what.
\<close>

section \<open>The router\<close>

definition jwtMgr :: "Config \<Rightarrow> Manager" where
  "jwtMgr cfg = NewManager (cfg_JWTSecret cfg) (cfg_AccessTokenTTL cfg)"

definition authHandlerSvc :: "'w runtime \<Rightarrow> 'w gorm \<Rightarrow> 'w redis \<Rightarrow> Config \<Rightarrow> 'w AuthService" where
  "authHandlerSvc RT db rdb cfg = authSvc db rdb RT (jwtMgr cfg) (cfg_RefreshTokenTTL cfg)"

definition rbacHandler :: "lib \<Rightarrow> 'w runtime \<Rightarrow> 'w gorm \<Rightarrow> 'w redis \<Rightarrow> 'w RbacHandler" where
  "rbacHandler L RT db rdb = rbac_NewHandler (rbacSvc db rdb L) (Authorize L RT (rbacSvc db rdb L))"

definition userHandler :: "lib \<Rightarrow> 'w runtime \<Rightarrow> 'w gorm \<Rightarrow> 'w redis \<Rightarrow> 'w UserHandler" where
  "userHandler L RT db rdb = user_NewHandler (userSvc db) (Authorize L RT (rbacSvc db rdb L))"

definition auditHandler :: "lib \<Rightarrow> 'w runtime \<Rightarrow> 'w gorm \<Rightarrow> 'w redis \<Rightarrow> 'w AuditHandler" where
  "auditHandler L RT db rdb =
     audit_NewHandler (NewAuditRepository db L) (Authorize L RT (rbacSvc db rdb L))"

lemma handler_sel [simp]:
  "rh_svc (rbacHandler L RT db rdb) = rbacSvc db rdb L"
  "rh_authorize (rbacHandler L RT db rdb) = Authorize L RT (rbacSvc db rdb L)"
  "uh_svc (userHandler L RT db rdb) = userSvc db"
  "uh_authorize (userHandler L RT db rdb) = Authorize L RT (rbacSvc db rdb L)"
  "ah_repo (auditHandler L RT db rdb) = NewAuditRepository db L"
  "ah_authorize (auditHandler L RT db rdb) = Authorize L RT (rbacSvc db rdb L)"
  by (simp_all add: rbacHandler_def userHandler_def auditHandler_def rbac_NewHandler_def user_NewHandler_def
      audit_NewHandler_def)

definition health :: "'w handler" where
  "health = JSON 200 (JObj [(''status'', JStr ''ok'')])"

definition protected_routes ::
  "lib \<Rightarrow> ginlib \<Rightarrow> 'w runtime \<Rightarrow> 'w gorm \<Rightarrow> 'w redis \<Rightarrow> Config \<Rightarrow> 'w route_table" where
  "protected_routes L GL RT db rdb cfg =
     under ''/auth'' (auth_RegisterProtectedRoutes L GL RT (authHandlerSvc RT db rdb cfg)) @
     rbac_RegisterRoutes L GL RT (rbacHandler L RT db rdb) @
     under ''/users'' (user_RegisterRoutes L GL (userHandler L RT db rdb)) @
     audit_RegisterRoutes L (auditHandler L RT db rdb)"

definition routes ::
  "lib \<Rightarrow> ginlib \<Rightarrow> jwtlib \<Rightarrow> 'w runtime \<Rightarrow> 'w handler \<Rightarrow> 'w gorm \<Rightarrow> 'w redis \<Rightarrow> Config \<Rightarrow> 'w route_table" where
  "routes L GL J RT prom db rdb cfg =
     [((''GET'', ''/health''), health), ((''GET'', ''/metrics''), prom)] @
     under ''/api/v1''
       (under ''/auth'' (auth_RegisterRoutes L GL J RT (authHandlerSvc RT db rdb cfg)) @
        behind (JWTAuth J RT (jwtMgr cfg) (blacklist rdb)) (protected_routes L GL RT db rdb cfg))"

definition router ::
  "lib \<Rightarrow> ginlib \<Rightarrow> jwtlib \<Rightarrow> 'w runtime \<Rightarrow> 'w tracer \<Rightarrow> 'w handler \<Rightarrow> 'w gorm \<Rightarrow> 'w redis \<Rightarrow> Config \<Rightarrow>
   'w handler" where
  "router L GL J RT TR prom db rdb cfg =
     chain [Recovery, HTTPMetrics RT, Tracing TR, RateLimit RT (Some rdb) 100 minute]
       (dispatch (routes L GL J RT prom db rdb cfg))"

section \<open>What comes before the handlers\<close>

text \<open>
  \<open>aged\<close>: time has passed in Redis, and nothing else has happened to the permission cache
  and the blacklist; \<open>passed\<close>: and nothing at all has happened in the database.
\<close>

definition aged :: "lib \<Rightarrow> 'w PermissionCache option \<Rightarrow> redis_state \<Rightarrow> redis_state \<Rightarrow> bool" where
  "aged L c s s' \<longleftrightarrow> rs_now s \<le> rs_now s' \<and> cached_perms L c s' \<subseteq>\<^sub>m cached_perms L c s \<and>
     (\<forall>i t. rs_now s' \<le> t \<longrightarrow> listed s' i t = listed s i t)"

lemma aged_refl [simp]: "aged L c s s"
  by (simp add: aged_def)

lemma aged_trans: "aged L c s s1 \<Longrightarrow> aged L c s1 s2 \<Longrightarrow> aged L c s s2"
  unfolding aged_def by (metis map_le_trans order_trans)

definition waited ::
  "(conn, 'w, tables, 'o) window \<Rightarrow> (unit, 'w, redis_state, 'q) window \<Rightarrow> lib \<Rightarrow> 'w redis \<Rightarrow>
   'w \<Rightarrow> 'w \<Rightarrow> bool" where
  "waited V K L D w w' \<longleftrightarrow>
     (\<forall>d. seen V d w' = seen V d w) \<and> (up V w \<longrightarrow> up V w') \<and> (up K w \<longrightarrow> up K w') \<and>
     aged L (permCache D) (seen K () w) (seen K () w')"

text \<open>
  \<open>at_route\<close>: the world in which a request that comes in \<open>w\<close> goes to its route, the clock having
  been read, the span started and the request counted for the rate limit.
\<close>

definition traced :: "'w tracer \<Rightarrow> request \<Rightarrow> 'w \<Rightarrow> 'w" where
  "traced TR q w = (case tr_Start TR q (rq_Method q @ '' '' @ rq_FullPath q) w of (span, w) \<Rightarrow>
     tr_SetString TR span ''http.path'' (rq_FullPath q)
       (tr_SetString TR span ''http.method'' (rq_Method q) w))"

definition at_route :: "'w runtime \<Rightarrow> 'w tracer \<Rightarrow> 'w redis \<Rightarrow> request \<Rightarrow> 'w \<Rightarrow> 'w" where
  "at_route RT TR rdb q w =
     snd (RateLimit RT (Some rdb) 100 minute Pair (new_context q) (traced TR q (snd (rt_Now RT w))))"

text \<open>
  \<open>holds\<close>: the request carries a token that verifies (\<open>valid\<close>) with the claims, is in force by the clock
  as \<open>Parse\<close> reads it in the world \<open>w\<close>, and then, Redis being up, is not on the blacklist at the
  time at which Redis serves the question. \<open>presents\<close>: so it is when the request goes to its route.
\<close>

definition holds ::
  "(unit, 'w, redis_state, 'q) window \<Rightarrow> 'w runtime \<Rightarrow> 'w redis \<Rightarrow> (string \<Rightarrow> Claims \<Rightarrow> bool) \<Rightarrow>
   request \<Rightarrow> Claims \<Rightarrow> 'w \<Rightarrow> bool" where
  "holds K RT rdb valid q cl w \<longleftrightarrow>
     (\<exists>tok. rq_Header q ''Authorization'' = ''Bearer '' @ tok \<and> valid tok cl) \<and>
     (case rt_Now RT w of (now, w1) \<Rightarrow> in_force now cl \<and>
        (case IsBlacklisted (blacklist rdb) (cl_ID cl) w1 of (b, w2) \<Rightarrow>
           up K w \<longrightarrow> \<not> listed (seen K () w) (cl_ID cl) (rs_now (seen K () w2))))"

definition presents ::
  "(unit, 'w, redis_state, 'q) window \<Rightarrow> 'w runtime \<Rightarrow> 'w tracer \<Rightarrow> 'w redis \<Rightarrow> (string \<Rightarrow> Claims \<Rightarrow> bool) \<Rightarrow>
   request \<Rightarrow> Claims \<Rightarrow> 'w \<Rightarrow> bool" where
  "presents K RT TR rdb valid q cl w \<longleftrightarrow> holds K RT rdb valid q cl (at_route RT TR rdb q w)"

locale web =
  pg_platform V G jsonb fits coll RT K D ttl L +
  jwt_contract J authentic plain_claims +
  gin_binding GL +
  quiet_tracer V TR +
  rd_tracer: quiet_tracer K TR
  for V :: "(conn, 'w, tables, 'o) window" and G jsonb fits coll and RT :: "'w runtime"
    and K :: "(unit, 'w, redis_state, 'q) window" and D ttl L J authentic plain_claims GL
    and TR :: "'w tracer" +
  fixes prom :: "'w handler"
  assumes prom_silent: "silent V (prom c)" "silent K (prom c)"
begin

abbreviation redis_at :: "'w \<Rightarrow> redis_state" where
  "redis_at w \<equiv> seen K () w"

abbreviation passed :: "'w \<Rightarrow> 'w \<Rightarrow> bool" where
  "passed \<equiv> waited V K L D"

lemmas passed_def = waited_def

abbreviation holds_token :: "Config \<Rightarrow> request \<Rightarrow> Claims \<Rightarrow> 'w \<Rightarrow> bool" where
  "holds_token cfg \<equiv> holds K RT D (authentic SigningMethodHMAC (cfg_JWTSecret cfg))"

abbreviation at_its_route :: "request \<Rightarrow> 'w \<Rightarrow> 'w" where
  "at_its_route \<equiv> at_route RT TR D"

lemmas holds_token_def = holds_def

lemma passed_refl [simp]: "passed w w"
  by (simp add: passed_def)

lemma passed_trans: "passed w w1 \<Longrightarrow> passed w1 w2 \<Longrightarrow> passed w w2"
  by (auto simp: passed_def intro: aged_trans)

lemma passed_silent: "silent V m \<Longrightarrow> silent K m \<Longrightarrow> m w = (a, w') \<Longrightarrow> passed w w'"
  by (auto simp: passed_def dest!: silentD simp: untouched_seen untouched_up)

lemma passed_K:
  assumes "touched K () w w'" and "aged L (permCache D) (redis_at w) (redis_at w')"
  shows "passed w w'"
  using assms apartD(3,4) [OF apart assms(1)] touched_up [OF assms(1)] by (simp add: passed_def)

lemmas passed_Now = passed_silent [OF Now_silent rd_quiet.Now_silent]
lemmas passed_Start = passed_silent [OF Start_silent rd_tracer.Start_silent]

lemma passed_metric [simp]:
  "passed w (rt_Observe RT meth path stat d w)" "passed w (tr_SetString TR sp k x w)"
  "passed w (tr_SetInt TR sp k n w)" "passed w (tr_End TR sp w)"
  by (simp_all add: passed_def Observe_seen Observe_up rd_quiet.Observe_seen rd_quiet.Observe_up
      SetString_seen SetString_up rd_tracer.SetString_seen rd_tracer.SetString_up
      SetInt_seen SetInt_up rd_tracer.SetInt_seen rd_tracer.SetInt_up
      End_seen End_up rd_tracer.End_seen rd_tracer.End_up)

lemma aged_at_time: "rs_now s \<le> t \<Longrightarrow> aged L (permCache D) s (at_time t s)"
  using fewer_at_time [of t s] by (simp add: aged_def)

lemma aged_served:
  assumes "served P F h s r s'" and "\<And>s a s'. F s a s' \<Longrightarrow> aged L (permCache D) s s'"
  shows "aged L (permCache D) s s'"
  using assms unfolding served_def by (cases r) (auto intro: aged_trans [OF aged_at_time])

lemma passed_served:
  assumes "writes K () (served P F) m" and "m w = (r, w')"
    and "\<And>s a s'. F s a s' \<Longrightarrow> aged L (permCache D) s s'"
  shows "passed w w'"
  using writesD [OF assms(1,2)] assms(3) by (blast intro: passed_K aged_served)

lemma aged_other_key:
  assumes "rs_now s' = rs_now s" and "\<And>k'. k' \<noteq> ratelimit_key ip n \<Longrightarrow> rs_keys s' k' = rs_keys s k'"
  shows "aged L c s s'"
proof -
  have "permissionsKey L u \<noteq> ratelimit_key ip n" "blacklist_key j \<noteq> ratelimit_key ip n" for u j
    by (simp_all add: permissionsKey_def blacklist_key_def ratelimit_key_def)
  with assms show ?thesis
    by (auto simp: aged_def cached_perms_def rd_members_def listed_def map_le_def split: option.splits)
qed

lemma aged_incr: "aged L c s (rd_incr (ratelimit_key ip n) s)"
  by (rule aged_other_key [where ip = ip and n = n])
    (auto simp: rd_incr_def split: option.splits prod.splits rvalue.splits)

lemma aged_expire: "aged L c s (rd_expire (ratelimit_key ip n) d s)"
  by (rule aged_other_key [where ip = ip and n = n])
    (auto simp: rd_expire_def split: option.splits prod.splits)

lemma passed_Incr: "rd_Incr D (ratelimit_key ip n) w = (r, w') \<Longrightarrow> passed w w'"
  by (rule passed_served [OF Incr]) (auto intro: aged_incr)

lemma passed_Expire: "rd_Expire D (ratelimit_key ip n) d w = (r, w') \<Longrightarrow> passed w w'"
  by (rule passed_served [OF Expire]) (auto intro: aged_expire)

text \<open>The blacklist check changes nothing; with Redis up, its answer is right.\<close>

lemma IsBlacklisted_passed:
  assumes run: "IsBlacklisted (blacklist D) j w = (b, w')"
  shows "passed w w'" and "up K w \<Longrightarrow> b = listed (redis_at w) j (rs_now (redis_at w'))"
proof -
  obtain r w1 where e: "rd_Exists D (blacklist_key j) w = (r, w1)" by force
  with run have "w' = w1" by (auto simp: IsBlacklisted_def blacklist_def bindS_def split: sum.splits)
  with passed_served [OF Exists e] show "passed w w'" by auto
  from writesD [OF bans.blacklist.Check run] show "up K w \<Longrightarrow> b = listed (redis_at w) j (rs_now (redis_at w'))"
    by blast
qed

section \<open>The middleware of every request\<close>

lemma RateLimit_run:
  fixes q w limit window
  defines "w1' \<equiv> snd (RateLimit RT (Some D) limit window Pair (new_context q) w)"
  assumes run: "RateLimit RT (Some D) limit window next c w = (c', w')"
    and window: "window sdiv second \<noteq> 0" and q: "gc_Request c = q"
  shows "(answers 429 c c' \<and> passed w w') \<or> (passed w w1' \<and> next c w1' = (c', w'))"
proof -
  obtain now w1 where n: "rt_Now RT w = (now, w1)" by force
  let ?key = "ratelimit_key (rq_ClientIP (gc_Request c)) (windowID now window)"
  obtain r w2 where i: "rd_Incr D ?key w1 = (r, w2)" by force
  have p2: "passed w w2" using passed_Now [OF n] passed_Incr [OF i] by (rule passed_trans)
  show ?thesis
  proof (cases r)
    case (Inl e)
    with run window n i p2 q show ?thesis by (auto simp: RateLimit_def bindS_def Let_def w1'_def)
  next
    case (Inr k)
    obtain u w3 where x: "(if k = 1 then rd_Expire D ?key window else okE ()) w2 = (u, w3)"
      by (metis surj_pair)
    have "passed w2 w3" using x passed_Expire by (auto simp: okE_def split: if_splits)
    with p2 have p3: "passed w w3" by (rule passed_trans)
    have "RateLimit RT (Some D) limit window next c w =
        (if k > limit then Error 429 ''rate_limited'' ''too many requests, please try again shortly'' c w3
         else next c w3)"
      using window n i Inr x by (auto simp: RateLimit_def bindS_def Let_def)
    with run have c': "(if k > limit then Error 429 ''rate_limited'' ''too many requests, please try again shortly'' c w3
        else next c w3) = (c', w')" by simp
    have "w1' = w3" if "\<not> k > limit"
      using that window n i Inr x q by (auto simp: RateLimit_def bindS_def Let_def w1'_def)
    with c' p3 show ?thesis by (auto simp: cmd_simps split: if_splits)
  qed
qed

lemma HTTPMetrics_run:
  assumes "HTTPMetrics RT next c w = (c', w')"
  shows "\<exists>w2. passed w (snd (rt_Now RT w)) \<and> next c (snd (rt_Now RT w)) = (c', w2) \<and> passed w2 w'"
proof -
  obtain now w1 where n: "rt_Now RT w = (now, w1)" by force
  obtain c2 w2 where h: "next c w1 = (c2, w2)" by force
  obtain now' w3 where n': "rt_Now RT w2 = (now', w3)" by force
  note p = passed_Now [OF n] passed_trans [OF passed_Now [OF n'] passed_metric(1)]
  from assms n h n' p(2) have "c' = c2 \<and> passed w2 w'"
    by (cases "gc_Panicked c2") (auto simp: HTTPMetrics_def bindS_def doS_def)
  with p(1) h n show ?thesis by simp
qed

lemma Tracing_run:
  assumes "Tracing TR next c w = (c', w')"
  shows "\<exists>w2. passed w (traced TR (gc_Request c) w) \<and> next c (traced TR (gc_Request c) w) = (c', w2) \<and>
    passed w2 w'"
proof -
  obtain sp w1 where s: "tr_Start TR (gc_Request c)
      (rq_Method (gc_Request c) @ '' '' @ rq_FullPath (gc_Request c)) w = (sp, w1)" by force
  let ?w1 = "tr_SetString TR sp ''http.path'' (rq_FullPath (gc_Request c))
      (tr_SetString TR sp ''http.method'' (rq_Method (gc_Request c)) w1)"
  obtain c2 w2 where h: "next c ?w1 = (c2, w2)" by force
  have p: "passed w ?w1"
    using passed_Start [OF s] by (blast intro: passed_trans passed_metric)
  have q: "passed w2 (tr_End TR sp (tr_SetInt TR sp ''http.status_code'' (Writer_Status c2) w2))"
    by (blast intro: passed_trans passed_metric)
  from assms s h q have "c' = c2 \<and> passed w2 w'"
    by (cases "gc_Panicked c2") (auto simp: Tracing_def bindS_def doS_def)
  with p h s show ?thesis by (simp add: traced_def)
qed

text \<open>
  A request is answered by 429, or goes to its route; what happens before and after the
  route shows in no database.
\<close>

lemma router_run:
  assumes run: "router L GL J RT TR prom G D cfg c w = (c', w')" and "\<not> gc_Panicked c"
  shows "status_of c' = Some 429 \<and> passed w w' \<or>
    (\<exists>w1 c2 w2. w1 = at_its_route (gc_Request c) w \<and> passed w w1 \<and>
       dispatch (routes L GL J RT prom G D cfg) c w1 = (c2, w2) \<and> passed w2 w' \<and>
       (if gc_Panicked c2 then status_of c' = Some 500 else c' = c2))"
proof -
  let ?d = "dispatch (routes L GL J RT prom G D cfg)"
  obtain c1 w5 where m: "HTTPMetrics RT (Tracing TR (RateLimit RT (Some D) 100 minute ?d)) c w = (c1, w5)"
    by force
  from run m have w': "w' = w5" "if gc_Panicked c1 then status_of c' = Some 500 else c' = c1"
    by (auto simp: router_def Recovery_def bindS_def status_of_def split: if_splits)
  let ?w1 = "snd (rt_Now RT w)" and ?w2 = "traced TR (gc_Request c) (snd (rt_Now RT w))"
  from HTTPMetrics_run [OF m] obtain w4 where p1: "passed w ?w1" "passed w4 w5"
    and t: "Tracing TR (RateLimit RT (Some D) 100 minute ?d) c ?w1 = (c1, w4)" by blast
  from Tracing_run [OF t] obtain w3 where p2: "passed ?w1 ?w2" "passed w3 w4"
    and r: "RateLimit RT (Some D) 100 minute ?d c ?w2 = (c1, w3)" by blast
  have "(minute :: int) sdiv second \<noteq> 0" by code_simp
  from RateLimit_run [OF r this refl] show ?thesis
  proof (elim disjE conjE)
    assume a: "answers 429 c c1" "passed ?w2 w3"
    have "passed w w5"
      by (rule passed_trans [OF p1(1) passed_trans [OF p2(1) passed_trans [OF a(2)
            passed_trans [OF p2(2) p1(2)]]]])
    with w' a(1) \<open>\<not> gc_Panicked c\<close> show ?thesis by (auto simp: answers_def)
  next
    let ?w6 = "snd (RateLimit RT (Some D) 100 minute Pair (new_context (gc_Request c)) ?w2)"
    assume a: "passed ?w2 ?w6" "?d c ?w6 = (c1, w3)"
    have "passed w ?w6" by (rule passed_trans [OF p1(1) passed_trans [OF p2(1) a(1)]])
    moreover have "?w6 = at_its_route (gc_Request c) w" by (simp add: at_route_def)
    moreover have "passed w3 w'" unfolding w'(1) by (rule passed_trans [OF p2(2) p1(2)])
    ultimately show ?thesis using a(2) w'(2) by blast
  qed
qed

text \<open>\<open>JWTAuth\<close> answers 401, or goes on with the claims of a token that holds.\<close>

lemma JWTAuth_run:
  assumes run: "JWTAuth J RT (jwtMgr cfg) (blacklist D) next c w = (c', w')"
  shows "answers 401 c c' \<and> passed w w' \<or>
    (\<exists>cl w1. passed w w1 \<and> holds_token cfg (gc_Request c) cl w \<and> next (set_claims cl c) w1 = (c', w'))"
  using run
proof (cases rule: JWTAuth_cases)
  case missing
  then show ?thesis by simp
next
  case (invalid e)
  from Parse_run [OF invalid(2)] obtain now where "rt_Now RT w = (now, w')" by blast
  with invalid(1) show ?thesis by (auto intro: passed_Now)
next
  case (revoked cl w1)
  from Parse_run [OF revoked(2)] obtain now where "rt_Now RT w = (now, w1)" by blast
  with IsBlacklisted_passed(1) [OF revoked(3)] revoked(1) show ?thesis
    by (auto intro: passed_Now passed_trans)
next
  case (valid cl w1 w2)
  from Parse_run [OF valid(2)] obtain now where now: "rt_Now RT w = (now, w1)"
    and auth: "authentic SigningMethodHMAC (cfg_JWTSecret cfg)
        (drop 7 (rq_Header (gc_Request c) ''Authorization'')) cl"
      "in_force now cl"
    by (auto simp: jwtMgr_def NewManager_def)
  note B = IsBlacklisted_passed [OF valid(3)] and N = passed_Now [OF now]
  have "rq_Header (gc_Request c) ''Authorization'' =
      ''Bearer '' @ drop 7 (rq_Header (gc_Request c) ''Authorization'')"
    using valid(1) by (metis append_take_drop_id)
  moreover have "up K w \<longrightarrow> \<not> listed (redis_at w) (cl_ID cl) (rs_now (redis_at w2))"
    using B(2) untouched_seen [OF silentD [OF rd_quiet.Now_silent now]]
      untouched_up [OF silentD [OF rd_quiet.Now_silent now]] by simp
  ultimately have "holds_token cfg (gc_Request c) cl w"
    using auth now valid(3) unfolding holds_token_def by auto
  moreover have "passed w w2" using N B(1) by (rule passed_trans)
  ultimately show ?thesis using valid(4) by blast
qed

end

end
