(* ===== verification/Access.thy ===== *)
theory Access
  imports Server
begin

text \<open>
  Who can change what: for every route of the server, what serving a request may do to
  the database, and which caller it takes.
\<close>

section \<open>Handlers that only read\<close>

context web
begin

lemma keeps_pg: "reads (pg_window V) c Q m \<Longrightarrow> keeps (\<lambda>w. f (db_store V w)) m"
  by (rule keepsI) (auto dest!: readsD dest: untouched_seen [where d = Background])

lemma keeps_base: "reads V BaseDB Q m \<Longrightarrow> keeps (\<lambda>w. f (db_store V w)) m"
  by (rule keepsI) (auto dest!: readsD dest: untouched_seen [where d = BaseDB])

lemma keeps_silent: "silent V m \<Longrightarrow> keeps (\<lambda>w. f (db_store V w)) m"
  by (rule keepsI) (auto dest!: silentD dest: untouched_seen [where d = BaseDB])

lemmas keeps_repo =
  pg_roles.RoleList [THEN keeps_pg] pg_perms.PermList [THEN keeps_pg]
  pg_users.UserList_reads [THEN keeps_pg] pg_users.UserGetByID [THEN keeps_pg]
  audit_List_reads_any [THEN keeps_base]
  prom_silent(1) [THEN keeps_silent]

lemma keeps_Authorize: "keeps (\<lambda>w. f (db_store V w)) (Authorize L RT (rbacSvc G D L) Background u p)"
  by (rule keepsI) (simp add: Authorize_run)

lemma keeps_health: "keeps (\<lambda>w. f (db_store V w)) (health c)"
  unfolding health_def by (rule keeps_intros)

lemma keeps_ListRoles: "keeps (\<lambda>w. f (db_store V w)) (rbac_ListRoles L (rbacHandler L RT G D) c)"
  unfolding rbac_ListRoles_def ListRoles_def
  using keeps_repo by (auto intro!: keeps_intros)

lemma keeps_ListPermissions:
  "keeps (\<lambda>w. f (db_store V w)) (rbac_ListPermissions L (rbacHandler L RT G D) c)"
  unfolding rbac_ListPermissions_def ListPermissions_def
  using keeps_repo by (auto intro!: keeps_intros)

lemma keeps_rbac_Authorize:
  "keeps (\<lambda>w. f (db_store V w)) (rbac_Authorize L GL (rbacHandler L RT G D) c)"
  unfolding rbac_Authorize_def
  using keeps_Authorize by (auto intro!: keeps_intros)

lemma keeps_auditlog_List:
  "keeps (\<lambda>w. f (db_store V w)) (auditlog_List L (auditHandler L RT G D) c)"
  unfolding auditlog_List_def Let_def
  using keeps_repo by (auto intro!: keeps_intros split: prod.splits)

lemma keeps_userH_List:
  "keeps (\<lambda>w. f (db_store V w)) (userH_List L (userHandler L RT G D) c)"
  unfolding userH_List_def userSvc_List_def Let_def
  using keeps_repo keeps_Authorize by (auto intro!: keeps_intros split: prod.splits)

lemma keeps_selfOr:
  "(\<And>c. keeps (\<lambda>w. f (db_store V w)) (k c)) \<Longrightarrow>
   keeps (\<lambda>w. f (db_store V w)) (selfOr (userHandler L RT G D) u v p msg k c)"
  unfolding selfOr_def hasPermission_def
  using keeps_Authorize by (auto intro!: keeps_intros)

lemma keeps_userH_Get:
  "keeps (\<lambda>w. f (db_store V w)) (userH_Get L (userHandler L RT G D) c)"
  unfolding userH_Get_def userSvc_Get_def
  using keeps_repo
  by (auto intro!: keeps_intros keeps_selfOr)

end

section \<open>Handlers that change the data\<close>

text \<open>
  Login, refresh and logout change refresh tokens only.
\<close>

definition sans_tokens :: "store \<Rightarrow> store" where
  "sans_tokens s = s\<lparr>st_tokens := {}\<rparr>"

lemma sans_tokens_added: "token_added L u raw s s' \<Longrightarrow> sans_tokens s' = sans_tokens s"
  by (auto simp: token_added_def sans_tokens_def)

lemma sans_tokens_revoked: "revoked i s s' \<Longrightarrow> sans_tokens s' = sans_tokens s"
  by (auto simp: revoked_def sans_tokens_def)

lemmas sans_tokens_simps = sans_tokens_added sans_tokens_revoked

context web
begin

lemma keeps_Login:
  "keeps (\<lambda>w. sans_tokens (db_store V w)) (auth_Login L GL J RT (authHandlerSvc RT G D cfg) c)"
proof -
  have "keeps (\<lambda>w. sans_tokens (db_store V w))
      (Login L J RT (authHandlerSvc RT G D cfg) Background email pw)" for email pw
  proof (rule keepsI)
    fix w r w' assume "Login L J RT (authHandlerSvc RT G D cfg) Background email pw w = (r, w')"
    from Login_run(1) [OF this [unfolded authHandlerSvc_def]]
    show "sans_tokens (db_store V w') = sans_tokens (db_store V w)"
      by (auto simp: sans_tokens_simps split: sum.splits)
  qed
  then show ?thesis unfolding auth_Login_def by (auto intro!: keeps_intros)
qed

lemma keeps_Refresh:
  "keeps (\<lambda>w. sans_tokens (db_store V w)) (auth_Refresh L GL J RT (authHandlerSvc RT G D cfg) c)"
proof -
  have "keeps (\<lambda>w. sans_tokens (db_store V w))
      (Refresh L J RT (authHandlerSvc RT G D cfg) Background raw)" for raw
  proof (rule keepsI)
    fix w r w' assume "Refresh L J RT (authHandlerSvc RT G D cfg) Background raw w = (r, w')"
    from Refresh_run [OF this [unfolded authHandlerSvc_def]]
    show "sans_tokens (db_store V w') = sans_tokens (db_store V w)"
      by (cases r) (auto simp: sans_tokens_simps)
  qed
  then show ?thesis unfolding auth_Refresh_def by (auto intro!: keeps_intros)
qed

lemma keeps_Logout:
  "keeps (\<lambda>w. sans_tokens (db_store V w)) (auth_Logout L GL RT (authHandlerSvc RT G D cfg) c)"
proof -
  have "keeps (\<lambda>w. sans_tokens (db_store V w))
      (Logout L (authHandlerSvc RT G D cfg) Background raw jti d)" for raw jti d
  proof (rule keepsI)
    fix w r w' assume "Logout L (authHandlerSvc RT G D cfg) Background raw jti d w = (r, w')"
    from Logout_run(1) [OF this [unfolded authHandlerSvc_def]]
    show "sans_tokens (db_store V w') = sans_tokens (db_store V w)"
      by (auto simp: sans_tokens_simps)
  qed
  then show ?thesis using keeps_silent [OF Now_silent] unfolding auth_Logout_def Let_def
    by (auto intro!: keeps_intros)
qed

lemma auth_Signup_run:
  assumes run: "auth_Signup L GL RT (authHandlerSvc RT G D cfg) c w = (c', w')"
  shows "db_store V w' = db_store V w \<or>
    (\<exists>email name u. signed_up (up V w) email name u (db_store V w) (db_store V w'))"
proof (cases "gl_ShouldBindJSON GL signupRequest (rq_Body (gc_Request c))")
  case (Inl e)
  with run show ?thesis by (auto simp: auth_Signup_def bindJSON_def cmd_simps)
next
  case (Inr req)
  obtain r w1 where s: "Signup RT (authHandlerSvc RT G D cfg) Background (req ''email'')
      (req ''password'') (req ''full_name'') w = (r, w1)" by force
  from run Inr s have "w' = w1"
    by (auto simp: auth_Signup_def bindJSON_def bindS_def cmd_simps split: sum.splits if_splits)
  with Signup_run(1) [OF s [unfolded authHandlerSvc_def]] show ?thesis
    by (cases r) auto
qed

text \<open>A gate in front of a handler: the handler runs only for a caller with the permission.\<close>

abbreviation fresh :: "'w \<Rightarrow> bool" where
  "fresh w \<equiv> coherent (cache_of L K D w) (perm_names (db_store V w))"

lemma fresh_passed: "passed w w1 \<Longrightarrow> fresh w \<Longrightarrow> fresh w1 \<and> db_store V w1 = db_store V w"
  unfolding passed_def aged_def by (auto intro: coherent_shrink)

lemma gate_run:
  assumes run: "RequirePermission (Authorize L RT (rbacSvc G D L)) p next c w = (c', w')"
    and coh: "fresh w"
  shows "db_store V w' = db_store V w \<or>
    (\<exists>u w1. caller c = Some u \<and> p \<in> perm_names (db_store V w) u \<and> db_store V w1 = db_store V w \<and>
       next c w1 = (c', w'))"
  using run
proof (cases rule: RequirePermission_cases)
  case (allowed u w1)
  from Authorize_correct [OF allowed(2) coh] allowed show ?thesis by auto
next
  case (unverified u e)
  from Authorize_correct(2) [OF unverified(2) coh] show ?thesis by simp
next
  case (denied u)
  from Authorize_correct(2) [OF denied(2) coh] show ?thesis by simp
qed simp

lemma hasPermission_run:
  assumes run: "hasPermission (userHandler L RT G D) Background u p w = (b, w')" and coh: "fresh w"
  shows "db_store V w' = db_store V w" and "b \<Longrightarrow> p \<in> perm_names (db_store V w) u"
    and "up V w \<Longrightarrow> p \<in> perm_names (db_store V w) u \<Longrightarrow> b"
proof -
  obtain r w1 where a: "Authorize L RT (rbacSvc G D L) Background u p w = (r, w1)" by force
  with run have "w' = w1" "b = (case r of Inl err \<Rightarrow> False | Inr allowed \<Rightarrow> allowed)"
    by (auto simp: hasPermission_def bindS_def)
  with Authorize_correct [OF a coh] show "db_store V w' = db_store V w"
    and "b \<Longrightarrow> p \<in> perm_names (db_store V w) u"
    and "up V w \<Longrightarrow> p \<in> perm_names (db_store V w) u \<Longrightarrow> b"
    by (auto split: sum.splits)
qed

lemma mustGetCaller_run:
  assumes "mustGetCaller k c w = (c', w')" and "caller c = Some u"
  shows "k u c w = (c', w')"
  using assms by (auto simp: mustGetCaller_def caller_def split: option.splits key_value.splits)

lemma userH_Update_run:
  assumes run: "userH_Update L GL (userHandler L RT G D) c w = (c', w')"
    and u: "caller c = Some u" and coh: "fresh w"
  shows "db_store V w' = db_store V w \<or>
    (\<exists>i name. uuid_Parse L (Param c ''id'') = Some i \<and>
       (u = i \<or> ''create_user'' \<in> perm_names (db_store V w) u) \<and>
       renamed i name (db_store V w) (db_store V w'))"
proof (cases "uuid_Parse L (Param c ''id'')")
  case None
  with mustGetCaller_run [OF run [unfolded userH_Update_def] u] show ?thesis
    by (auto simp: parseID_def cmd_simps)
next
  case (Some i)
  let ?k = "bindJSON GL updateRequest (\<lambda>req c.
     bindS (UpdateProfile (userSvc G) Background i (req ''full_name'')) (\<lambda>r.
     case r of
       Inl err \<Rightarrow> Error 500 ''internal_error'' ''could not update user'' c
     | Inr u \<Rightarrow> JSON 200 (user_json L u) c))"
  have upd: "db_store V w' = db_store V w1 \<or> (\<exists>name. renamed i name (db_store V w1) (db_store V w'))"
    if k: "?k c w1 = (c', w')" for w1
  proof (cases "gl_ShouldBindJSON GL updateRequest (rq_Body (gc_Request c))")
    case (Inl e)
    with k show ?thesis by (auto simp: bindJSON_def cmd_simps)
  next
    case (Inr req)
    obtain r w2 where p: "UpdateProfile (userSvc G) Background i (req ''full_name'') w1 = (r, w2)" by force
    with k Inr have "w' = w2"
      by (auto simp: bindJSON_def bindS_def cmd_simps split: sum.splits)
    with UpdateProfile_run [OF p] show ?thesis by (cases r) auto
  qed
  from mustGetCaller_run [OF run [unfolded userH_Update_def] u] Some
  have "selfOr (userHandler L RT G D) u i ''create_user''
      ''you do not have permission to update this user'' ?k c w = (c', w')"
    by (simp add: parseID_def)
  then show ?thesis
  proof (cases rule: selfOr_cases)
    case refused
    with hasPermission_run [OF refused(2) coh] show ?thesis by simp
  next
    case self
    with upd [OF self(2)] Some show ?thesis by auto
  next
    case (permitted w1)
    with upd [OF permitted(3)] hasPermission_run [OF permitted(2) coh] Some show ?thesis by auto
  qed
qed

end

section \<open>What a request may change\<close>

text \<open>The routes that manage roles, permissions and assignments.\<close>

definition manage_routes :: "(string \<times> string) list" where
  "manage_routes =
     [(''POST'', ''/api/v1/roles''), (''DELETE'', ''/api/v1/roles/:id''),
      (''POST'', ''/api/v1/permissions''), (''DELETE'', ''/api/v1/permissions/:id''),
      (''POST'', ''/api/v1/users/:id/roles''), (''DELETE'', ''/api/v1/users/:id/roles/:roleId''),
      (''POST'', ''/api/v1/roles/:id/permissions'')]"

text \<open>
  The policy. Apart from refresh tokens, a request changes nothing in the store, or it is a
  signup and adds one account; or it renames a user, on behalf of that user or of one who
  holds \<open>create_user\<close>; or it goes to a managing route, on behalf of a user who holds
  \<open>assign_role\<close>. \<open>holder cl\<close>: the request presents a valid token with the claims \<open>cl\<close>.
\<close>

definition allowed_change ::
  "lib \<Rightarrow> (Claims \<Rightarrow> bool) \<Rightarrow> request \<Rightarrow> store \<Rightarrow> store \<Rightarrow> bool" where
  "allowed_change L holder q s s' \<longleftrightarrow>
     sans_tokens s' = sans_tokens s \<or>
     ((rq_Method q, rq_FullPath q) = (''POST'', ''/api/v1/auth/signup'') \<and>
       (\<exists>h email name u. signed_up h email name u s s')) \<or>
     (\<exists>cl i name. holder cl \<and> (rq_Method q, rq_FullPath q) = (''PATCH'', ''/api/v1/users/:id'') \<and>
       uuid_Parse L (rq_Param q ''id'') = Some i \<and>
       (cl_UserID cl = i \<or> ''create_user'' \<in> perm_names s (cl_UserID cl)) \<and> renamed i name s s') \<or>
     (\<exists>cl. holder cl \<and> (rq_Method q, rq_FullPath q) \<in> set manage_routes \<and>
       ''assign_role'' \<in> perm_names s (cl_UserID cl))"

lemma under_behind: "under a (behind m rs) = behind m (under a rs)"
  by (simp add: under_def behind_def case_prod_beta)

lemma fst_behind: "fst ` set (behind m rs) = fst ` set rs"
  by (force simp: behind_def)

lemma under_under: "under a (under b rs) = under (a @ b) rs"
  by (simp add: under_def case_prod_beta)

lemma keeps_RequirePermission:
  "(\<And>u. keeps obs (authorize Background u p)) \<Longrightarrow> keeps obs (next c) \<Longrightarrow>
   keeps obs (RequirePermission authorize p next c)"
  by (auto simp: RequirePermission_def intro!: keeps_intros split: option.splits key_value.splits)

context web
begin

lemma protected_cases:
  assumes "(k, h) \<in> set (under ''/api/v1'' (protected_routes L GL RT G D cfg))"
  obtains (reads) "\<And>c. keeps (\<lambda>w. sans_tokens (db_store V w)) (h c)"
  | (gated) h' where "k \<in> set manage_routes"
      "h = RequirePermission (Authorize L RT (rbacSvc G D L)) ''assign_role'' h'"
  | (update) "k = (''PATCH'', ''/api/v1/users/:id'')" "h = userH_Update L GL (userHandler L RT G D)"
proof -
  let ?gate = "RequirePermission (Authorize L RT (rbacSvc G D L))"
  let ?reads = "\<lambda>h. \<forall>c. keeps (\<lambda>w. sans_tokens (db_store V w)) (h c)"
  let ?P = "\<lambda>k h. ?reads h \<or> (k \<in> set manage_routes \<and> (\<exists>h'. h = ?gate ''assign_role'' h')) \<or>
      (k = (''PATCH'', ''/api/v1/users/:id'') \<and> h = userH_Update L GL (userHandler L RT G D))"
  have logs: "?reads (?gate ''view_audit'' (auditlog_List L (auditHandler L RT G D)))"
    by (rule allI, rule keeps_RequirePermission, rule keeps_Authorize, rule keeps_auditlog_List)
  have gate: "?P k (?gate ''assign_role'' h')" if "k \<in> set manage_routes" for k h'
    using that by auto
  have "list_all (\<lambda>(k, h). ?P k h) (under ''/api/v1'' (protected_routes L GL RT G D cfg))"
    unfolding protected_routes_def auth_RegisterProtectedRoutes_def rbac_RegisterRoutes_def
      user_RegisterRoutes_def audit_RegisterRoutes_def Let_def handler_sel under_simps append.simps
      list.pred_inject prod.case
    by (intro conjI; (rule gate, simp add: manage_routes_def
      | use logs keeps_Logout keeps_ListRoles [where f = sans_tokens]
          keeps_ListPermissions [where f = sans_tokens] keeps_rbac_Authorize [where f = sans_tokens]
          keeps_userH_List [where f = sans_tokens] keeps_userH_Get [where f = sans_tokens] in simp))
  with assms have "?P k h" by (auto simp: list_all_iff)
  with that show thesis by auto
qed

lemma protected_effect:
  assumes mem: "((rq_Method (gc_Request c), rq_FullPath (gc_Request c)), h) \<in>
      set (under ''/api/v1'' (protected_routes L GL RT G D cfg))"
    and run: "h c w = (c', w')" and coh: "fresh w"
    and u: "caller c = Some (cl_UserID cl)" and holder: "holder cl"
  shows "allowed_change L holder (gc_Request c) (db_store V w) (db_store V w')"
  using mem
proof (cases rule: protected_cases)
  case reads
  from keepsD [OF reads run] show ?thesis by (simp add: allowed_change_def)
next
  case (gated h')
  from gate_run [OF run [unfolded gated(2)] coh] u gated(1) holder show ?thesis
    by (auto simp: allowed_change_def)
next
  case update
  from userH_Update_run [OF run [unfolded update(2)] u coh] update(1) holder show ?thesis
    unfolding allowed_change_def Param_def by auto
qed

lemma routes_cases:
  assumes "(k, h) \<in> set (routes L GL J RT prom G D cfg)"
  obtains (reads) "\<And>c. keeps (\<lambda>w. sans_tokens (db_store V w)) (h c)"
  | (signup) "k = (''POST'', ''/api/v1/auth/signup'')"
      "h = auth_Signup L GL RT (authHandlerSvc RT G D cfg)"
  | (protected) h' where "h = JWTAuth J RT (jwtMgr cfg) (blacklist D) h'"
      "(k, h') \<in> set (under ''/api/v1'' (protected_routes L GL RT G D cfg))"
proof -
  have eq: "set (routes L GL J RT prom G D cfg) =
      set [((''GET'', ''/health''), health), ((''GET'', ''/metrics''), prom)] \<union>
      set (under ''/api/v1/auth'' (auth_RegisterRoutes L GL J RT (authHandlerSvc RT G D cfg))) \<union>
      set (behind (JWTAuth J RT (jwtMgr cfg) (blacklist D))
        (under ''/api/v1'' (protected_routes L GL RT G D cfg)))"
    unfolding routes_def by (simp add: under_under under_behind Un_assoc)
  from assms have "(k, h) \<in> set [((''GET'', ''/health''), health), ((''GET'', ''/metrics''), prom)] \<or>
      (k, h) \<in> set (under ''/api/v1/auth'' (auth_RegisterRoutes L GL J RT (authHandlerSvc RT G D cfg))) \<or>
      (\<exists>h'. h = JWTAuth J RT (jwtMgr cfg) (blacklist D) h' \<and>
        (k, h') \<in> set (under ''/api/v1'' (protected_routes L GL RT G D cfg)))"
    unfolding eq Un_iff set_behind by blast
  then show thesis
  proof (elim disjE exE conjE)
    assume "(k, h) \<in> set [((''GET'', ''/health''), health), ((''GET'', ''/metrics''), prom)]"
    with keeps_health keeps_repo(6) show thesis by (intro reads) auto
  next
    assume "(k, h) \<in> set (under ''/api/v1/auth''
      (auth_RegisterRoutes L GL J RT (authHandlerSvc RT G D cfg)))"
    with keeps_Login keeps_Refresh signup reads show thesis by (auto simp: auth_RegisterRoutes_def)
  qed (rule protected)
qed

lemma allowed_same: "sans_tokens s' = sans_tokens s \<Longrightarrow> allowed_change L holder q s s'"
  by (simp add: allowed_change_def)

lemma router_effect:
  assumes run: "router L GL J RT TR prom G D cfg (new_context q) w = (c', w')" and coh: "fresh w"
  shows "allowed_change L (\<lambda>cl. holds_token cfg q cl (at_its_route q w)) q (db_store V w) (db_store V w')"
proof -
  let ?holder = "\<lambda>cl. holds_token cfg q cl (at_its_route q w)" and ?c = "new_context q"
  from router_run [OF run new_context_sel(4)] show ?thesis
  proof (elim disjE exE conjE)
    assume "passed w w'"
    then have "db_store V w' = db_store V w" by (simp add: passed_def)
    then show ?thesis by (simp add: allowed_same)
  next
    fix w1 c2 w2
    assume w1: "w1 = at_its_route (gc_Request ?c) w" and p1: "passed w w1"
      and d: "dispatch (routes L GL J RT prom G D cfg) ?c w1 = (c2, w2)" and p2: "passed w2 w'"
    from p2 have w': "db_store V w' = db_store V w2" by (simp add: passed_def)
    note F = fresh_passed [OF p1 coh]
    from d have "allowed_change L ?holder q (db_store V w1) (db_store V w2)"
    proof (cases rule: dispatch_cases)
      case no_route
      then show ?thesis by (simp add: allowed_same)
    next
      case (route h)
      from route(1) show ?thesis
      proof (cases rule: routes_cases)
        case reads
        from keepsD [OF reads route(2)] show ?thesis by (rule allowed_same)
      next
        case signup
        from auth_Signup_run [OF route(2) [unfolded signup(2)]] signup(1) show ?thesis
          by (auto simp: allowed_change_def)
      next
        case (protected h')
        from JWTAuth_run [OF route(2) [unfolded protected(1)]] show ?thesis
        proof (elim disjE exE conjE)
          assume "passed w1 w2"
          then show ?thesis by (simp add: passed_def allowed_same)
        next
          fix cl w3
          assume p3: "passed w1 w3" and t: "holds_token cfg (gc_Request ?c) cl w1"
            and h': "h' (set_claims cl ?c) w3 = (c2, w2)"
          from t have "?holder cl" by (simp add: w1)
          note F3 = fresh_passed [OF p3 F [THEN conjunct1]]
          have "allowed_change L ?holder (gc_Request (set_claims cl ?c)) (db_store V w3) (db_store V w2)"
            by (rule protected_effect [where holder = ?holder and c = "set_claims cl ?c" and h = h'
                and cl = cl and cfg = cfg])
              (use protected(2) h' F3 \<open>?holder cl\<close> in auto)
          with F3 show ?thesis by simp
        qed
      qed
    qed
    with F w' show ?thesis by simp
  qed
qed

text \<open>Without a valid token the protected routes answer 401, or 429, and nothing happens.\<close>

lemma public_not_protected:
  assumes "k \<in> fst ` set (under ''/api/v1'' (protected_routes L GL RT G D cfg))"
    and "(k, h) \<in> set (routes L GL J RT prom G D cfg)"
  shows "\<exists>h'. h = JWTAuth J RT (jwtMgr cfg) (blacklist D) h'"
proof -
  define public where "public = [((''GET'', ''/health''), health), ((''GET'', ''/metrics''), prom)] @
      under ''/api/v1/auth'' (auth_RegisterRoutes L GL J RT (authHandlerSvc RT G D cfg))"
  have all: "set (routes L GL J RT prom G D cfg) = set public \<union>
      set (behind (JWTAuth J RT (jwtMgr cfg) (blacklist D))
        (under ''/api/v1'' (protected_routes L GL RT G D cfg)))"
    unfolding routes_def public_def by (simp add: under_under under_behind Un_assoc)
  have apart: "list_all (\<lambda>(k, h). k \<notin> set (map fst public))
      (under ''/api/v1'' (protected_routes L GL RT G D cfg))"
    unfolding protected_routes_def auth_RegisterProtectedRoutes_def rbac_RegisterRoutes_def
      user_RegisterRoutes_def audit_RegisterRoutes_def Let_def auth_RegisterRoutes_def public_def
    by simp
  from assms(1) obtain h1 where "(k, h1) \<in> set (under ''/api/v1'' (protected_routes L GL RT G D cfg))"
    by auto
  with apart have "k \<notin> fst ` set public" by (auto simp: list_all_iff)
  then have "(k, h) \<notin> set public" by force
  with assms(2) show ?thesis unfolding all by (auto simp: set_behind)
qed

lemma unauthenticated:
  assumes run: "router L GL J RT TR prom G D cfg (new_context q) w = (c', w')"
    and k: "(rq_Method q, rq_FullPath q) \<in>
      fst ` set (under ''/api/v1'' (protected_routes L GL RT G D cfg))"
    and none: "\<And>cl. \<not> holds_token cfg q cl (at_its_route q w)"
  shows "(status_of c' = Some 401 \<or> status_of c' = Some 429) \<and> passed w w'"
proof -
  let ?c = "new_context q"
  from router_run [OF run new_context_sel(4)] show ?thesis
  proof (elim disjE exE conjE)
    fix w1 c2 w2
    assume w1: "w1 = at_its_route (gc_Request ?c) w" and p1: "passed w w1"
      and d: "dispatch (routes L GL J RT prom G D cfg) ?c w1 = (c2, w2)"
      and p2: "passed w2 w'" and c': "if gc_Panicked c2 then status_of c' = Some 500 else c' = c2"
    have "fst ` set (under ''/api/v1'' (protected_routes L GL RT G D cfg)) \<subseteq>
        fst ` set (routes L GL J RT prom G D cfg)"
      by (simp add: routes_def under_under under_behind fst_behind image_Un subset_insertI2 Un_upper2)
    with k have "(rq_Method (gc_Request ?c), rq_FullPath (gc_Request ?c)) \<in>
        fst ` set (routes L GL J RT prom G D cfg)" by auto
    from dispatch_known [OF d this] public_not_protected [OF k] obtain h'
      where "JWTAuth J RT (jwtMgr cfg) (blacklist D) h' ?c w1 = (c2, w2)" by auto
    from JWTAuth_run [OF this] none
    have "answers 401 ?c c2 \<and> passed w1 w2" by (auto simp: w1)
    then have "answers 401 ?c c2" "passed w1 w2" by auto
    with c' passed_trans [OF p1 passed_trans [OF _ p2]] show ?thesis
      by (auto simp: answers_def)
  qed simp
qed

end

text \<open>The reference platform, with \<open>/metrics\<close> answering an empty page.\<close>

interpretation ref_web: web ref_window ref_gorm Some "\<lambda>_. True" ref_coll ref_runtime
  ref_redis_window ref_redis "\<lambda>d. d" ref_lib ref_jwt ref_authentic ref_plain ref_gin ref_tracer
  "JSON 200 JNull"
  by unfold_locales (simp_all add: silent_def JSON_def untouched_def)

end
