(* ===== verification/Answers.thy ===== *)
theory Answers
  imports Access
begin

text \<open>
  Every request is answered: rules, directed by the form of a handler, for the fact that it sets a
  response or panics, which \<open>Recovery\<close> turns into a 500.
\<close>

section \<open>Responding\<close>

definition responds :: "('w \<Rightarrow> gin_context \<times> 'w) \<Rightarrow> bool" where
  "responds m \<longleftrightarrow> (\<forall>w. gc_Response (fst (m w)) \<noteq> None \<or> gc_Panicked (fst (m w)))"

named_theorems responds_intros \<open>a handler of this form responds\<close>

lemma responds_answer [responds_intros]:
  "responds (JSON n j c)" "responds (Error n code msg c)" "responds (Status n c)" "responds (panicked c)"
  by (simp_all add: responds_def JSON_def Error_def Status_def panicked_def)

lemma responds_bindS [responds_intros]: "(\<And>a. responds (f a)) \<Longrightarrow> responds (bindS m f)"
  by (simp add: responds_def bindS_def split: prod.split)

lemma responds_cases [responds_intros]:
  "(b \<Longrightarrow> responds m) \<Longrightarrow> (\<not> b \<Longrightarrow> responds n) \<Longrightarrow> responds (if b then m else n)"
  "responds n \<Longrightarrow> (\<And>a. responds (f a)) \<Longrightarrow> responds (case x of None \<Rightarrow> n | Some a \<Rightarrow> f a)"
  "(\<And>e. responds (g e)) \<Longrightarrow> (\<And>a. responds (h a)) \<Longrightarrow> responds (case s of Inl e \<Rightarrow> g e | Inr a \<Rightarrow> h a)"
  "(\<And>a b. responds (k a b)) \<Longrightarrow> responds (case p of (a, b) \<Rightarrow> k a b)"
  by (simp_all split: option.split sum.split prod.split)

lemma responds_key [responds_intros]:
  "(\<And>u. responds (f u)) \<Longrightarrow> responds n \<Longrightarrow> responds (case v of VUuid u \<Rightarrow> f u | _ \<Rightarrow> n)"
  by (simp split: key_value.split)

lemma responds_bindJSON [responds_intros]: "(\<And>req. responds (k req c)) \<Longrightarrow> responds (bindJSON GL fs k c)"
  unfolding bindJSON_def by (intro responds_intros)

lemma responds_parseID [responds_intros]: "(\<And>i. responds (k i c)) \<Longrightarrow> responds (parseID L s msg k c)"
  unfolding parseID_def by (intro responds_intros)

section \<open>The handlers and what is in front of them\<close>

lemma responds_gate [responds_intros]: "responds (h c) \<Longrightarrow> responds (RequirePermission authorize p h c)"
  unfolding RequirePermission_def by (intro responds_intros)

lemma responds_JWTAuth [responds_intros]: "(\<And>c. responds (h c)) \<Longrightarrow> responds (JWTAuth J RT mgr bl h c)"
  unfolding JWTAuth_def Let_def by (intro responds_intros)

lemma responds_RateLimit [responds_intros]: "responds (h c) \<Longrightarrow> responds (RateLimit RT rdb limit window h c)"
  unfolding RateLimit_def Let_def by (intro responds_intros)

lemma responds_mustGetCaller [responds_intros]: "(\<And>u. responds (k u c)) \<Longrightarrow> responds (mustGetCaller k c)"
  unfolding mustGetCaller_def by (intro responds_intros)

lemma responds_selfOr [responds_intros]: "responds (k c) \<Longrightarrow> responds (selfOr H u v p msg k c)"
  unfolding selfOr_def by (intro responds_intros)

lemma responds_auth [responds_intros]:
  "responds (auth_Signup L GL RT S c)" "responds (auth_Login L GL J RT S c)"
  "responds (auth_Refresh L GL J RT S c)" "responds (auth_Logout L GL RT S c)"
  unfolding auth_Signup_def auth_Login_def auth_Refresh_def auth_Logout_def Let_def
  by (intro responds_intros)+

lemma responds_rbac [responds_intros]:
  "responds (rbac_CreateRole L GL H c)" "responds (rbac_ListRoles L H c)" "responds (rbac_DeleteRole L H c)"
  "responds (rbac_CreatePermission L GL H c)" "responds (rbac_ListPermissions L H c)"
  "responds (rbac_DeletePermission L H c)" "responds (rbac_AssignRole L GL RT H c)"
  "responds (rbac_RemoveRole L H c)" "responds (rbac_AttachPermission L GL H c)"
  "responds (rbac_Authorize L GL H c)"
  unfolding rbac_CreateRole_def rbac_ListRoles_def rbac_DeleteRole_def rbac_CreatePermission_def
    rbac_ListPermissions_def rbac_DeletePermission_def rbac_AssignRole_def rbac_RemoveRole_def
    rbac_AttachPermission_def rbac_Authorize_def
  by (intro responds_intros)+

lemma responds_users [responds_intros]:
  "responds (userH_List L H c)" "responds (userH_Get L H c)" "responds (userH_Update L GL H c)"
  "responds (auditlog_List L A c)" "responds (health c)"
  unfolding userH_List_def userH_Get_def userH_Update_def auditlog_List_def health_def Let_def
  by (intro responds_intros)+

section \<open>The routes\<close>

lemma responds_dispatch:
  assumes "list_all (\<lambda>(k, h). \<forall>c. responds (h c)) rs"
  shows "responds (dispatch rs c)"
  using assms unfolding dispatch_def
  by (auto simp: responds_answer list_all_iff split: option.split dest!: map_of_SomeD)

lemma list_all_under: "list_all (\<lambda>(k, h). P h) (under a rs) = list_all (\<lambda>(k, h). P h) rs"
  by (auto simp: under_def list_all_iff)

lemma list_all_behind: "list_all (\<lambda>(k, h). P h) (behind m rs) = list_all (\<lambda>(k, h). P (m h)) rs"
  by (auto simp: behind_def list_all_iff)

lemma routes_respond:
  assumes "\<And>c. responds (prom c)"
  shows "list_all (\<lambda>(k, h). \<forall>c. responds (h c)) (routes L GL J RT prom G D cfg)"
proof -
  have "list_all (\<lambda>(k, h). \<forall>c. responds (h c)) (protected_routes L GL RT G D cfg)"
    unfolding protected_routes_def auth_RegisterProtectedRoutes_def rbac_RegisterRoutes_def
      user_RegisterRoutes_def audit_RegisterRoutes_def Let_def
    by (simp add: responds_intros)
  then have "list_all (\<lambda>(k, h). \<forall>c. responds (JWTAuth J RT (jwtMgr cfg) (blacklist D) h c))
      (protected_routes L GL RT G D cfg)"
    by (rule list.pred_mono_strong) (auto intro: responds_JWTAuth)
  moreover have "list_all (\<lambda>(k, h). \<forall>c. responds (h c)) (auth_RegisterRoutes L GL J RT (authHandlerSvc RT G D cfg))"
    by (simp add: auth_RegisterRoutes_def responds_intros)
  ultimately show ?thesis
    using assms unfolding routes_def
    by (simp add: list_all_under list_all_behind responds_intros)
qed

text \<open>Metrics and tracing hand the response on.\<close>

lemma responds_observed:
  assumes "responds (h c)"
  shows "responds (HTTPMetrics RT h c)" "responds (Tracing TR h c)"
proof -
  from assms have h: "gc_Response c' \<noteq> None \<or> gc_Panicked c'" if "h c w = (c', w')" for w c' w'
    using that unfolding responds_def by (metis fst_conv)
  show "responds (HTTPMetrics RT h c)" "responds (Tracing TR h c)"
    by (auto simp: responds_def HTTPMetrics_def Tracing_def bindS_def doS_def split: prod.split dest!: h)
qed

lemma router_responds:
  assumes "\<And>c. responds (prom c)"
  shows "gc_Response (fst (router L GL J RT TR prom G D cfg c w)) \<noteq> None"
proof -
  let ?chain = "\<lambda>c. HTTPMetrics RT (Tracing TR (RateLimit RT (Some D) 100 minute
    (dispatch (routes L GL J RT prom G D cfg)))) c"
  have "responds (?chain c)"
    by (intro responds_observed responds_RateLimit responds_dispatch routes_respond assms)
  then show ?thesis
    by (auto simp: router_def Recovery_def bindS_def responds_def split: prod.split) (metis fst_conv)
qed

end
