(* ===== verification/Seed.thy ===== *)
theory Seed
  imports PgBase
begin

text \<open>
  The data \<open>migrations/0001_init.up.sql\<close> inserts: three roles, seven permissions and what the
  roles grant. It is a well-formed database, and each role grants what is listed for it.
\<close>

definition seed_roles :: "(string \<times> string) list" where
  "seed_roles = [(''admin'', ''Full administrative access''),
     (''manager'', ''Manage users and approve requests''),
     (''developer'', ''Standard authenticated user'')]"

definition seed_permissions :: "(string \<times> string \<times> string \<times> string) list" where
  "seed_permissions =
     [(''create_user'', ''user'', ''create'', ''Create new users''),
      (''delete_user'', ''user'', ''delete'', ''Delete users''),
      (''assign_role'', ''role'', ''assign'', ''Assign roles and manage RBAC entities''),
      (''view_audit'', ''audit'', ''view'', ''View audit logs''),
      (''view_users'', ''user'', ''view'', ''List and view users''),
      (''approve_request'', ''request'', ''approve'', ''Approve pending requests''),
      (''view_profile'', ''user'', ''view_self'', ''View own profile'')]"

definition seed_grants :: "(string \<times> string list) list" where
  "seed_grants =
     [(''admin'', [''create_user'', ''delete_user'', ''assign_role'', ''view_audit'']),
      (''manager'', [''view_users'', ''approve_request'']),
      (''developer'', [''view_profile''])]"

text \<open>
  The database after the migration: \<open>rid\<close> and \<open>pid\<close> are the identifiers that
  \<open>gen_random_uuid\<close> has chosen for the names, \<open>t\<close> is the time.
\<close>

definition seeded :: "(string \<Rightarrow> uuid) \<Rightarrow> (string \<Rightarrow> uuid) \<Rightarrow> time \<Rightarrow> tables" where
  "seeded rid pid t = no_tables\<lparr>
     tb_roles := map (\<lambda>(n, d). \<lparr>rm_ID = rid n, rm_Name = n, rm_Description = d, rm_CreatedAt = t\<rparr>) seed_roles,
     tb_permissions := map (\<lambda>(n, res, act, d). \<lparr>pm_ID = pid n, pm_Name = n, pm_Resource = res,
       pm_Action = act, pm_Description = d, pm_CreatedAt = t\<rparr>) seed_permissions,
     tb_role_permissions := concat (map (\<lambda>(r, ps). map (\<lambda>p. \<lparr>rpm_RoleID = rid r, rpm_PermissionID = pid p,
       rpm_GrantedAt = t\<rparr>) ps) seed_grants)\<rparr>"

lemma seeded_wf:
  assumes "inj rid" and "inj pid"
  shows "wf_tables (seeded rid pid t)"
  using assms by (simp add: seeded_def seed_roles_def seed_permissions_def seed_grants_def
      wf_tables_def no_tables_def inj_eq)

lemma seeded_grants:
  assumes "inj rid" and "inj pid" and "(r, ps) \<in> set seed_grants"
    and "\<And>i. (u, i) \<in> st_assign s \<longleftrightarrow> i = rid r"
    and "st_perms s = st_perms (store_of (seeded rid pid t))"
    and "st_grant s = st_grant (store_of (seeded rid pid t))"
  shows "perm_names s u = set ps"
proof -
  have "perm_names s u = p_Name ` {p \<in> st_perms s. (rid r, p_ID p) \<in> st_grant s}"
    by (simp add: perm_names_def user_perms_def assms(4))
  also have "\<dots> = {n \<in> fst ` set seed_permissions. (rid r, pid n) \<in> st_grant s}"
    unfolding assms(5) by (force simp: seeded_def no_tables_def fromPermissionModel_def)
  also have "\<dots> = {n \<in> fst ` set seed_permissions. \<exists>qs. (r, qs) \<in> set seed_grants \<and> n \<in> set qs}"
    unfolding assms(6) using assms(1,2) by (force simp: seeded_def no_tables_def inj_eq)
  also have "\<dots> = set ps"
    using assms(3) by (auto simp: seed_grants_def seed_permissions_def)
  finally show ?thesis .
qed

text \<open>So the administrator does not hold \<open>view_users\<close>, which the list of users takes.\<close>

lemma admin_lacks_view_users:
  "(''admin'', ps) \<in> set seed_grants \<Longrightarrow> ''view_users'' \<notin> set ps \<and> ''view_profile'' \<notin> set ps"
  by (auto simp: seed_grants_def)

end
