(* ===== verification/Props_Rbac.thy ===== *)
theory Props_Rbac
  imports Wiring
begin

text \<open>
  Properties of the RBAC service on top of Postgres and Redis: what assignments, grants and
  deletions do to the database, the outbox and the permission cache.
\<close>

abbreviation ref_rbac :: "'x redis_world_scheme RbacService" where
  "ref_rbac \<equiv> rbacSvc ref_gorm ref_redis ref_lib"

lemma coherent_empty: "(\<And>k. rs_keys s k = None) \<Longrightarrow> coherent (cached_perms L c s) truth"
  by (simp add: coherent_def cached_perms_def rd_members_def split: option.splits)

lemma demo_coherent:
  "coherent (cache_of ref_lib ref_redis_window ref_redis demo) (perm_names (db_store ref_window demo))"
  by (rule coherent_empty) (simp add: demo_def ref_redis_window_def)

lemma demo_up: "up ref_redis_window demo" "up ref_window demo"
  by code_simp+

section \<open>Assignments\<close>

text \<open>
  C4. Assigning a role writes the assignment and its event together or not at all; it
  succeeds whenever the database is up and the foreign keys allow it; and after a success with
  Redis up a coherent permission cache is coherent again, without an entry for the user.
\<close>

theorem assign_role_committed:
  assumes "pg_platform V G jsonb fits coll RT K D ttl L"
    and "AssignRoleToUser L RT (rbacSvc G D L) Background u i a w = (r, w')"
  shows "committed (up V w) (encodable L jsonb fits ''role.assigned'' (role_assigned L u i a))
      (encodes L jsonb) (assignable u i a) (assign u i) ''role.assigned'' (role_assigned L u i a)
      (db_store V w) r (db_store V w') \<and>
    (r = Inr () \<longrightarrow> up K w \<longrightarrow> cache_of L K D w' u = None \<and>
      (coherent (cache_of L K D w) (perm_names (db_store V w)) \<longrightarrow>
       coherent (cache_of L K D w') (perm_names (db_store V w'))))"
  using pg_platform.AssignRoleToUser_run [OF assms] pg_platform.AssignRoleToUser_fresh [OF assms(1)] assms(2)
  by blast

theorem assign_role_committed_witness:
  "case AssignRoleToUser ref_lib ref_runtime ref_rbac Background 2 7 1 demo of (r, w') \<Rightarrow>
     r = Inr () \<and> cache_of ref_lib ref_redis_window ref_redis w' 2 = None \<and>
     coherent (cache_of ref_lib ref_redis_window ref_redis w') (perm_names (db_store ref_window w'))"
proof -
  have run: "fst (AssignRoleToUser ref_lib ref_runtime ref_rbac Background 2 7 1 demo) = Inr ()"
    by code_simp
  with assign_role_committed [where u = 2 and i = 7 and a = 1 and w = demo,
      OF ref_platform.pg_platform_axioms prod.collapse [symmetric]] demo_up demo_coherent
  show ?thesis by (simp add: case_prod_beta)
qed

text \<open>
  C5. Removing a role: the same, and it needs no foreign key; what is removed is gone.
\<close>

theorem remove_role_committed:
  assumes "pg_platform V G jsonb fits coll RT K D ttl L"
    and "RemoveRoleFromUser L (rbacSvc G D L) Background u i w = (r, w')"
  shows "committed (up V w) (encodable L jsonb fits ''role.revoked'' (role_revoked L u i))
      (encodes L jsonb) (\<lambda>_. True) (unassign u i) ''role.revoked'' (role_revoked L u i)
      (db_store V w) r (db_store V w') \<and>
    (r = Inr () \<longrightarrow> (u, i) \<notin> st_assign (db_store V w') \<and>
      (up K w \<longrightarrow> cache_of L K D w' u = None \<and>
      (coherent (cache_of L K D w) (perm_names (db_store V w)) \<longrightarrow>
       coherent (cache_of L K D w') (perm_names (db_store V w')))))"
proof -
  note R = pg_platform.RemoveRoleFromUser_run [OF assms]
  have "r = Inr () \<longrightarrow> (u, i) \<notin> st_assign (db_store V w')"
    using R(1) by (auto simp: committed_def recorded_def unassign_def simp del: store_of_sel)
  with R pg_platform.RemoveRoleFromUser_fresh [OF assms(1)] assms(2) show ?thesis by blast
qed

theorem remove_role_committed_witness:
  "case RemoveRoleFromUser ref_lib ref_rbac Background 2 8 demo of (r, w') \<Rightarrow>
     r = Inr () \<and> (2, 8) \<notin> st_assign (db_store ref_window w') \<and>
     coherent (cache_of ref_lib ref_redis_window ref_redis w') (perm_names (db_store ref_window w'))"
proof -
  have run: "fst (RemoveRoleFromUser ref_lib ref_rbac Background 2 8 demo) = Inr ()"
    by code_simp
  with remove_role_committed [where u = 2 and i = 8 and w = demo,
      OF ref_platform.pg_platform_axioms prod.collapse [symmetric]] demo_up demo_coherent
  show ?thesis by (simp add: case_prod_beta)
qed

text \<open>
  C6. Attaching a permission to a role: the grant and its event together or not at all; after a
  success with both stores up, no holder of the role has a cached set any more, and a coherent
  cache is coherent again.
\<close>

theorem attach_permission_committed:
  assumes "pg_platform V G jsonb fits coll RT K D ttl L"
    and "AttachPermissionToRole L (rbacSvc G D L) Background i j w = (r, w')"
  shows "committed (up V w) (encodable L jsonb fits ''permission.attached'' (permission_attached L i j))
      (encodes L jsonb) (grantable i j) (grant i j) ''permission.attached'' (permission_attached L i j)
      (db_store V w) r (db_store V w') \<and>
    (r = Inr () \<longrightarrow> up V w \<longrightarrow> up K w \<longrightarrow>
      (\<forall>v. (v, i) \<in> st_assign (db_store V w) \<longrightarrow> cache_of L K D w' v = None) \<and>
      (coherent (cache_of L K D w) (perm_names (db_store V w)) \<longrightarrow>
       coherent (cache_of L K D w') (perm_names (db_store V w'))))"
  using pg_platform.AttachPermissionToRole_run [OF assms]
    pg_platform.AttachPermissionToRole_fresh [OF assms(1)] assms(2)
  by blast

theorem attach_permission_committed_witness:
  "case AttachPermissionToRole ref_lib ref_rbac Background 8 9 demo of (r, w') \<Rightarrow>
     r = Inr () \<and> cache_of ref_lib ref_redis_window ref_redis w' 2 = None \<and>
     coherent (cache_of ref_lib ref_redis_window ref_redis w') (perm_names (db_store ref_window w'))"
proof -
  have run: "fst (AttachPermissionToRole ref_lib ref_rbac Background 8 9 demo) = Inr ()"
    and held: "(2, 8) \<in> st_assign (db_store ref_window demo)"
    by code_simp+
  with attach_permission_committed [where i = 8 and j = 9 and w = demo,
      OF ref_platform.pg_platform_axioms prod.collapse [symmetric]] demo_up demo_coherent
  show ?thesis by (simp add: case_prod_beta)
qed

section \<open>Deletions\<close>

text \<open>
  C7. Deleting a role removes it with its assignments and grants, and only ever takes
  permissions away; but the permission cache is left as it is. (In the example the
  deleted role's permission is still answered from the cache.)
\<close>

theorem delete_role_leaves_cache:
  assumes "pg_platform V G jsonb fits coll RT K D ttl L"
    and "DeleteRole (rbacSvc G D L) Background i w = (r, w')"
  shows "changed (up V w) True (\<lambda>_ s'. s' = drop_role i (db_store V w)) (db_store V w) r (db_store V w') \<and>
    (\<forall>v. perm_names (db_store V w') v \<subseteq> perm_names (db_store V w) v) \<and>
    cache_of L K D w' = cache_of L K D w"
proof -
  note R = pg_platform.DeleteRole_run [OF assms]
  have "perm_names (db_store V w') v \<subseteq> perm_names (db_store V w) v" for v
    using R(2) perm_names_drop_role by (cases r) auto
  with R show ?thesis by simp
qed

lemma perm_names_none: "\<forall>x\<in>st_assign s. fst x \<noteq> u \<Longrightarrow> perm_names s u = {}"
  by (force simp: perm_names_def user_perms_def)

text \<open>The example world with a cached set for user 1.\<close>

definition demo_hit :: redis_world where
  "demo_hit = demo\<lparr>rw_state := \<lparr>rs_keys =
     [permissionsKey ref_lib 1 \<mapsto> (RSet [''assign_role''], None)], rs_now = 0\<rparr>\<rparr>"

theorem delete_role_leaves_cache_witness:
  "case DeleteRole ref_rbac Background 7 demo_hit of (r, w') \<Rightarrow>
     r = Inr () \<and> perm_names (db_store ref_window w') 1 = {} \<and>
     cache_of ref_lib ref_redis_window ref_redis w' 1 = Some {''assign_role''} \<and>
     fst (Authorize ref_lib ref_runtime ref_rbac Background 1 ''assign_role'' w') = Inr True"
proof -
  have "case DeleteRole ref_rbac Background 7 demo_hit of (r, w') \<Rightarrow> r = Inr () \<and>
      fst (Authorize ref_lib ref_runtime ref_rbac Background 1 ''assign_role'' w') = Inr True \<and>
      (\<forall>x\<in>st_assign (db_store ref_window w'). fst x \<noteq> 1)"
    by code_simp
  then have run: "fst (DeleteRole ref_rbac Background 7 demo_hit) = Inr ()"
    and stale: "fst (Authorize ref_lib ref_runtime ref_rbac Background 1 ''assign_role''
      (snd (DeleteRole ref_rbac Background 7 demo_hit))) = Inr True"
    and none: "\<forall>x\<in>st_assign (db_store ref_window (snd (DeleteRole ref_rbac Background 7 demo_hit))). fst x \<noteq> 1"
    by (simp_all add: case_prod_beta del: store_of_sel)
  have hit: "cache_of ref_lib ref_redis_window ref_redis demo_hit 1 = Some {''assign_role''}"
    by code_simp
  note perm_names_none [OF none] run hit stale
  with delete_role_leaves_cache [where i = 7 and w = demo_hit,
      OF ref_platform.pg_platform_axioms prod.collapse [symmetric]]
  show ?thesis by (simp add: case_prod_beta)
qed

lemma perm_names_drop_perm: "perm_names (drop_perm i s) v \<subseteq> perm_names s v"
  by (auto simp: perm_names_def user_perms_def drop_perm_def)

text \<open>Deleting a permission: the same, with its grants; the cache is left as it is.\<close>

theorem delete_permission_leaves_cache:
  assumes "pg_platform V G jsonb fits coll RT K D ttl L"
    and "DeletePermission (rbacSvc G D L) Background i w = (r, w')"
  shows "changed (up V w) True (\<lambda>_ s'. s' = drop_perm i (db_store V w)) (db_store V w) r (db_store V w') \<and>
    (\<forall>v. perm_names (db_store V w') v \<subseteq> perm_names (db_store V w) v) \<and>
    cache_of L K D w' = cache_of L K D w"
proof -
  note R = pg_platform.DeletePermission_run [OF assms]
  have "perm_names (db_store V w') v \<subseteq> perm_names (db_store V w) v" for v
    using R(2) perm_names_drop_perm by (cases r) auto
  with R show ?thesis by simp
qed

theorem delete_permission_leaves_cache_witness:
  "case DeletePermission ref_rbac Background 9 demo_hit of (r, w') \<Rightarrow>
     r = Inr () \<and> cache_of ref_lib ref_redis_window ref_redis w' 1 = Some {''assign_role''}"
proof -
  have run: "fst (DeletePermission ref_rbac Background 9 demo_hit) = Inr ()"
    and hit: "cache_of ref_lib ref_redis_window ref_redis demo_hit 1 = Some {''assign_role''}"
    by code_simp+
  with delete_permission_leaves_cache [where i = 9 and w = demo_hit,
      OF ref_platform.pg_platform_axioms prod.collapse [symmetric]]
  show ?thesis by (simp add: case_prod_beta)
qed

section \<open>The queries\<close>

text \<open>
  C9. The query behind the check, a join of permissions, grants and assignments, answers with
  exactly the permissions that the user holds through some role, each once even if several of his
  roles grant it; it fails only when the
  database does, and changes nothing.
\<close>

theorem user_permissions_join:
  assumes "pg_platform V G jsonb fits coll RT K D ttl L"
    and "users_GetPermissions (NewUserRepository G) Background i w = (r, w')"
  shows "seen V BaseDB w' = seen V BaseDB w \<and> (case r of
      Inr ps \<Rightarrow> distinct ps \<and> set ps = {p \<in> st_perms (db_store V w). \<exists>r. (i, r) \<in> st_assign (db_store V w) \<and>
        (r, p_ID p) \<in> st_grant (db_store V w)}
    | Inl e \<Rightarrow> \<not> up V w)"
  using readsD [OF pg_platform.GetPermissions_reads [OF assms(1)] assms(2)]
  by (auto simp: user_perms_def answered_def simp del: store_of_sel split: sum.splits
      dest: untouched_seen [where d = Background])

text \<open>User 2 with both roles, each of which grants \<open>view_profile\<close>.\<close>

definition demo_twice :: redis_world where
  "demo_twice = demo\<lparr>db_base := demo_tables\<lparr>
     tb_user_roles := \<lparr>urm_UserID = 2, urm_RoleID = 7, urm_AssignedBy = None, urm_AssignedAt = 0\<rparr> #
       tb_user_roles demo_tables,
     tb_role_permissions := \<lparr>rpm_RoleID = 7, rpm_PermissionID = 10, rpm_GrantedAt = 0\<rparr> #
       tb_role_permissions demo_tables\<rparr>\<rparr>"

theorem user_permissions_join_witness:
  "\<exists>ps. fst (users_GetPermissions (NewUserRepository ref_gorm) Background 2 demo_twice) = Inr ps \<and> distinct ps \<and>
     p_Name ` set ps = {''assign_role'', ''view_profile''}"
proof -
  have run: "map_sum id (\<lambda>ps. set (map p_Name ps))
      (fst (users_GetPermissions (NewUserRepository ref_gorm) Background 2 demo_twice)) =
      Inr {''assign_role'', ''view_profile''}"
    by code_simp
  then obtain ps where "fst (users_GetPermissions (NewUserRepository ref_gorm) Background 2 demo_twice) = Inr ps"
    by (cases "fst (users_GetPermissions (NewUserRepository ref_gorm) Background 2 demo_twice)") auto
  with run user_permissions_join [where i = 2 and w = demo_twice,
      OF ref_platform.pg_platform_axioms prod.collapse [symmetric]]
  show ?thesis by (auto simp del: store_of_sel)
qed

text \<open>
  C10. The list of users: the total is the number of users, and a page is a section of one
  order of all users by creation, newest first. For limits and offsets that are not negative.
\<close>

theorem user_list_pages:
  assumes "pg_platform V G jsonb fits coll RT K D ttl L"
    and "userSvc_List (userSvc G) Background l k w = (r, w')" and "0 \<le> l" and "0 \<le> k"
  shows "seen V BaseDB w' = seen V BaseDB w \<and> (case r of
      Inr (us, n) \<Rightarrow> n = int (length (tb_users (seen V BaseDB w))) \<and>
        (\<exists>ms. mset ms = mset (tb_users (seen V BaseDB w)) \<and>
          sorted_wrt (\<lambda>a b. um_CreatedAt b \<le> um_CreatedAt a) ms \<and>
          us = map fromUserModel (take (nat l) (drop (nat k) ms)))
    | Inl e \<Rightarrow> \<not> up V w)"
  using readsD [OF pg_platform.UserPage_reads [OF assms(1,3,4)]
      assms(2) [unfolded userSvc_List_def userSvc_sel NewUserRepository_sel]]
  by (auto simp: answered_def split: sum.splits prod.splits dest: untouched_seen [where d = Background])

theorem user_list_pages_witness:
  "map_sum id (map_prod length id) (fst (userSvc_List (userSvc ref_gorm) Background 1 1 demo)) = Inr (1, 2) \<and>
   seen ref_window BaseDB (snd (userSvc_List (userSvc ref_gorm) Background 1 1 demo)) =
     seen ref_window BaseDB demo"
proof -
  have run: "map_sum id (map_prod length id)
      (fst (userSvc_List (userSvc ref_gorm) Background 1 1 demo)) = Inr (1, 2)"
    by code_simp
  with user_list_pages [where l = 1 and k = 1 and w = demo,
      OF ref_platform.pg_platform_axioms prod.collapse [symmetric]]
  show ?thesis by simp
qed

end
