(* ===== verification/Props_Auth.thy ===== *)
theory Props_Auth
  imports Props_Rbac
begin

text \<open>
  Properties of the authentication service on top of Postgres and Redis, and of the access
  tokens: who gets in, what a refresh token is good for, what logging out achieves.
\<close>

text \<open>
  The examples run with a runtime and a token library that hand out short texts, so that they
  evaluate quickly; the platform's laws hold of them as of the reference ones.
\<close>

definition brief_runtime :: "redis_world runtime" where
  "brief_runtime = ref_runtime\<lparr>rt_Rand := \<lambda>n. Pair ''y'', rt_NewString := Pair ''j''\<rparr>"

definition brief_jwt :: jwtlib where
  "brief_jwt = \<lparr>jl_NumericDate = (\<lambda>t. t), jl_SignedString = (\<lambda>c k. Some (cl_ID c)),
     jl_ParseWithClaims = (\<lambda>now tok kf. Inl ErrInvalidToken)\<rparr>"

abbreviation brief_auth :: "redis_world AuthService" where
  "brief_auth \<equiv> authSvc ref_gorm ref_redis brief_runtime (NewManager ''k'' (15 * minute)) (7 * 24 * hour)"

interpretation brief: quiet_runtime ref_window brief_runtime
  by unfold_locales
    (auto simp: silent_def brief_runtime_def ref_runtime_def ref_Now_def okE_def intro: ref_tick)

interpretation brief_redis: quiet_runtime ref_redis_window brief_runtime
  by unfold_locales
    (auto simp: silent_def brief_runtime_def ref_runtime_def ref_Now_def okE_def ref_redis_window_def
      untouched_def)

interpretation brief_platform: pg_platform ref_window ref_gorm Some "\<lambda>_. True" ref_coll brief_runtime
  ref_redis_window ref_redis "\<lambda>d. d" ref_lib
  by unfold_locales (rule ref_platform.apart)

text \<open>The example world with a refresh token of user 2 for the text \<open>r\<close>.\<close>

definition demo_token :: RefreshTokenModel where
  "demo_token = \<lparr>rtm_ID = 5, rtm_UserID = 2, rtm_TokenHash = hashToken ref_lib ''r'',
     rtm_ExpiresAt = 1000, rtm_RevokedAt = None, rtm_CreatedAt = 0\<rparr>"

definition demo_session :: redis_world where
  "demo_session = demo\<lparr>db_base := demo_tables\<lparr>tb_refresh_tokens := [demo_token]\<rparr>\<rparr>"

section \<open>Accounts\<close>

text \<open>
  C11. Signup: a success means that the email was free, and that the account is there,
  active, with a bcrypt hash of the password, holding at most the default role; it holds that
  role if it exists and the database stays up. An error changes nothing, and \<open>ErrAlreadyExists\<close>
  is the answer to a taken email and to nothing else.
\<close>

theorem signup_creates:
  assumes "pg_platform V G jsonb fits coll RT K D ttl L"
    and "Signup RT (authSvc G D RT m d) Background email pw name w = (r, w')"
  shows "(case r of
      Inl e \<Rightarrow> db_store V w' = db_store V w \<and>
        (e = ErrAlreadyExists \<longrightarrow> email \<in> u_Email ` st_users (db_store V w))
    | Inr u \<Rightarrow> signed_up (up V w) email name u (db_store V w) (db_store V w') \<and>
        (\<exists>w1 w2. rt_Bcrypt RT pw w1 = (Inr (u_PasswordHash u), w2))) \<and>
    (up V w \<longrightarrow> email \<in> u_Email ` st_users (db_store V w) \<longrightarrow> r = Inl ErrAlreadyExists)"
  using pg_platform.Signup_run [OF assms] by blast

theorem signup_creates_witness:
  "fst (Signup brief_runtime brief_auth Background ''ann@x'' ''password'' ''Ann'' demo) = Inl ErrAlreadyExists \<and>
   (\<exists>u s'. fst (Signup brief_runtime brief_auth Background ''cy@x'' ''password'' ''Cy'' demo) = Inr u \<and>
      signed_up True ''cy@x'' ''Cy'' u (db_store ref_window demo) s')"
proof -
  have taken: "fst (Signup brief_runtime brief_auth Background ''ann@x'' ''password'' ''Ann'' demo) =
      Inl ErrAlreadyExists"
    and ok: "map_sum id (\<lambda>_. ()) (fst (Signup brief_runtime brief_auth Background ''cy@x'' ''password'' ''Cy'' demo)) =
      Inr ()"
    by code_simp+
  from ok obtain u where "fst (Signup brief_runtime brief_auth Background ''cy@x'' ''password'' ''Cy'' demo) = Inr u"
    by (cases "fst (Signup brief_runtime brief_auth Background ''cy@x'' ''password'' ''Cy'' demo)") auto
  with signup_creates [where email = "''cy@x''" and pw = "''password''" and name = "''Cy''" and w = demo
      and m = "NewManager ''k'' (15 * minute)" and d = "7 * 24 * hour",
      OF brief_platform.pg_platform_axioms prod.collapse [symmetric]] taken demo_up
  show ?thesis by auto
qed

text \<open>
  C12. Login: a token pair is issued only for an email and a password of an active user, and
  then one refresh token of that user is added, stored as its hash; wrong credentials are
  answered by \<open>ErrInvalidCredentials\<close> while the database is up; an error changes nothing.
\<close>

theorem login_needs_password:
  assumes "pg_platform V G jsonb fits coll RT K D ttl L"
    and "Login L J RT (authSvc G D RT m d) Background email pw w = (r, w')"
  shows "(case r of
      Inr p \<Rightarrow> \<exists>u\<in>st_users (db_store V w). u_Email u = email \<and> u_IsActive u \<and>
        bcrypt_Compare L (u_PasswordHash u) pw \<and>
        token_added L (u_ID u) (tp_RefreshToken p) (db_store V w) (db_store V w')
    | Inl e \<Rightarrow> db_store V w' = db_store V w) \<and>
    (up V w \<longrightarrow> (\<forall>u\<in>st_users (db_store V w). u_Email u = email \<longrightarrow>
        \<not> (u_IsActive u \<and> bcrypt_Compare L (u_PasswordHash u) pw)) \<longrightarrow>
      r = Inl ErrInvalidCredentials)"
  using pg_platform.Login_run [OF assms] by blast

theorem login_needs_password_witness:
  "fst (Login ref_lib brief_jwt brief_runtime brief_auth Background ''ben@x'' ''wrong'' demo) = Inl ErrInvalidCredentials \<and>
   (case Login ref_lib brief_jwt brief_runtime brief_auth Background ''ben@x'' ''secret'' demo of (r, w') \<Rightarrow>
      \<exists>p. \<exists>u\<in>st_users (db_store ref_window demo). r = Inr p \<and> u_Email u = ''ben@x'' \<and>
        token_added ref_lib (u_ID u) (tp_RefreshToken p) (db_store ref_window demo) (db_store ref_window w'))"
proof -
  let ?login = "\<lambda>pw. Login ref_lib brief_jwt brief_runtime brief_auth Background ''ben@x'' pw demo"
  have wrong: "fst (?login ''wrong'') = Inl ErrInvalidCredentials"
    and ok: "map_sum id (\<lambda>_. ()) (fst (?login ''secret'')) = Inr ()"
    by code_simp+
  from ok obtain p where "fst (?login ''secret'') = Inr p" by (cases "fst (?login ''secret'')") auto
  with conjunct1 [OF login_needs_password [where J = brief_jwt and email = "''ben@x''" and pw = "''secret''"
      and w = demo and m = "NewManager ''k'' (15 * minute)" and d = "7 * 24 * hour",
      OF brief_platform.pg_platform_axioms prod.collapse [symmetric]]] wrong
  show ?thesis unfolding case_prod_beta by (simp del: store_of_sel) blast
qed

section \<open>Refresh tokens\<close>

text \<open>
  C13. Refresh: a new pair is issued only for a stored token with the hash of the one presented
  that is neither revoked nor expired; that token is then revoked, and the new one is its
  user's. A failure changes nothing, except that it may come after the revocation.
\<close>

theorem refresh_rotates:
  assumes "pg_platform V G jsonb fits coll RT K D ttl L"
    and "Refresh L J RT (authSvc G D RT m d) Background raw w = (r, w')"
  shows "case r of
      Inr p \<Rightarrow> \<exists>t\<in>st_tokens (db_store V w). t_TokenHash t = hashToken L raw \<and> t_RevokedAt t = None \<and>
        (\<exists>now w1 w2. rt_Now RT w1 = (now, w2) \<and> now \<le> t_ExpiresAt t) \<and>
        (\<exists>s1. revoked (t_ID t) (db_store V w) s1 \<and>
          token_added L (t_UserID t) (tp_RefreshToken p) s1 (db_store V w'))
    | Inl e \<Rightarrow> db_store V w' = db_store V w \<or> (\<exists>t\<in>st_tokens (db_store V w).
        t_TokenHash t = hashToken L raw \<and> t_RevokedAt t = None \<and>
        revoked (t_ID t) (db_store V w) (db_store V w'))"
  using pg_platform.Refresh_run [OF assms] by simp

theorem refresh_rotates_witness:
  "case Refresh ref_lib brief_jwt brief_runtime brief_auth Background ''r'' demo_session of (r, w') \<Rightarrow>
     \<exists>p t s1. r = Inr p \<and> t \<in> st_tokens (db_store ref_window demo_session) \<and>
       revoked (t_ID t) (db_store ref_window demo_session) s1 \<and>
       token_added ref_lib (t_UserID t) (tp_RefreshToken p) s1 (db_store ref_window w')"
proof -
  let ?r = "Refresh ref_lib brief_jwt brief_runtime brief_auth Background ''r'' demo_session"
  have ok: "map_sum id (\<lambda>_. ()) (fst ?r) = Inr ()" by code_simp
  then obtain p where "fst ?r = Inr p" by (cases "fst ?r") auto
  with refresh_rotates [where J = brief_jwt and raw = "''r''" and w = demo_session
      and m = "NewManager ''k'' (15 * minute)" and d = "7 * 24 * hour",
      OF brief_platform.pg_platform_axioms prod.collapse [symmetric]]
  show ?thesis by (auto simp: case_prod_beta simp del: store_of_sel)
qed

text \<open>
  Single use: after a refresh that succeeded, presenting the same token again gets nothing
  and changes nothing. (Stored hashes being unique, and SHA-256 not colliding on the two tokens.)
\<close>

theorem refresh_single_use:
  assumes "pg_platform V G jsonb fits coll RT K D ttl L"
    and "Refresh L J RT (authSvc G D RT m d) Background raw w = (Inr p, w1)"
    and "\<And>x y. x \<in> st_tokens (db_store V w) \<Longrightarrow> y \<in> st_tokens (db_store V w) \<Longrightarrow>
      t_TokenHash x = hashToken L raw \<Longrightarrow> t_TokenHash y = hashToken L raw \<Longrightarrow> t_ID x = t_ID y"
    and "sha256_Sum L (tp_RefreshToken p) \<noteq> sha256_Sum L raw"
    and "Refresh L J RT (authSvc G D RT m d) Background raw w1 = (r, w2)"
  shows "(r = Inl ErrInvalidCredentials \<or> r = Inl ErrTokenExpired) \<and> db_store V w2 = db_store V w1"
  by (rule pg_platform.Refresh_single_use [OF assms refl])

theorem refresh_single_use_witness:
  "fst (Refresh ref_lib brief_jwt brief_runtime brief_auth Background ''r''
     (snd (Refresh ref_lib brief_jwt brief_runtime brief_auth Background ''r'' demo_session))) \<in>
   {Inl ErrInvalidCredentials, Inl ErrTokenExpired}"
proof -
  let ?r = "Refresh ref_lib brief_jwt brief_runtime brief_auth Background ''r'' demo_session"
  have ok: "map_sum id (\<lambda>p. tp_RefreshToken p \<noteq> ''r'') (fst ?r) = Inr True" by code_simp
  then obtain p where p: "fst ?r = Inr p" "tp_RefreshToken p \<noteq> ''r''" by (cases "fst ?r") auto
  then have run: "?r = (Inr p, snd ?r)" by (metis prod.collapse)
  have "st_tokens (db_store ref_window demo_session) = {fromTokenModel demo_token}"
    by (simp add: demo_session_def demo_def ref_window_def db_get_def)
  then have one: "t_ID x = t_ID y" if "x \<in> st_tokens (db_store ref_window demo_session)"
    "y \<in> st_tokens (db_store ref_window demo_session)" for x y
    using that by (simp del: store_of_sel)
  have "sha256_Sum ref_lib (tp_RefreshToken p) \<noteq> sha256_Sum ref_lib ''r''"
    using p(2) by (simp add: ref_lib_def)
  from refresh_single_use [OF brief_platform.pg_platform_axioms run one this prod.collapse [symmetric]]
  show ?thesis by auto
qed

text \<open>
  C15. Logout: it reports success whenever the database is up, and then the token it was given
  is revoked, if it is stored; nothing else in the database changes. With Redis up the access
  token is on the blacklist for the time it had left, up to a second.
\<close>

theorem logout_revokes_and_bans:
  assumes "pg_platform V G jsonb fits coll RT K D ttl L"
    and "Logout L (authSvc G D RT m d) Background raw jti left w = (r, w')"
  shows "(db_store V w' = db_store V w \<or> (\<exists>t\<in>st_tokens (db_store V w).
        t_TokenHash t = hashToken L raw \<and> revoked (t_ID t) (db_store V w) (db_store V w'))) \<and>
    (up V w \<longrightarrow> r = Inr () \<and> ((\<exists>t\<in>st_tokens (db_store V w). t_TokenHash t = hashToken L raw) \<longrightarrow>
      (\<exists>t\<in>st_tokens (db_store V w). t_TokenHash t = hashToken L raw \<and>
        revoked (t_ID t) (db_store V w) (db_store V w')))) \<and>
    (up K w \<longrightarrow> jti \<noteq> [] \<longrightarrow> 0 < left \<longrightarrow>
      (\<forall>t \<le> rs_now (seen K () w') + left - second. listed (seen K () w') jti t))"
proof -
  note R = pg_platform.Logout_run [OF assms]
  have "blacklist D \<noteq> None" by (simp add: blacklist_def)
  with R show ?thesis by simp
qed

theorem logout_revokes_and_bans_witness:
  "case Logout ref_lib brief_auth Background ''r'' ''j'' minute demo_session of (r, w') \<Rightarrow>
     r = Inr () \<and> listed (seen ref_redis_window () w') ''j'' (rs_now (seen ref_redis_window () w')) \<and>
     (\<exists>t\<in>st_tokens (db_store ref_window demo_session).
        revoked (t_ID t) (db_store ref_window demo_session) (db_store ref_window w'))"
proof -
  have up: "up ref_window demo_session" "up ref_redis_window demo_session" by code_simp+
  have "st_tokens (db_store ref_window demo_session) = {fromTokenModel demo_token}"
    by (simp add: demo_session_def demo_def ref_window_def db_get_def)
  moreover have "t_TokenHash (fromTokenModel demo_token) = hashToken ref_lib ''r''"
    by (simp add: demo_token_def fromTokenModel_def)
  ultimately have "\<exists>t\<in>st_tokens (db_store ref_window demo_session). t_TokenHash t = hashToken ref_lib ''r''"
    by (simp del: store_of_sel)
  then show ?thesis
    using logout_revokes_and_bans [where raw = "''r''" and jti = "''j''" and left = minute and w = demo_session
        and m = "NewManager ''k'' (15 * minute)" and d = "7 * 24 * hour",
        OF brief_platform.pg_platform_axioms prod.collapse [symmetric]] up
    by (auto simp: case_prod_beta simp del: store_of_sel)
qed

section \<open>Access tokens\<close>

text \<open>
  C16. A token that was issued parses back, with the same manager, to the user, the roles and
  the identifier it was issued for, until a second before the end of its life at the latest.
\<close>

theorem access_token_roundtrip:
  assumes "jwt_contract J authentic plain_claims"
    and "GenerateAccessToken L J RT m u roles w = (Inr (tok, jti), w1)"
    and "rt_NewString RT w = (jti', w0)" and "rt_Now RT w0 = (now, w1')"
    and "plain_claims (access_claims L J m u roles jti' now)"
    and "rt_Now RT w2 = (check, w3)" and "check \<le> now + mgr_accessTTL m - second"
  shows "\<exists>cl. Parse J RT m tok w2 = (Inr cl, w3) \<and> cl_UserID cl = u \<and> cl_Roles cl = roles \<and>
    cl_ID cl = jti \<and> cl_Subject cl = uuid_String L u"
  using jwt_contract.Parse_generated [OF assms] by (simp add: access_claims_def)

theorem access_token_roundtrip_witness:
  "case GenerateAccessToken ref_lib ref_jwt ref_runtime (NewManager ''k'' (15 * minute)) 2 [''admin''] demo of
     (Inr (tok, jti), w1) \<Rightarrow>
       \<exists>cl. fst (Parse ref_jwt ref_runtime (NewManager ''k'' (15 * minute)) tok w1) = Inr cl \<and>
         cl_UserID cl = 2 \<and> cl_Roles cl = [''admin''] \<and> cl_ID cl = jti
   | _ \<Rightarrow> False"
proof -
  let ?m = "NewManager ''k'' (15 * minute)"
  let ?c = "access_claims ref_lib ref_jwt ?m 2 [''admin''] (ref_bytes 100 16) 101"
  have plain: "ref_plain ?c"
    by (simp add: ref_plain_def access_claims_def ref_jwt_def NewManager_def)
  then obtain tok where "ref_Signed ?c ''k'' = Some tok" by (simp add: ref_Signed_def)
  then have gen: "GenerateAccessToken ref_lib ref_jwt ref_runtime ?m 2 [''admin''] demo =
      (Inr (tok, ref_bytes 100 16), demo\<lparr>db_clock := 102\<rparr>)"
    by (simp add: GenerateAccessToken_def bindS_def okE_def ref_runtime_def ref_Rand_def ref_Now_def
        ref_jwt_def NewManager_def demo_def)
  have new: "rt_NewString ref_runtime demo = (ref_bytes 100 16, demo\<lparr>db_clock := 101\<rparr>)"
    by (simp add: ref_runtime_def ref_Rand_def demo_def)
  have now: "rt_Now ref_runtime (demo\<lparr>db_clock := n\<rparr>) = (n, demo\<lparr>db_clock := n + 1\<rparr>)" for n
    by (simp add: ref_runtime_def ref_Now_def demo_def)
  have "(102 :: int) \<le> 101 + mgr_accessTTL ?m - second" by (simp add: NewManager_def)
  from access_token_roundtrip [OF ref_jwt.jwt_contract_axioms gen new now plain now this] gen
  show ?thesis by auto
qed

text \<open>
  C17. What \<open>Parse\<close> accepts: exactly the texts that an HMAC under the server's secret vouches
  for and that are in force when it reads the clock, their \<open>exp\<close>, if they have one, not having come and
  their \<open>nbf\<close>, if they have one, having come; what it answers are claims so vouched for. All others get
  \<open>ErrInvalidToken\<close>: a token of any other signing method, \<open>none\<close> included, is refused.
\<close>

theorem token_accepted_iff:
  assumes "jwt_contract J authentic plain_claims" and "Parse J RT m tok w = (r, w')"
  shows "\<exists>now. rt_Now RT w = (now, w') \<and>
    (case r of
      Inr cl \<Rightarrow> authentic SigningMethodHMAC (mgr_secret m) tok cl \<and>
        (\<forall>e. cl_ExpiresAt cl = Some e \<longrightarrow> now < e) \<and> (\<forall>n. cl_NotBefore cl = Some n \<longrightarrow> n \<le> now)
    | Inl e \<Rightarrow> e = ErrInvalidToken \<and> (\<nexists>cl. authentic SigningMethodHMAC (mgr_secret m) tok cl \<and>
        (\<forall>e. cl_ExpiresAt cl = Some e \<longrightarrow> now < e) \<and> (\<forall>n. cl_NotBefore cl = Some n \<longrightarrow> n \<le> now)))"
  using jwt_contract.Parse_run [OF assms] by (simp only: in_force_iff)

text \<open>A token that is signed but not in force before the time 200.\<close>

definition demo_early :: Claims where
  "demo_early = \<lparr>cl_UserID = 2, cl_Roles = [], cl_Issuer = [], cl_Subject = [], cl_Audience = [],
     cl_ExpiresAt = None, cl_NotBefore = Some 200, cl_IssuedAt = None, cl_ID = []\<rparr>"

theorem token_accepted_iff_witness:
  "\<exists>tok. ref_authentic SigningMethodHMAC ''k'' tok demo_early \<and>
     fst (Parse ref_jwt ref_runtime (NewManager ''k'' (15 * minute)) tok demo) = Inl ErrInvalidToken"
proof -
  obtain tok where tok: "ref_Signed demo_early ''k'' = Some tok"
    by (auto simp: ref_Signed_def ref_plain_def demo_early_def)
  obtain r w' where run: "Parse ref_jwt ref_runtime (NewManager ''k'' (15 * minute)) tok demo = (r, w')"
    by force
  have now: "fst (rt_Now ref_runtime demo) = 100" by (simp add: ref_runtime_def ref_Now_def demo_def)
  have "cl_NotBefore cl = Some 200" if "ref_authentic SigningMethodHMAC ''k'' tok cl" for cl
  proof -
    from that ref_claims_signed [OF tok] have "cl = demo_early"
      by (auto simp: ref_authentic_def dest: ref_claims_signed)
    then show ?thesis by (simp add: demo_early_def)
  qed
  with token_accepted_iff [OF ref_jwt.jwt_contract_axioms run] now have "r = Inl ErrInvalidToken"
    by (cases r) (auto simp: NewManager_def)
  with run tok show ?thesis by (auto simp: ref_authentic_def)
qed

section \<open>Profiles\<close>

text \<open>
  C18. Updating a profile changes the name of that user and nothing else that matters: the
  same users, with the same identifiers, emails, password hashes and the same active flags;
  an error leaves the database as it was.
\<close>

theorem profile_update_renames:
  assumes "pg_platform V G jsonb fits coll RT K D ttl L"
    and "UpdateProfile (userSvc G) Background i name w = (r, w')"
  shows "case r of
      Inr u \<Rightarrow> u_ID u = i \<and> u_FullName u = name \<and> renamed i name (db_store V w) (db_store V w')
    | Inl e \<Rightarrow> db_store V w' = db_store V w"
  using pg_platform.UpdateProfile_run [OF assms] by (auto split: sum.splits)

theorem profile_update_renames_witness:
  "case UpdateProfile (userSvc ref_gorm) Background 2 ''Benno'' demo of (r, w') \<Rightarrow>
     (\<exists>u. r = Inr u) \<and> renamed 2 ''Benno'' (db_store ref_window demo) (db_store ref_window w')"
proof -
  have "map_sum id u_FullName (fst (UpdateProfile (userSvc ref_gorm) Background 2 ''Benno'' demo)) =
      Inr ''Benno''"
    by code_simp
  then obtain u where "fst (UpdateProfile (userSvc ref_gorm) Background 2 ''Benno'' demo) = Inr u"
    by (cases "fst (UpdateProfile (userSvc ref_gorm) Background 2 ''Benno'' demo)") auto
  with profile_update_renames [where i = 2 and name = "''Benno''" and w = demo,
      OF ref_platform.pg_platform_axioms prod.collapse [symmetric]]
  show ?thesis by (auto simp: case_prod_beta simp del: store_of_sel)
qed

section \<open>Deactivated users\<close>

definition demo_inactive :: redis_world where
  "demo_inactive = demo_session\<lparr>db_base := (db_base demo_session)\<lparr>
     tb_users := map (\<lambda>m. m\<lparr>um_IsActive := False\<rparr>) (tb_users (db_base demo_session))\<rparr>\<rparr>"

text \<open>
  C19. Deactivating a user ends his logins but not his session: while the database is up, a user who
  is not active is refused by \<open>Login\<close>, whatever the password, and yet \<open>Refresh\<close>, which does not
  look at \<open>IsActive\<close>, gives him a new pair for a stored refresh token of his that is neither revoked nor
  expired, and stores the next refresh token. (For tokens that can be signed and stored, and hashes and
  emails that are unique.)
\<close>

theorem refresh_ignores_deactivation:
  assumes "pg_platform V G jsonb fits coll RT K D ttl L" and "up V w"
    and "u \<in> st_users (db_store V w)" and "\<not> u_IsActive u"
    and "\<And>x. x \<in> st_users (db_store V w) \<Longrightarrow> u_Email x = u_Email u \<Longrightarrow> x = u"
    and "t \<in> st_tokens (db_store V w)" and "t_UserID t = u_ID u"
    and "t_TokenHash t = hashToken L raw" and "t_RevokedAt t = None"
    and "\<And>x. x \<in> st_tokens (db_store V w) \<Longrightarrow> t_TokenHash x = hashToken L raw \<Longrightarrow> x = t"
    and "tokens_GetByHash (NewRefreshTokenRepository G RT) Background (hashToken L raw) w = (y, w1)"
    and "rt_Now RT w1 = (now, w2)" and "now \<le> t_ExpiresAt t"
    and "\<And>roles v. \<exists>a v'. GenerateAccessToken L J RT m (u_ID u) roles v = (Inr a, v')"
    and "\<And>h e. storable_token fits (new_token (u_ID u) h e)"
    and "\<exists>i. i \<noteq> 0 \<and> i \<notin> t_ID ` st_tokens (db_store V w)"
  shows "fst (Login L J RT (authSvc G D RT m d) Background (u_Email u) pw w) = Inl ErrInvalidCredentials \<and>
    (\<exists>p w' s. Refresh L J RT (authSvc G D RT m d) Background raw w = (Inr p, w') \<and>
      revoked (t_ID t) (db_store V w) s \<and> token_added L (u_ID u) (tp_RefreshToken p) s (db_store V w'))"
proof
  obtain r v where "Login L J RT (authSvc G D RT m d) Background (u_Email u) pw w = (r, v)" by force
  with pg_platform.Login_run(2) [OF assms(1) this assms(2)] assms(4,5)
  show "fst (Login L J RT (authSvc G D RT m d) Background (u_Email u) pw w) = Inl ErrInvalidCredentials"
    by auto
  have "t_UserID t \<in> u_ID ` st_users (db_store V w)" unfolding assms(7) using assms(3) by (rule imageI)
  from pg_platform.Refresh_accepts [OF assms(1), where m = m and d = d, unfolded authSvc_sel,
      OF assms(2,6,8,9,10,11,12,13) this assms(14,15) [folded assms(7)] assms(16)]
  obtain p w' where run: "Refresh L J RT (authSvc G D RT m d) Background raw w = (Inr p, w')" by blast
  from pg_platform.Refresh_run [OF assms(1) run] obtain x s where
    "x \<in> st_tokens (db_store V w)" "t_TokenHash x = hashToken L raw"
    "revoked (t_ID x) (db_store V w) s" "token_added L (t_UserID x) (tp_RefreshToken p) s (db_store V w')"
    unfolding sum.case by blast
  with assms(7,10) run show "\<exists>p w' s. Refresh L J RT (authSvc G D RT m d) Background raw w = (Inr p, w') \<and>
      revoked (t_ID t) (db_store V w) s \<and> token_added L (u_ID u) (tp_RefreshToken p) s (db_store V w')"
    by metis
qed

theorem refresh_ignores_deactivation_witness:
  "fst (Login ref_lib brief_jwt brief_runtime brief_auth Background ''ben@x'' ''secret'' demo_inactive) =
     Inl ErrInvalidCredentials \<and>
   (\<exists>p w'. Refresh ref_lib brief_jwt brief_runtime brief_auth Background ''r'' demo_inactive = (Inr p, w'))"
proof -
  let ?u = "fromUserModel (demo_user 2 ''ben@x''\<lparr>um_IsActive := False\<rparr>)" and ?t = "fromTokenModel demo_token"
  have T: "seen ref_window BaseDB demo_inactive = demo_tables\<lparr>tb_refresh_tokens := [demo_token],
      tb_users := map (\<lambda>m. m\<lparr>um_IsActive := False\<rparr>) (tb_users demo_tables)\<rparr>"
    by (simp add: demo_inactive_def demo_session_def demo_def ref_window_def db_get_def)
  have users: "st_users (db_store ref_window demo_inactive) =
      {?u, fromUserModel (demo_user 1 ''ann@x''\<lparr>um_IsActive := False\<rparr>)}"
    and tokens: "st_tokens (db_store ref_window demo_inactive) = {?t}"
    by (auto simp: T demo_tables_def)
  have u: "?u \<in> st_users (db_store ref_window demo_inactive)" "\<not> u_IsActive ?u" "u_Email ?u = ''ben@x''"
    "u_ID ?u = 2"
    by (simp_all add: users demo_user_def fromUserModel_def del: store_of_sel)
  have email: "x = ?u" if "x \<in> st_users (db_store ref_window demo_inactive)" "u_Email x = u_Email ?u" for x
    using that by (auto simp: users demo_user_def fromUserModel_def simp del: store_of_sel)
  have t: "?t \<in> st_tokens (db_store ref_window demo_inactive)" "t_UserID ?t = u_ID ?u"
    "t_TokenHash ?t = hashToken ref_lib ''r''" "t_RevokedAt ?t = None"
    by (simp_all add: tokens demo_token_def fromTokenModel_def demo_user_def fromUserModel_def del: store_of_sel)
  have one: "x = ?t" if "x \<in> st_tokens (db_store ref_window demo_inactive)" for x
    using that by (simp add: tokens del: store_of_sel)
  let ?get = "tokens_GetByHash (NewRefreshTokenRepository ref_gorm brief_runtime) Background (hashToken ref_lib ''r'') demo_inactive"
  have soon: "fst (rt_Now brief_runtime (snd ?get)) \<le> t_ExpiresAt ?t" by code_simp
  have sign: "\<exists>a v'. GenerateAccessToken ref_lib brief_jwt brief_runtime m i roles v = (Inr a, v')" for m i roles v
    by (simp add: GenerateAccessToken_def bindS_def okE_def brief_jwt_def split: prod.split)
  have room: "\<exists>i. i \<noteq> 0 \<and> i \<notin> t_ID ` st_tokens (db_store ref_window demo_inactive)"
    by (rule exI [of _ 1]) (simp add: tokens demo_token_def fromTokenModel_def del: store_of_sel)
  have up: "up ref_window demo_inactive" by code_simp
  have "storable_token (\<lambda>_. True) x" for x by (simp add: storable_token_def)
  from refresh_ignores_deactivation [where J = brief_jwt and m = "NewManager ''k'' (15 * minute)"
      and d = "7 * 24 * hour" and pw = "''secret''", OF brief_platform.pg_platform_axioms up u(1,2) email t one
      prod.collapse [symmetric] prod.collapse [symmetric] soon sign this room] u(3)
  show ?thesis by auto
qed

end
