(* ===== verification/Props_Http.thy ===== *)
theory Props_Http
  imports Access Props_Auth
begin

text \<open>
  Properties of the HTTP side: tokens after a logout, the rate limit, the permission gate,
  and what the endpoints of users and audit logs hand out, and to whom.
\<close>

section \<open>After a logout\<close>

context pg_platform
begin

lemmas audit_reads = audit_List_reads [where c = Background]

lemma Parse_still:
  assumes "Parse J RT mgr tok w = (r, w1)"
  shows "seen K () w1 = seen K () w" and "up K w \<Longrightarrow> up K w1"
proof -
  from assms obtain now where "rt_Now RT w = (now, w1)"
    by (auto simp: Parse_def bindS_def okE_def failE_def split: prod.splits sum.splits if_splits)
  from silentD [OF rd_quiet.Now_silent this] show "seen K () w1 = seen K () w"
    and "up K w \<Longrightarrow> up K w1"
    by (auto dest: untouched_seen untouched_up)
qed

text \<open>A token on the blacklist is refused for as long as it is listed.\<close>

lemma JWTAuth_banned:
  assumes tok: "rq_Header (gc_Request c) ''Authorization'' = ''Bearer '' @ tok"
    and p: "Parse J RT mgr tok w = (Inr cl, w1)"
    and b: "IsBlacklisted (blacklist D) (cl_ID cl) w1 = (b, w2)" and up: "up K w"
    and listed: "listed (seen K () w) (cl_ID cl) (rs_now (seen K () w2))"
  shows "JWTAuth J RT mgr (blacklist D) next c w =
    Error 401 ''token_revoked'' ''this token has been revoked'' c w2"
proof -
  from writesD [OF bans.blacklist.Check b] Parse_still [OF p] up listed have b by simp
  with tok p b show ?thesis by (simp add: JWTAuth_def bindS_def)
qed

lemma check_later:
  assumes "Parse J RT mgr tok w = (r, w1)" and "IsBlacklisted (blacklist D) j w1 = (b, w2)"
  shows "rs_now (seen K () w) \<le> rs_now (seen K () w2)"
  using writesD [OF bans.Check_writes assms(2)] Parse_still [OF assms(1)] by simp

end

text \<open>
  C20. A token that was logged out is refused for the time it had left, up to a second: when
  nothing but waiting has happened to the blacklist since and Redis is up, a request that
  presents it is answered by 401 \<open>token_revoked\<close>.
\<close>

theorem logged_out_token_refused:
  assumes "pg_platform V G jsonb fits coll RT K D ttl L"
    and "Logout L (authSvc G D RT m d) Background raw (cl_ID cl) left w = (r, w1)"
    and "up K w" and "cl_ID cl \<noteq> []" and "0 < left"
    and "waited V K L D w1 w2" and "up K w2"
    and "rq_Header (gc_Request c) ''Authorization'' = ''Bearer '' @ tok"
    and "Parse J RT mgr tok w2 = (Inr cl, w3)"
    and "IsBlacklisted (blacklist D) (cl_ID cl) w3 = (b, w4)"
    and "rs_now (seen K () w4) \<le> rs_now (seen K () w1) + left - second"
  shows "JWTAuth J RT mgr (blacklist D) next c w2 =
    Error 401 ''token_revoked'' ''this token has been revoked'' c w4"
proof (rule pg_platform.JWTAuth_banned [OF assms(1,8,9,10,7)])
  have "listed (seen K () w1) (cl_ID cl) (rs_now (seen K () w4))"
    using pg_platform.Logout_run(3) [OF assms(1,2,3) _ assms(4,5,11)] by (simp add: blacklist_def)
  with assms(6) pg_platform.check_later [OF assms(1,9,10)] show "listed (seen K () w2) (cl_ID cl) (rs_now (seen K () w4))"
    by (simp add: waited_def aged_def)
qed

definition demo_claims :: Claims where
  "demo_claims = \<lparr>cl_UserID = 2, cl_Roles = [''developer''], cl_Issuer = [], cl_Subject = ''2'',
     cl_Audience = [], cl_ExpiresAt = None, cl_NotBefore = None, cl_IssuedAt = None, cl_ID = ''j''\<rparr>"

text \<open>A token library that accepts one token, with the claims of user 2.\<close>

definition demo_jwt :: jwtlib where
  "demo_jwt = brief_jwt\<lparr>jl_ParseWithClaims := \<lambda>now tok kf.
     if tok = ''t'' then Inr (demo_claims, True) else Inl ErrInvalidToken\<rparr>"

definition demo_get :: request where
  "demo_get = \<lparr>rq_Method = ''GET'', rq_Header = (\<lambda>h. if h = ''Authorization'' then ''Bearer t'' else []),
     rq_Param = (\<lambda>_. ref_bytes 1 16), rq_Query = (\<lambda>_. None), rq_Body = [], rq_ClientIP = ''10.0.0.1'',
     rq_FullPath = ''/api/v1/users/:id''\<rparr>"

theorem logged_out_token_refused_witness:
  "status_of (fst (JWTAuth demo_jwt brief_runtime (NewManager ''k'' 1) (blacklist ref_redis) (JSON 200 JNull)
     (new_context demo_get)
     (snd (Logout ref_lib brief_auth Background ''r'' ''j'' minute demo_session)))) = Some 401"
proof -
  let ?w1 = "snd (Logout ref_lib brief_auth Background ''r'' ''j'' minute demo_session)"
  let ?w3 = "snd (Parse demo_jwt brief_runtime (NewManager ''k'' 1) ''t'' ?w1)"
  let ?w4 = "snd (IsBlacklisted (blacklist ref_redis) ''j'' ?w3)"
  have up: "up ref_redis_window demo_session" "up ref_redis_window ?w1"
    and soon: "rs_now (seen ref_redis_window () ?w4) \<le> rs_now (seen ref_redis_window () ?w1) + minute - second"
    by code_simp+
  have p: "Parse demo_jwt brief_runtime (NewManager ''k'' 1) ''t'' ?w1 = (Inr demo_claims, ?w3)"
    by (simp add: Parse_def demo_jwt_def bindS_def okE_def split: prod.splits)
  have h: "rq_Header (gc_Request (new_context demo_get)) ''Authorization'' = ''Bearer '' @ ''t''"
    by (simp add: demo_get_def)
  have id: "cl_ID demo_claims = ''j''" by (simp add: demo_claims_def)
  have "JWTAuth demo_jwt brief_runtime (NewManager ''k'' 1) (blacklist ref_redis) (JSON 200 JNull) (new_context demo_get) ?w1 =
      Error 401 ''token_revoked'' ''this token has been revoked'' (new_context demo_get) ?w4"
    by (rule logged_out_token_refused [where cl = demo_claims and left = minute and tok = "''t''",
          unfolded id, OF brief_platform.pg_platform_axioms prod.collapse [symmetric] up(1) _ _ _ up(2) h p
            prod.collapse [symmetric] soon])
      (simp_all add: waited_def)
  then show ?thesis by simp
qed

section \<open>The rate limit\<close>











section \<open>The permission gate\<close>



section \<open>Users\<close>




definition json_field :: "string \<Rightarrow> json \<Rightarrow> json option" where
  "json_field f j = (case j of JObj fs \<Rightarrow> map_of fs f | _ \<Rightarrow> None)"

text \<open>
  And it hands out the password hash: a user whose only role is the default one,
  \<open>developer\<close>, which the migrations grant \<open>view_profile\<close>, reads the bcrypt hash of any other user.
\<close>

theorem developer_reads_password_hash:
  "map_option (map_prod id (map_option (json_field ''PasswordHash''))) (gc_Response (fst
     (userH_Get ref_lib (userHandler ref_lib ref_runtime ref_gorm ref_redis)
       (set_claims demo_claims (new_context demo_get)) demo))) =
   Some (200, Some (Some (JStr ''hash:secret'')))"
  by code_simp

section \<open>The audit log\<close>

text \<open>
  C25. The audit log endpoint answers with the page that \<open>limit\<close> and \<open>offset\<close> select of all
  entries, newest first, and their number, or with 500 if the database is down. (For texts that
  are no negative numbers; a text that is no number at all reads as 0.)
\<close>

theorem audit_log_pages:
  assumes "pg_platform V G jsonb fits coll RT K D ttl L"
    and "auditlog_List L (auditHandler L RT G D) c w = (c', w')"
    and "l = Atoi (DefaultQuery c ''limit'' ''50'')" and "0 \<le> l"
    and "k = Atoi (DefaultQuery c ''offset'' ''0'')" and "0 \<le> k"
  shows "seen V BaseDB w' = seen V BaseDB w \<and>
    (answers 500 c c' \<and> \<not> up V w \<or>
     (\<exists>ms. mset ms = mset (tb_audit_logs (seen V BaseDB w)) \<and>
        sorted_wrt (\<lambda>a b. am_CreatedAt b \<le> am_CreatedAt a) ms \<and>
        gc_Response c' = Some (200, Some (JObj
          [(''logs'', JArr (map (audit_json L \<circ> fromAuditModel L) (take (nat l) (drop (nat k) ms)))),
           (''total'', JNum (int (length (tb_audit_logs (seen V BaseDB w)))))]))))"
proof -
  obtain r w1 where g: "audit_List_pg G L Background l k w = (r, w1)" by force
  from readsD [OF pg_platform.audit_reads [OF assms(1,4,6)] g]
  have R: "seen V BaseDB w1 = seen V BaseDB w"
    "answered (up V w) (\<lambda>(ls, n). n = int (length (tb_audit_logs (seen V BaseDB w))) \<and>
      (\<exists>ms. mset ms = mset (tb_audit_logs (seen V BaseDB w)) \<and>
        sorted_wrt (\<lambda>a b. am_CreatedAt b \<le> am_CreatedAt a) ms \<and>
        ls = map (fromAuditModel L) (take (nat l) (drop (nat k) ms)))) r"
    by (auto dest: untouched_seen [where d = BaseDB])
  from assms(2) g have "w' = w1" "(case r of
      Inl err \<Rightarrow> Error 500 ''internal_error'' ''could not list audit logs'' c
    | Inr (logs, n) \<Rightarrow>
        JSON 200 (JObj [(''logs'', JArr (map (audit_json L) logs)), (''total'', JNum n)]) c) w1 = (c', w1)"
    unfolding assms(3,5)
    by (auto simp: auditlog_List_def bindS_def Let_def cmd_simps split: sum.splits)
  with R show ?thesis
    by (cases r) (auto simp: answered_def cmd_simps)
qed

definition demo_logged :: redis_world where
  "demo_logged = demo\<lparr>db_base := demo_tables\<lparr>tb_audit_logs :=
     [\<lparr>am_ID = 1, am_ActorID = Some 1, am_Action = ''role.assigned'', am_ResourceType = ''user'',
       am_ResourceID = ''2'', am_Metadata = [], am_CreatedAt = 5\<rparr>,
      \<lparr>am_ID = 2, am_ActorID = None, am_Action = ''role.revoked'', am_ResourceType = ''user'',
       am_ResourceID = ''2'', am_Metadata = [], am_CreatedAt = 9\<rparr>]\<rparr>\<rparr>"

theorem audit_log_pages_witness:
  "case auditlog_List ref_lib (auditHandler ref_lib ref_runtime ref_gorm ref_redis) (new_context demo_get) demo_logged of
     (c', w') \<Rightarrow> status_of c' = Some 200 \<and> seen ref_window BaseDB w' = seen ref_window BaseDB demo_logged"
proof -
  have up: "up ref_window demo_logged" by code_simp
  have "0 \<le> Atoi (DefaultQuery (new_context demo_get) ''limit'' ''50'')"
    "0 \<le> Atoi (DefaultQuery (new_context demo_get) ''offset'' ''0'')" by code_simp+
  from audit_log_pages [where w = demo_logged, OF ref_platform.pg_platform_axioms prod.collapse [symmetric] refl this(1) refl this(2)] up
  show ?thesis by (auto simp: status_of_def split: prod.splits)
qed

section \<open>Configuration\<close>

text \<open>
  The signing secret is never empty; but where \<open>JWT_SECRET\<close> is not set it is the default
  that stands in the source, and the server accepts what anybody signs with that.
\<close>

theorem default_secret_accepted:
  assumes "jwt_contract J authentic plain_claims" and "env ''JWT_SECRET'' = []"
    and "authentic SigningMethodHMAC ''change-me-in-production'' tok cl" and "\<And>now. in_force now cl"
  shows "cfg_JWTSecret (Load env) \<noteq> [] \<and> (\<exists>cl'. fst (Parse J RT (jwtMgr (Load env)) tok w) = Inr cl')"
proof -
  obtain r w' where run: "Parse J RT (jwtMgr (Load env)) tok w = (r, w')" by force
  have "mgr_secret (jwtMgr (Load env)) = ''change-me-in-production''"
    using assms(2) by (simp add: jwtMgr_def NewManager_def Load_def getEnv_def)
  with jwt_contract.Parse_run [OF assms(1) run] assms(3,4) run show ?thesis
    by (cases r) (auto simp: Load_secret)
qed

theorem default_secret_accepted_witness:
  "\<exists>tok cl. fst (Parse ref_jwt ref_runtime (jwtMgr (Load (\<lambda>_. []))) tok demo) = Inr cl"
proof -
  let ?cl = "\<lparr>cl_UserID = 1, cl_Roles = [''admin''], cl_Issuer = [], cl_Subject = [], cl_Audience = [],
    cl_ExpiresAt = None, cl_NotBefore = None, cl_IssuedAt = None, cl_ID = ''x''\<rparr>"
  obtain tok where "ref_Signed ?cl ''change-me-in-production'' = Some tok"
    by (auto simp: ref_Signed_def ref_plain_def)
  then have "ref_authentic SigningMethodHMAC ''change-me-in-production'' tok ?cl" "in_force now ?cl" for now
    by (simp_all add: ref_authentic_def in_force_def)
  from default_secret_accepted [where env = "\<lambda>_. []" and RT = ref_runtime and w = demo,
      OF ref_jwt.jwt_contract_axioms _ this] show ?thesis by auto
qed

end
