(* ===== verification/Coherence.thy ===== *)
theory Coherence
  imports Wiring
begin

text \<open>
  The RBAC service over time: the service without its cache, to compare with, and the runs of
  the service, any number of its operations one after the other.
\<close>

section \<open>The service without the cache\<close>

text \<open>\<open>rbac.NewService\<close> with a nil \<open>*cache.PermissionCache\<close>.\<close>

definition bareSvc :: "'w gorm \<Rightarrow> 'w redis \<Rightarrow> lib \<Rightarrow> 'w RbacService" where
  "bareSvc db rdb L = (rbacSvc db rdb L)\<lparr>rb_cache := None\<rparr>"

lemma bareSvc_sel [simp]:
  "rb_users (bareSvc db rdb L) = NewUserRepository db" "rb_roles (bareSvc db rdb L) = NewRoleRepository db"
  "rb_perms (bareSvc db rdb L) = NewPermissionRepository db"
  "rb_outbox (bareSvc db rdb L) = NewOutboxRepository db L"
  "rb_txRunner (bareSvc db rdb L) = NewTxRunner db" "rb_cache (bareSvc db rdb L) = None"
  by (simp_all add: bareSvc_def)

sublocale pg_platform \<subseteq> bare: rbac_service "pg_window V" store_of "bareSvc G D L"
  "storable_user fits" "encodes L jsonb" "encodable L jsonb fits" K "\<lambda>_ _. None" L RT
proof (intro rbac_service.intro rbac_service_axioms.intro, unfold bareSvc_sel)
  show "apart (pg_window V) K" unfolding pg_window_def by (rule apart_reindex [OF apart])
  show "permission_cache K (\<lambda>_ _. None) (cache_Get L None) (cache_Set L None) (cache_Invalidate L None)"
    by unfold_locales (simp_all add: writes_def cache_Get_def cache_Set_def cache_Invalidate_def okE_def)
qed (unfold_locales, simp)

section \<open>The entries of the cache\<close>

definition perm_entry :: "lib \<Rightarrow> redis_state \<Rightarrow> uuid \<Rightarrow> (rvalue \<times> time option) option" where
  "perm_entry L s u = rs_keys s (permissionsKey L u)"

text \<open>
  \<open>fades s s'\<close>: time has passed in Redis, and of each user's entry at most that it is gone.
\<close>

definition fades :: "lib \<Rightarrow> redis_state \<Rightarrow> redis_state \<Rightarrow> bool" where
  "fades L s s' \<longleftrightarrow> rs_now s \<le> rs_now s' \<and> (\<forall>u. perm_entry L s' u \<in> {None, perm_entry L s u})"

lemma fades_refl [simp]: "fades L s s"
  by (simp add: fades_def)

lemma fades_trans: "fades L s s1 \<Longrightarrow> fades L s1 s2 \<Longrightarrow> fades L s s2"
  unfolding fades_def by (metis insert_iff order_trans singletonD)

lemma fadesD: "fades L s s' \<Longrightarrow> perm_entry L s' u = Some e \<Longrightarrow> perm_entry L s u = Some e"
  unfolding fades_def by (metis insert_iff option.distinct(1) singletonD)

lemma fades_at_time: "rs_now s \<le> t \<Longrightarrow> fades L s (at_time t s)"
  by (auto simp: fades_def perm_entry_def at_time_def alive_def split: option.split)

lemma fades_served:
  assumes "served P F h s r s'" and "\<And>s a s'. F s a s' \<Longrightarrow> fades L s s'"
  shows "fades L s s'"
  using assms unfolding served_def by (cases r) (auto intro: fades_trans [OF fades_at_time])

lemma fades_cached:
  assumes "fades L s s'"
  shows "cached_perms L c s' \<subseteq>\<^sub>m cached_perms L c s"
proof (rule map_leI)
  fix v from assms have "perm_entry L s' v = None \<or> perm_entry L s' v = perm_entry L s v"
    by (auto simp: fades_def)
  then show "cached_perms L c s' v = None \<or> cached_perms L c s' v = cached_perms L c s v"
    by (auto simp: cached_perms_def rd_members_def perm_entry_def split: option.split)
qed

text \<open>
  \<open>put s u N s'\<close>: an entry for the user has been made, with the names \<open>N\<close>, to expire ten minutes later.
\<close>

definition put :: "lib \<Rightarrow> redis_state \<Rightarrow> uuid \<Rightarrow> string set \<Rightarrow> redis_state \<Rightarrow> bool" where
  "put L s u N s' \<longleftrightarrow> rs_now s \<le> rs_now s' \<and>
     (\<exists>X. set X = N \<and> perm_entry L s' u = Some (RSet X, Some (rs_now s' + permissionTTL))) \<and>
     (\<forall>v. v \<noteq> u \<longrightarrow> perm_entry L s' v \<in> {None, perm_entry L s v})"

lemma put_after_fades: "fades L s s1 \<Longrightarrow> put L s1 u N s2 \<Longrightarrow> put L s u N s2"
  unfolding fades_def put_def by (auto intro: order_trans) (metis insert_iff singletonD)

context pg_platform
begin

lemma ttl_permission: "ttl permissionTTL = permissionTTL"
  by (rule ttl_exact) (simp add: permissionTTL_def)

lemma perm_entry_set [simp]: "perm_entry L (rd_set (permissionsKey L u @ '':empty'') x d s) v = perm_entry L s v"
  by (simp add: perm_entry_def rd_set_def)

lemma perm_entry_del: "perm_entry L (rd_del ks s) v \<in> {None, perm_entry L s v}"
  by (simp add: perm_entry_def rd_del_def)

lemma cache_Get_entry:
  assumes run: "cache_Get L (permCache D) u w = (r, w')"
  shows "fades L (seen K () w) (seen K () w')"
    and "r = Some f \<Longrightarrow> \<exists>X d. perm_entry L (seen K () w) u = Some (RSet X, d) \<and>
      f = (\<lambda>m. if m \<in> set X then Some True else None) \<and> (\<forall>e. d = Some e \<longrightarrow> rs_now (seen K () w') < e)"
proof -
  obtain r1 w1 where m: "rd_SMembers D (permissionsKey L u) w = (r1, w1)" by force
  from run m have w': "w' = w1" and r: "r = (case r1 of Inl e \<Rightarrow> None
      | Inr ms \<Rightarrow> if ms = [] then None else Some (set_of ms))"
    by (auto simp: cache_Get_def permCache_def bindS_def split: sum.splits if_splits)
  from writesD [OF SMembers m] obtain t where t: "rs_now (seen K () w) \<le> t"
    and s': "seen K () w' = at_time t (seen K () w)"
    and ms: "\<And>ms. r1 = Inr ms \<Longrightarrow> set ms = (case rd_members (permissionsKey L u) (seen K () w') of
        None \<Rightarrow> {} | Some X \<Rightarrow> set X)"
    unfolding served_def w' by (cases r1) auto
  from fades_at_time [OF t] show "fades L (seen K () w) (seen K () w')" by (simp add: s')
  assume "r = Some f"
  with r obtain l where l: "r1 = Inr l" "l \<noteq> []" "f = set_of l" by (auto split: sum.splits if_splits)
  with ms [of l] obtain X where X: "rd_members (permissionsKey L u) (seen K () w') = Some X" "set l = set X"
    by (auto split: option.splits)
  then obtain d where "alive t (perm_entry L (seen K () w) u) = Some (RSet X, d)"
    by (auto simp: s' at_time_def perm_entry_def rd_members_def split: option.splits rvalue.splits)
  then have "perm_entry L (seen K () w) u = Some (RSet X, d)" "\<forall>e. d = Some e \<longrightarrow> t < e"
    by (auto simp: alive_def split: option.splits if_splits)
  with l(3) X(2) s' show "\<exists>X d. perm_entry L (seen K () w) u = Some (RSet X, d) \<and>
      f = (\<lambda>m. if m \<in> set X then Some True else None) \<and> (\<forall>e. d = Some e \<longrightarrow> rs_now (seen K () w') < e)"
    by (auto simp: set_of_eq)
qed

lemma cache_Set_entry:
  assumes run: "cache_Set L (permCache D) u ps w = (x, w')"
  shows "fades L (seen K () w) (seen K () w') \<or> put L (seen K () w) u (set ps) (seen K () w')"
proof (cases "ps = []")
  case True
  obtain y w0 where s: "rd_Set D (permissionsKey L u @ '':empty'') ''1'' minute w = (y, w0)" by force
  with run True have "w' = w0" by (simp add: cache_Set_def permCache_def Let_def bindS_def)
  have "served (\<lambda>_. True) (\<lambda>s _ s'. s' = rd_set (permissionsKey L u @ '':empty'') (RStr ''1'') (ttl minute) s)
      (up K w) (seen K () w) y (seen K () w')"
    using writesD [OF SetEx s] by (simp add: \<open>w' = w0\<close>)
  then have "fades L (seen K () w) (seen K () w')" by (rule fades_served) (auto simp: fades_def)
  then show ?thesis ..
next
  case False
  let ?cs = "[Del [permissionsKey L u], SAdd (permissionsKey L u) ps, Expire (permissionsKey L u) permissionTTL]"
  obtain r w1 where t: "rd_TxPipeline D ?cs w = (r, w1)" by force
  with run False have w': "w' = w1" by (simp add: cache_Set_def permCache_def Let_def bindS_def)
  from writesD [OF TxPipeline t] obtain t where t: "rs_now (seen K () w) \<le> t"
    "seen K () w' = at_time t (seen K () w) \<or>
     seen K () w' = fold (rd_exec ttl) ?cs (at_time t (seen K () w))"
    unfolding w' by (cases r) (auto simp: served_def)
  have "put L (seen K () w) u (set ps) (fold (rd_exec ttl) ?cs (at_time t (seen K () w)))"
  proof -
    have "perm_entry L (fold (rd_exec ttl) ?cs s) u = Some (RSet (remdups ps), Some (rs_now s + permissionTTL))"
      "rs_now (fold (rd_exec ttl) ?cs s) = rs_now s"
      "v \<noteq> u \<Longrightarrow> perm_entry L (fold (rd_exec ttl) ?cs s) v = perm_entry L s v" for s v
      by (simp_all add: perm_entry_def rd_del_def rd_sadd_def rd_expire_def inj_uuid ttl_permission)
    moreover have "perm_entry L (at_time t (seen K () w)) v \<in> {None, perm_entry L (seen K () w) v}" for v
      using fades_at_time [OF t(1)] by (auto simp: fades_def)
    ultimately show ?thesis unfolding put_def using t(1)
      by (intro conjI exI [of _ "remdups ps"]) simp_all
  qed
  with t fades_at_time [OF t(1)] show ?thesis by auto
qed

lemma heeds_fades: "rbac.heeds (fades L)"
  unfolding rbac.heeds_def
proof (intro conjI allI)
  show "reflp (fades L)" by (simp add: reflp_def)
  show "transp (fades L)" by (auto simp: transp_def intro: fades_trans)
  fix u
  have "cache_Invalidate L (permCache D) u = rd_Del D [permissionsKey L u, permissionsKey L u @ '':empty'']"
    by (simp add: cache_Invalidate_def permCache_def)
  moreover have del: "fades L s (rd_del ks s)" for s ks
    using perm_entry_del by (simp add: fades_def) (simp add: rd_del_def)
  have "writes K () (\<lambda>h s r s'. fades L s s') (rd_Del D ks)" for ks
    by (rule writes_weaken [OF Del]) (erule fades_served, simp add: del)
  ultimately show "writes K () (\<lambda>h s r s'. fades L s s') (cache_Invalidate L (rb_cache (rbacSvc G D L)) u)"
    by simp
qed

lemmas changes_fade = rbac.changes_heed [OF heeds_fades]

end

section \<open>Runs of the service\<close>

text \<open>
  A step is a call of the service, with whatever outcome, or anything else that happens to the database,
  while entries of the cache may expire. \<open>heeded\<close>: the step changed nothing, or it was a change that was
  reported as done with Redis up, in the case of a grant with the database up as well, so that its
  invalidations have taken effect.
\<close>

inductive rbac_step ::
  "(conn, 'w, tables, 'o) window \<Rightarrow> (unit, 'w, redis_state, 'q) window \<Rightarrow> 'w gorm \<Rightarrow> 'w redis \<Rightarrow>
   'w runtime \<Rightarrow> lib \<Rightarrow> 'w \<Rightarrow> bool \<Rightarrow> 'w \<Rightarrow> bool" for V K G D RT L where
  check: "Authorize L RT (rbacSvc G D L) Background u p w = (r, w') \<Longrightarrow> rbac_step V K G D RT L w True w'"
| assigned: "AssignRoleToUser L RT (rbacSvc G D L) Background u i a w = (r, w') \<Longrightarrow>
    heeded = (db_store V w' = db_store V w \<or> r = Inr () \<and> up K w) \<Longrightarrow> rbac_step V K G D RT L w heeded w'"
| removed: "RemoveRoleFromUser L (rbacSvc G D L) Background u i w = (r, w') \<Longrightarrow>
    heeded = (db_store V w' = db_store V w \<or> r = Inr () \<and> up K w) \<Longrightarrow> rbac_step V K G D RT L w heeded w'"
| attached: "AttachPermissionToRole L (rbacSvc G D L) Background i j w = (r, w') \<Longrightarrow>
    heeded = (db_store V w' = db_store V w \<or> r = Inr () \<and> up V w \<and> up K w) \<Longrightarrow>
    rbac_step V K G D RT L w heeded w'"
| role_deleted: "DeleteRole (rbacSvc G D L) Background i w = (r, w') \<Longrightarrow>
    heeded = (db_store V w' = db_store V w) \<Longrightarrow> rbac_step V K G D RT L w heeded w'"
| perm_deleted: "DeletePermission (rbacSvc G D L) Background i w = (r, w') \<Longrightarrow>
    heeded = (db_store V w' = db_store V w) \<Longrightarrow> rbac_step V K G D RT L w heeded w'"
| elsewhere: "fades L (seen K () w) (seen K () w') \<Longrightarrow>
    heeded = (db_store V w' = db_store V w) \<Longrightarrow> rbac_step V K G D RT L w heeded w'"

text \<open>\<open>rbac_run w H heeded\<close>: a run from \<open>w\<close> through the worlds \<open>H\<close>, the present one first.\<close>

inductive rbac_run ::
  "(conn, 'w, tables, 'o) window \<Rightarrow> (unit, 'w, redis_state, 'q) window \<Rightarrow> 'w gorm \<Rightarrow> 'w redis \<Rightarrow>
   'w runtime \<Rightarrow> lib \<Rightarrow> 'w \<Rightarrow> 'w list \<Rightarrow> bool \<Rightarrow> bool" for V K G D RT L w where
  begun: "rbac_run V K G D RT L w [w] True"
| went_on: "rbac_run V K G D RT L w (w1 # H) heeded \<Longrightarrow> rbac_step V K G D RT L w1 now_heeded w2 \<Longrightarrow>
    rbac_run V K G D RT L w (w2 # w1 # H) (heeded \<and> now_heeded)"

text \<open>
  \<open>backed H s\<close>: each entry of the cache is the set of what its user held in one of the worlds \<open>H\<close>, and
  expires ten minutes after that world at the latest, by the clock of Redis.
\<close>

definition backing ::
  "(conn, 'w, tables, 'o) window \<Rightarrow> (unit, 'w, redis_state, 'q) window \<Rightarrow> uuid \<Rightarrow> rvalue \<times> time option \<Rightarrow>
   'w \<Rightarrow> bool" where
  "backing V K u e v \<longleftrightarrow> (\<exists>X d. e = (RSet X, Some d) \<and> set X = perm_names (db_store V v) u \<and>
     d \<le> rs_now (seen K () v) + permissionTTL)"

definition backed ::
  "(conn, 'w, tables, 'o) window \<Rightarrow> (unit, 'w, redis_state, 'q) window \<Rightarrow> lib \<Rightarrow> 'w list \<Rightarrow>
   redis_state \<Rightarrow> bool" where
  "backed V K L H s \<longleftrightarrow> (\<forall>u e. perm_entry L s u = Some e \<longrightarrow> (\<exists>v\<in>set H. backing V K u e v))"

lemma backedD: "backed V K L H s \<Longrightarrow> perm_entry L s u = Some e \<Longrightarrow> \<exists>v\<in>set H. backing V K u e v"
  unfolding backed_def by blast

lemma backingE:
  assumes "backing V K u (RSet X, d) v"
  obtains e where "d = Some e" and "set X = perm_names (db_store V v) u"
    and "e \<le> rs_now (seen K () v) + permissionTTL"
  using assms unfolding backing_def by blast

lemma backed_fades:
  assumes "backed V K L H s" and "fades L s s'" and "set H \<subseteq> set H'"
  shows "backed V K L H' s'"
  unfolding backed_def
proof (intro allI impI)
  fix u e assume "perm_entry L s' u = Some e"
  from backedD [OF assms(1) fadesD [OF assms(2) this]] assms(3) show "\<exists>v\<in>set H'. backing V K u e v" by blast
qed

lemma backed_put:
  assumes "backed V K L H s" and "put L s u (perm_names (db_store V w) u) (seen K () w)"
  shows "backed V K L (w # H) (seen K () w)"
  unfolding backed_def
proof (intro allI impI)
  fix v e assume e: "perm_entry L (seen K () w) v = Some e"
  show "\<exists>x\<in>set (w # H). backing V K v e x"
  proof (cases "v = u")
    case True
    from assms(2) obtain X where X: "set X = perm_names (db_store V w) u"
      and "perm_entry L (seen K () w) u = Some (RSet X, Some (rs_now (seen K () w) + permissionTTL))"
      unfolding put_def by blast
    with e True have "e = (RSet X, Some (rs_now (seen K () w) + permissionTTL))"
      by (metis option.inject)
    with X True have "backing V K v e w" unfolding backing_def by blast
    then show ?thesis by simp
  next
    case False
    with assms(2) e have "perm_entry L s v = Some e"
      unfolding put_def by (metis insert_iff option.distinct(1) singletonD)
    from backedD [OF assms(1) this] show ?thesis by simp
  qed
qed

context pg_platform
begin

abbreviation coherent_at :: "'w \<Rightarrow> bool" where
  "coherent_at w \<equiv> coherent (cache_of L K D w) (perm_names (db_store V w))"

lemma cached_entry:
  assumes "cache_of L K D w u = Some N"
  shows "\<exists>X d. perm_entry L (seen K () w) u = Some (RSet X, d) \<and> N = set X"
  using assms
  by (auto simp: cached_perms_def permCache_def rd_members_def perm_entry_def split: option.splits rvalue.splits)

lemma backed_coherent:
  assumes "backed V K L [w] (seen K () w)"
  shows "coherent_at w"
  unfolding coherent_def
proof (intro allI impI)
  fix u N assume "cache_of L K D w u = Some N"
  from cached_entry [OF this] obtain X d where "perm_entry L (seen K () w) u = Some (RSet X, d)" and N: "N = set X"
    by blast
  from backedD [OF assms this(1)] have "backing V K u (RSet X, d) w" by simp
  then show "N = perm_names (db_store V w) u" unfolding N by (rule backingE)
qed

lemma same_store:
  "coherent_at w \<Longrightarrow> db_store V w' = db_store V w \<Longrightarrow> cache_of L K D w' \<subseteq>\<^sub>m cache_of L K D w \<Longrightarrow> coherent_at w'"
  by (simp add: coherent_shrink)

text \<open>A step that was heeded keeps the cache coherent.\<close>

lemma step_coherent:
  assumes "rbac_step V K G D RT L w heeded w'" and heeded and coh: "coherent_at w"
  shows "coherent_at w'"
  using assms(1)
proof (cases rule: rbac_step.cases)
  case (check u p r)
  show ?thesis by (rule Authorize_correct(1) [OF check(2) coh])
next
  case (assigned u i a r)
  with \<open>heeded\<close> show ?thesis
    using AssignRoleToUser_fresh [OF _ _ coh] same_store [OF coh] AssignRoleToUser_run(2) [OF assigned(1)] by blast
next
  case (removed u i r)
  with \<open>heeded\<close> show ?thesis
    using RemoveRoleFromUser_fresh [OF _ _ coh] same_store [OF coh] RemoveRoleFromUser_run(2) [OF removed(1)] by blast
next
  case (attached i j r)
  with \<open>heeded\<close> show ?thesis
    using AttachPermissionToRole_fresh [OF _ _ _ coh] same_store [OF coh]
      AttachPermissionToRole_run(2) [OF attached(1)] by blast
next
  case (role_deleted i r)
  with \<open>heeded\<close> DeleteRole_run(1) [OF role_deleted(1)] show ?thesis using coh by simp
next
  case (perm_deleted i r)
  with \<open>heeded\<close> DeletePermission_run(1) [OF perm_deleted(1)] show ?thesis using coh by simp
next
  case elsewhere
  with \<open>heeded\<close> show ?thesis using same_store [OF coh _ fades_cached] by blast
qed

lemma deletions_silent:
  "DeleteRole (rbacSvc G D L) c i w = (r, w') \<Longrightarrow> seen K () w' = seen K () w"
  "DeletePermission (rbacSvc G D L) c i w = (r, w') \<Longrightarrow> seen K () w' = seen K () w"
  unfolding DeleteRole_def DeletePermission_def
  by (erule apartD(1) [OF rbac.apart writesD [OF rbac.roles.RoleDelete, THEN conjunct1]]
      apartD(1) [OF rbac.apart writesD [OF rbac.perms.PermDelete, THEN conjunct1]])+

text \<open>A check answers by the database, or by an entry; and whatever a step does, the entries stay backed.\<close>

lemma Authorize_entry:
  assumes run: "Authorize L RT (rbacSvc G D L) Background u p w = (r, w')"
  shows "db_store V w' = db_store V w"
    and "fades L (seen K () w) (seen K () w') \<or>
      put L (seen K () w) u (perm_names (db_store V w) u) (seen K () w')"
    and "case r of
        Inl e \<Rightarrow> \<not> up V w
      | Inr b \<Rightarrow> b = (p \<in> perm_names (db_store V w) u) \<or> (\<exists>X d. perm_entry L (seen K () w) u = Some (RSet X, d) \<and>
          b = (p \<in> set X) \<and> (\<forall>e. d = Some e \<longrightarrow> rs_now (seen K () w') < e))"
proof -
  note P = rbac.Authorize_path [OF run, unfolded pg_window_sel dbFromContext_simps rbacSvc_sel permCache_def
      option.case, folded permCache_def]
  have "db_store V w' = db_store V w \<and>
    (fades L (seen K () w) (seen K () w') \<or> put L (seen K () w) u (perm_names (db_store V w) u) (seen K () w')) \<and>
    (case r of
        Inl e \<Rightarrow> \<not> up V w
      | Inr b \<Rightarrow> b = (p \<in> perm_names (db_store V w) u) \<or> (\<exists>X d. perm_entry L (seen K () w) u = Some (RSet X, d) \<and>
          b = (p \<in> set X) \<and> (\<forall>e. d = Some e \<longrightarrow> rs_now (seen K () w') < e)))"
  proof (rule P)
    fix f w1 assume hit: "cache_Get L (permCache D) u w = (Some f, w1)" "r = Inr (go_index f p)"
      "db_store V w' = db_store V w" "seen K () w' = seen K () w1"
    from cache_Get_entry(1) [OF hit(1)] cache_Get_entry(2) [OF hit(1) refl] hit(2-4) show ?thesis by auto
  next
    fix e w1 assume failed: "cache_Get L (permCache D) u w = (None, w1)" "r = Inl e" "\<not> up V w"
      "db_store V w' = db_store V w" "seen K () w' = seen K () w1"
    from cache_Get_entry(1) [OF failed(1)] failed(2-5) show ?thesis by simp
  next
    fix ps x w1 w2 w3 assume miss: "cache_Get L (permCache D) u w = (None, w1)" "seen K () w2 = seen K () w1"
      "cache_Set L (permCache D) u ps w2 = (x, w3)" "set ps = perm_names (db_store V w) u"
      "r = Inr (p \<in> set ps)" "db_store V w' = db_store V w" "seen K () w' = seen K () w3"
    have "fades L (seen K () w) (seen K () w') \<or> put L (seen K () w) u (set ps) (seen K () w')"
      using cache_Get_entry(1) [OF miss(1)] cache_Set_entry [OF miss(3)] unfolding miss(2,7)
      by (blast intro: fades_trans put_after_fades)
    with miss(4-6) show ?thesis by simp
  qed
  then show "db_store V w' = db_store V w"
    and "fades L (seen K () w) (seen K () w') \<or>
      put L (seen K () w) u (perm_names (db_store V w) u) (seen K () w')"
    and "case r of
        Inl e \<Rightarrow> \<not> up V w
      | Inr b \<Rightarrow> b = (p \<in> perm_names (db_store V w) u) \<or> (\<exists>X d. perm_entry L (seen K () w) u = Some (RSet X, d) \<and>
          b = (p \<in> set X) \<and> (\<forall>e. d = Some e \<longrightarrow> rs_now (seen K () w') < e))"
    by blast+
qed

lemma step_entries:
  assumes "rbac_step V K G D RT L w heeded w'"
  shows "fades L (seen K () w) (seen K () w') \<or>
    (\<exists>u. put L (seen K () w) u (perm_names (db_store V w') u) (seen K () w'))"
  using assms
proof (cases rule: rbac_step.cases)
  case (check u p r)
  with Authorize_entry(1,2) [OF check(2)] show ?thesis by metis
qed (auto dest: changes_fade deletions_silent)

lemma run_backed:
  assumes "rbac_run V K G D RT L w H heeded" and "backed V K L [w] (seen K () w)"
  shows "H \<noteq> [] \<and> backed V K L H (seen K () (hd H)) \<and> (heeded \<longrightarrow> coherent_at (hd H))"
  using assms
proof (induction rule: rbac_run.induct)
  case begun
  with backed_coherent show ?case by simp
next
  case (went_on w1 H heeded now_heeded w2)
  then have B: "backed V K L (w1 # H) (seen K () w1)" and C: "heeded \<longrightarrow> coherent_at w1" by simp_all
  have "backed V K L (w2 # w1 # H) (seen K () w2)"
    using step_entries [OF went_on.hyps(2)]
  proof (elim disjE exE)
    assume "fades L (seen K () w1) (seen K () w2)"
    then show ?thesis by (rule backed_fades [OF B]) auto
  qed (rule backed_put [OF B])
  with C step_coherent [OF went_on.hyps(2)] show ?case by auto
qed

lemmas bare_Authorize_correct = bare.Authorize_correct [unfolded pg_window_sel dbFromContext_simps]

end

end
