(* ===== verification/Props_Cache.thy ===== *)
theory Props_Cache
  imports Coherence Props_Rbac
begin

text \<open>Properties of the permission cache: what it gives back, what it never does, and that the checks
  stay right with it over any run of the service.\<close>

context redis_cache
begin

lemma put_keys:
  "rs_keys (fold (rd_exec ttl) [Del [k], SAdd k ms, Expire k d] s) k =
     Some (RSet (remdups ms), Some (rs_now s + ttl d))"
  "rs_now (fold (rd_exec ttl) [Del [k], SAdd k ms, Expire k d] s) = rs_now s"
  by (simp_all add: rd_del_def rd_sadd_def rd_expire_def)

lemma Set_up:
  assumes run: "cache_Set L c u ps w = (x, w')" and D: "Option.bind c pc_rdb = Some D"
    and up: "up K w" and ps: "ps \<noteq> []"
  shows "up K w'" and "rs_keys (seen K () w') (permissionsKey L u) =
    Some (RSet (remdups ps), Some (rs_now (seen K () w') + ttl permissionTTL))"
proof -
  let ?cs = "[Del [permissionsKey L u], SAdd (permissionsKey L u) ps, Expire (permissionsKey L u) permissionTTL]"
  obtain r w1 where t: "rd_TxPipeline D ?cs w = (r, w1)" by force
  with run D ps have w': "w' = w1" by (simp add: cache_Set_def Let_def bindS_def)
  note W = writesD [OF TxPipeline t]
  from W up show "up K w'" unfolding w' by (blast intro: touched_up)
  from W up obtain t where "seen K () w1 = fold (rd_exec ttl) ?cs (at_time t (seen K () w))"
    by (cases r) (auto simp: served_def simp del: fold.simps)
  then show "rs_keys (seen K () w') (permissionsKey L u) =
      Some (RSet (remdups ps), Some (rs_now (seen K () w') + ttl permissionTTL))"
    by (simp add: w' put_keys del: fold.simps)
qed

lemma Get_up:
  assumes run: "cache_Get L c u w = (r, w')" and D: "Option.bind c pc_rdb = Some D" and up: "up K w"
    and entry: "rs_keys (seen K () w) (permissionsKey L u) = Some (RSet X, Some e)"
    and X: "X \<noteq> []" and now: "rs_now (seen K () w') < e"
  shows "r = Some (\<lambda>m. if m \<in> set X then Some True else None)"
proof -
  obtain r1 w1 where m: "rd_SMembers D (permissionsKey L u) w = (r1, w1)" by force
  from run m D have w': "w' = w1" and r: "r = (case r1 of Inl e \<Rightarrow> None
      | Inr ms \<Rightarrow> if ms = [] then None else Some (set_of ms))"
    by (auto simp: cache_Get_def bindS_def split: sum.splits if_splits)
  from writesD [OF SMembers m] obtain t where s': "seen K () w1 = at_time t (seen K () w)"
    and ok: "\<And>e. r1 = Inl e \<Longrightarrow> \<not> (up K w \<and> is_set (permissionsKey L u) (at_time t (seen K () w)))"
    and ms: "\<And>ms. r1 = Inr ms \<Longrightarrow> set ms =
      (case rd_members (permissionsKey L u) (at_time t (seen K () w)) of None \<Rightarrow> {} | Some X \<Rightarrow> set X)"
    unfolding served_def by (cases r1) auto
  have "rs_keys (at_time t (seen K () w)) (permissionsKey L u) = Some (RSet X, Some e)"
    using entry now s' by (simp add: w' at_time_def alive_def)
  then have S: "is_set (permissionsKey L u) (at_time t (seen K () w))"
    "rd_members (permissionsKey L u) (at_time t (seen K () w)) = Some X"
    by (simp_all add: is_set_def rd_members_def)
  with ok up obtain l where "r1 = Inr l" by (cases r1) blast+
  with ms [OF this] S(2) have l: "r1 = Inr l" "set l = set X" by simp_all
  with X have "l \<noteq> []" by auto
  with r l show ?thesis by (simp add: set_of_eq)
qed

end

text \<open>
  C27. What was put into the cache comes back: with Redis up, a lookup within the time to live
  answers exactly the permissions that were set, as membership in a Go map, if there are any. The empty set
  is not kept: what a lookup answers after it was set is a miss, or an older entry that was there already.
\<close>

theorem cache_roundtrip:
  assumes "redis_cache K D ttl L c" and "Option.bind c pc_rdb = Some D" and "up K w"
    and "cache_Set L c u ps w = (x, w1)" and "cache_Get L c u w1 = (r, w2)"
    and "rs_now (seen K () w2) < rs_now (seen K () w1) + ttl permissionTTL"
  shows "if ps = []
    then (case r of None \<Rightarrow> True | Some f \<Rightarrow>
      \<exists>N. cached_perms L c (seen K () w) u = Some N \<and> (\<forall>p. go_index f p \<longleftrightarrow> p \<in> N))
    else \<exists>f. r = Some f \<and> (\<forall>p. go_index f p \<longleftrightarrow> p \<in> set ps)"
proof (cases "ps = []")
  case True
  obtain y w0 where s: "rd_Set D (permissionsKey L u @ '':empty'') ''1'' minute w = (y, w0)" by force
  with assms(2,4) True have "w1 = w0" by (simp add: cache_Set_def Let_def bindS_def)
  moreover have "writes K () (served (\<lambda>_. True)
      (\<lambda>s _ s'. s' = rd_set (permissionsKey L u @ '':empty'') (RStr ''1'') (ttl minute) s))
      (rd_Set D (permissionsKey L u @ '':empty'') ''1'' minute)"
    using assms(1) by (intro redis_contract.SetEx) (simp_all add: redis_cache_def)
  ultimately obtain t where "seen K () w1 = at_time t (seen K () w) \<or> seen K () w1 =
      rd_set (permissionsKey L u @ '':empty'') (RStr ''1'') (ttl minute) (at_time t (seen K () w))"
    using writesD s by (cases y) (fastforce simp: served_def)+
  then have same: "cached_perms L c (seen K () w1) u = cached_perms L c (at_time t (seen K () w)) u"
    by (auto simp: cached_perms_def split: option.split)
  have old: "cached_perms L c (seen K () w) u = Some N" if "cached_perms L c (seen K () w1) u = Some N" for N
    using redis_cache.fewer_at_time [OF assms(1), of t "seen K () w"] that
    unfolding same map_le_def by (metis domI)
  from writesD [OF redis_cache.Get_writes [OF assms(1)] assms(5)] True show ?thesis
    by (cases r) (auto dest: old)
next
  case False
  note S = redis_cache.Set_up [OF assms(1,4,2,3) False]
  have "remdups ps \<noteq> []" using False by simp
  from redis_cache.Get_up [OF assms(1,5,2) S this assms(6)] False show ?thesis by simp
qed

theorem cache_roundtrip_witness:
  "\<exists>f. fst (cache_Get ref_lib (permCache ref_redis) 2
      (snd (cache_Set ref_lib (permCache ref_redis) 2 [''view_profile''] demo))) = Some f \<and>
    go_index f ''view_profile'' \<and> \<not> go_index f ''assign_role''"
proof -
  let ?w1 = "snd (cache_Set ref_lib (permCache ref_redis) 2 [''view_profile''] demo)"
  have D: "Option.bind (permCache ref_redis) pc_rdb = Some ref_redis" by (simp add: permCache_def)
  have up: "up ref_redis_window demo" by (simp add: ref_redis_window_def demo_def)
  have serve: "rs_now (rw_state (snd (ref_serve f w))) = rs_now (rw_state w) + 1"
    if "\<And>s. rs_now (snd (f s)) = rs_now s"
    for f :: "redis_state \<Rightarrow> (error + string list) \<times> redis_state" and w :: redis_world
    using that [of "at_time (rs_now (rw_state w) + 1) (rw_state w)"]
    by (cases "f (at_time (rs_now (rw_state w) + 1) (rw_state w))") (simp add: ref_serve_def Let_def at_time_def)
  have "snd (cache_Get ref_lib (permCache ref_redis) u w) =
      snd (rd_SMembers ref_redis (permissionsKey ref_lib u) w)" for u and w :: redis_world
    by (cases "rd_SMembers ref_redis (permissionsKey ref_lib u) w")
      (simp add: cache_Get_def permCache_def bindS_def split: sum.split)
  then have tick: "rs_now (rw_state (snd (cache_Get ref_lib (permCache ref_redis) u w))) = rs_now (rw_state w) + 1"
    for u and w :: redis_world
    by (simp only:) (simp add: ref_redis_def serve)
  have "rs_now (rw_state w) + 1 < rs_now (rw_state w) + permissionTTL" for w :: redis_world
    by (simp add: permissionTTL_def)
  from this [of ?w1] have soon: "rs_now (seen ref_redis_window ()
      (snd (cache_Get ref_lib (permCache ref_redis) 2 ?w1))) < rs_now (seen ref_redis_window () ?w1) + permissionTTL"
    unfolding ref_redis_window_def window.select_convs tick .
  from cache_roundtrip [OF ref_platform.redis_cache_axioms D up prod.collapse [symmetric]
      prod.collapse [symmetric] soon]
  obtain f where f: "fst (cache_Get ref_lib (permCache ref_redis) 2 ?w1) = Some f"
    and P: "\<forall>p. go_index f p \<longleftrightarrow> p \<in> set [''view_profile'']" by auto
  from P have "go_index f ''view_profile''" "\<not> go_index f ''assign_role''" by simp_all
  with f show ?thesis by blast
qed

text \<open>
  An empty set of permissions is never answered from the cache: \<open>Get\<close> looks at the set
  only, not at the \<open>:empty\<close> key that \<open>Set\<close> writes for such a user, so every check for a user
  without permissions goes to the database.
\<close>

theorem empty_set_never_cached:
  shows "(case fst (cache_Get L c u w) of None \<Rightarrow> True | Some f \<Rightarrow> \<exists>p. go_index f p)"
  by (auto simp: cache_Get_def bindS_def set_of_eq go_index_def neq_Nil_conv
      split: option.splits sum.splits prod.splits if_splits)

section \<open>The cache behind the service\<close>

text \<open>
  C38. The cache is transparent: with a coherent cache and the database up, the service answers a
  check as the same service without any cache does.
\<close>

theorem cache_is_transparent:
  assumes "pg_platform V G jsonb fits coll RT K D ttl L"
    and "coherent (cache_of L K D w) (perm_names (db_store V w))" and "up V w"
  shows "fst (Authorize L RT (rbacSvc G D L) Background u p w) =
    fst (Authorize L RT (bareSvc G D L) Background u p w)"
proof -
  obtain r1 w1 r2 w2 where a: "Authorize L RT (rbacSvc G D L) Background u p w = (r1, w1)"
    and b: "Authorize L RT (bareSvc G D L) Background u p w = (r2, w2)" by (metis surj_pair)
  have "coherent (\<lambda>_. None) (perm_names (db_store V w))" by (simp add: coherent_def)
  from pg_platform.bare_Authorize_correct(3) [OF assms(1) b this]
    pg_platform.Authorize_correct(3) [OF assms(1) a assms(2)] assms(3)
  show ?thesis unfolding a b by (cases r1; cases r2) auto
qed

theorem cache_is_transparent_witness:
  "fst (Authorize ref_lib ref_runtime (bareSvc ref_gorm ref_redis ref_lib) Background 2 ''view_profile'' demo) =
     Inr True"
proof -
  have "fst (Authorize ref_lib ref_runtime ref_rbac Background 2 ''view_profile'' demo) = Inr True"
    by code_simp
  with cache_is_transparent [where u = 2 and p = "''view_profile''",
      OF ref_platform.pg_platform_axioms demo_coherent demo_up(2)]
  show ?thesis by simp
qed










end
