(* ===== verification/Broker.thy ===== *)
theory Broker
  imports Redis
begin

text \<open>
  RabbitMQ, reached through amqp091-go. The calls the code makes are the fields of
  \<open>channel\<close>; \<open>broker_contract\<close> states what AMQP 0-9-1 says of them. A publishing is
  handed to the socket: it reports success without the broker's confirmation, and is lost
  when the connection breaks. At the end stands an in-memory broker.
\<close>

section \<open>The broker's state\<close>

text \<open>\<open>amqp.Table\<close> values the code uses: \<open>int32\<close>, and any other.\<close>

datatype header_value = HInt32 "32 word" | HOther string

type_synonym table = "string \<Rightarrow> header_value option"

record message =
  ms_Key :: string
  ms_Body :: string
  ms_Headers :: "table option"

record queue =
  qu_ready :: "message list"
  qu_unacked :: "(nat \<times> message) list"
  qu_dead :: "(string \<times> string) option"

record broker =
  bk_exchanges :: "string list"
  bk_queues :: "(string \<times> queue) list"
  bk_bindings :: "(string \<times> string \<times> string) list"

definition no_broker :: broker where
  "no_broker = \<lparr>bk_exchanges = [], bk_queues = [], bk_bindings = []\<rparr>"

abbreviation queue_of :: "broker \<Rightarrow> string \<Rightarrow> queue option" where
  "queue_of s \<equiv> map_of (bk_queues s)"

subsection \<open>Topic matching\<close>

text \<open>A key is words between dots; in a pattern, \<open>*\<close> is any one word and \<open>#\<close> any number of words.\<close>

fun words_of :: "string \<Rightarrow> string list" where
  "words_of [] = [[]]"
| "words_of (c # s) =
     (if c = CHR ''.'' then [] # words_of s
      else (case words_of s of [] \<Rightarrow> [[c]] | w # ws \<Rightarrow> (c # w) # ws))"

fun match_words :: "string list \<Rightarrow> string list \<Rightarrow> bool" where
  "match_words [] [] \<longleftrightarrow> True"
| "match_words [] (w # ws) \<longleftrightarrow> False"
| "match_words (p # ps) [] \<longleftrightarrow> p = ''#'' \<and> match_words ps []"
| "match_words (p # ps) (w # ws) \<longleftrightarrow>
     (if p = ''#'' then match_words ps (w # ws) \<or> match_words (p # ps) ws
      else (p = ''*'' \<or> p = w) \<and> match_words ps ws)"

definition topic_match :: "string \<Rightarrow> string \<Rightarrow> bool" where
  "topic_match pattern key \<longleftrightarrow> match_words (words_of pattern) (words_of key)"

lemma match_hash: "match_words [''#''] ws"
  by (induction ws) simp_all

lemma topic_match_hash [simp]: "topic_match ''#'' key"
  by (simp add: topic_match_def match_hash)

text \<open>A pattern matches itself.\<close>

lemma match_words_refl: "match_words ws ws"
proof (induction ws)
  case Nil
  then show ?case by simp
next
  case (Cons w ws)
  have "match_words (''#'' # ws) ws" if "match_words ws ws"
    using that by (cases ws) auto
  with Cons show ?case by auto
qed

lemma topic_match_refl [simp]: "topic_match key key"
  by (simp add: topic_match_def match_words_refl)

subsection \<open>Operations\<close>

definition bound_to :: "broker \<Rightarrow> string \<Rightarrow> string \<Rightarrow> string \<Rightarrow> bool" where
  "bound_to s ex key q \<longleftrightarrow> list_ex (\<lambda>(e, p, q'). e = ex \<and> q' = q \<and> topic_match p key) (bk_bindings s)"

text \<open>A message goes once to every queue that some binding of the exchange selects.\<close>

definition map_queues :: "(string \<Rightarrow> queue \<Rightarrow> queue) \<Rightarrow> broker \<Rightarrow> broker" where
  "map_queues f s = s\<lparr>bk_queues := map (\<lambda>(q, Q). (q, f q Q)) (bk_queues s)\<rparr>"

definition route_to :: "string \<Rightarrow> message \<Rightarrow> broker \<Rightarrow> broker" where
  "route_to ex m s = map_queues (\<lambda>q Q.
     if bound_to s ex (ms_Key m) q then Q\<lparr>qu_ready := qu_ready Q @ [m]\<rparr> else Q) s"

text \<open>The queue and the message that a delivery tag stands for, until it is acknowledged.\<close>

definition find_tag :: "nat \<Rightarrow> broker \<Rightarrow> (string \<times> message) option" where
  "find_tag tag s = map_of (concat (map (\<lambda>(q, Q). map (\<lambda>(t, m). (t, (q, m))) (qu_unacked Q))
     (bk_queues s))) tag"

definition drop_tag :: "nat \<Rightarrow> broker \<Rightarrow> broker" where
  "drop_tag tag = map_queues (\<lambda>q Q. Q\<lparr>qu_unacked := filter (\<lambda>(t, m). t \<noteq> tag) (qu_unacked Q)\<rparr>)"

text \<open>
  A message rejected without requeueing goes to the queue's dead-letter exchange, under the
  dead-letter key, or is dropped where the queue has none.
\<close>

definition dead_letter :: "string \<Rightarrow> message \<Rightarrow> broker \<Rightarrow> broker" where
  "dead_letter q m s = (case Option.bind (queue_of s q) qu_dead of
     None \<Rightarrow> s
   | Some (ex, key) \<Rightarrow> route_to ex (m\<lparr>ms_Key := key\<rparr>) s)"

definition reject_tag :: "nat \<Rightarrow> broker \<Rightarrow> broker" where
  "reject_tag tag s = (case find_tag tag s of
     None \<Rightarrow> s
   | Some (q, m) \<Rightarrow> dead_letter q m (drop_tag tag s))"

definition declare_queue :: "string \<Rightarrow> (string \<times> string) option \<Rightarrow> broker \<Rightarrow> broker" where
  "declare_queue q dead s = (if queue_of s q = None
     then s\<lparr>bk_queues := bk_queues s @ [(q, \<lparr>qu_ready = [], qu_unacked = [], qu_dead = dead\<rparr>)]\<rparr>
     else s)"

text \<open>Declaring a queue again with other arguments is refused.\<close>

definition agrees :: "string \<Rightarrow> (string \<times> string) option \<Rightarrow> broker \<Rightarrow> bool" where
  "agrees q dead s \<longleftrightarrow> (case queue_of s q of None \<Rightarrow> True | Some Q \<Rightarrow> qu_dead Q = dead)"

definition declare_exchange :: "string \<Rightarrow> broker \<Rightarrow> broker" where
  "declare_exchange ex s = s\<lparr>bk_exchanges := List.insert ex (bk_exchanges s)\<rparr>"

definition bind_queue :: "string \<Rightarrow> string \<Rightarrow> string \<Rightarrow> broker \<Rightarrow> broker" where
  "bind_queue q key ex s = s\<lparr>bk_bindings := List.insert (ex, key, q) (bk_bindings s)\<rparr>"

definition bindable :: "string \<Rightarrow> string \<Rightarrow> broker \<Rightarrow> bool" where
  "bindable q ex s \<longleftrightarrow> queue_of s q \<noteq> None \<and> ex \<in> set (bk_exchanges s)"

lemma queue_of_map [simp]: "queue_of (map_queues f s) q = map_option (f q) (queue_of s q)"
proof -
  have "map_of (map (\<lambda>(q, Q). (q, f q Q)) qs) q = map_option (f q) (map_of qs q)" for qs
    by (induction qs) auto
  then show ?thesis by (simp add: map_queues_def)
qed

lemma map_queues_sel [simp]:
  "bk_exchanges (map_queues f s) = bk_exchanges s" "bk_bindings (map_queues f s) = bk_bindings s"
  by (simp_all add: map_queues_def)

lemma bound_to_cong: "bk_bindings s' = bk_bindings s \<Longrightarrow> bound_to s' ex key q = bound_to s ex key q"
  by (simp add: bound_to_def)

lemma broker_sel [simp]:
  "bk_exchanges (route_to ex m s) = bk_exchanges s" "bk_bindings (route_to ex m s) = bk_bindings s"
  "bk_exchanges (drop_tag t s) = bk_exchanges s" "bk_bindings (drop_tag t s) = bk_bindings s"
  by (simp_all add: route_to_def drop_tag_def)

lemma find_tag_map:
  assumes "\<And>q Q. qu_unacked (f q Q) = qu_unacked Q"
  shows "find_tag tag (map_queues f s) = find_tag tag s"
  by (simp add: find_tag_def map_queues_def comp_def split_def assms)

lemma find_tag_route [simp]: "find_tag tag (route_to ex m s) = find_tag tag s"
  by (simp add: route_to_def find_tag_map)

lemma find_tag_drop [simp]: "find_tag tag (drop_tag tag s) = None"
  by (auto simp: find_tag_def drop_tag_def map_queues_def map_of_eq_None_iff)

lemma find_tag_dead_letter [simp]: "find_tag tag (dead_letter q m s) = find_tag tag s"
  by (simp add: dead_letter_def split: option.splits)

lemma queue_of_route: "queue_of (route_to ex m s) q = map_option (\<lambda>Q.
    if bound_to s ex (ms_Key m) q then Q\<lparr>qu_ready := qu_ready Q @ [m]\<rparr> else Q) (queue_of s q)"
  by (simp add: route_to_def)

lemma queue_of_drop: "queue_of (drop_tag tag s) q =
    map_option (\<lambda>Q. Q\<lparr>qu_unacked := filter (\<lambda>(t, m). t \<noteq> tag) (qu_unacked Q)\<rparr>) (queue_of s q)"
  by (simp add: drop_tag_def)

text \<open>The messages waiting in a queue.\<close>

definition ready :: "broker \<Rightarrow> string \<Rightarrow> message list" where
  "ready s q = (case queue_of s q of None \<Rightarrow> [] | Some Q \<Rightarrow> qu_ready Q)"

lemma ready_route: "ready (route_to ex m s) q =
    ready s q @ (if queue_of s q \<noteq> None \<and> bound_to s ex (ms_Key m) q then [m] else [])"
  by (simp add: ready_def queue_of_route split: option.splits)

lemma ready_drop [simp]: "ready (drop_tag tag s) q = ready s q"
  by (simp add: ready_def queue_of_drop split: option.splits)

section \<open>The calls\<close>

text \<open>
  \<open>ExchangeDeclare(name, "topic", true, false, false, false, nil)\<close>;
  \<open>QueueDeclare(name, true, false, false, false, args)\<close> with the dead-letter arguments;
  \<open>QueueBind(name, key, exchange, false, nil)\<close>; \<open>PublishWithContext\<close> with exchange and message;
  \<open>Ack(false)\<close> and \<open>Nack(false, false)\<close> by delivery tag; \<open>Consume\<close>.
\<close>

record 'w channel =
  ch_ExchangeDeclare :: "string \<Rightarrow> ('w, error, unit) cmd"
  ch_QueueDeclare :: "string \<Rightarrow> (string \<times> string) option \<Rightarrow> ('w, error, unit) cmd"
  ch_QueueBind :: "string \<Rightarrow> string \<Rightarrow> string \<Rightarrow> ('w, error, unit) cmd"
  ch_Publish :: "string \<Rightarrow> message \<Rightarrow> ('w, error, unit) cmd"
  ch_Ack :: "nat \<Rightarrow> ('w, error, unit) cmd"
  ch_Nack :: "nat \<Rightarrow> ('w, error, unit) cmd"
  ch_Consume :: "string \<Rightarrow> ('w, error, unit) cmd"

text \<open>
  \<open>rpc\<close>: a call that waits for the broker's answer; \<open>sends\<close>: one that does not, so that its
  success says nothing once the broker is not up. Breaking the rules (\<open>P\<close>) closes the
  channel: it need not be up afterwards.
\<close>

definition rpc ::
  "(unit, 'w, broker, 'p) window \<Rightarrow> (broker \<Rightarrow> bool) \<Rightarrow> (broker \<Rightarrow> broker) \<Rightarrow> ('w, error, unit) cmd \<Rightarrow> bool" where
  "rpc B P f m \<longleftrightarrow> (\<forall>w r w'. m w = (r, w') \<longrightarrow> rest B w' = rest B w \<and>
     (case r of Inr _ \<Rightarrow> P (seen B () w) \<and> seen B () w' = f (seen B () w)
              | Inl _ \<Rightarrow> seen B () w' = seen B () w \<or> P (seen B () w) \<and> seen B () w' = f (seen B () w)) \<and>
     (up B w \<longrightarrow> P (seen B () w) \<longrightarrow> r = Inr () \<and> up B w'))"

definition sends ::
  "(unit, 'w, broker, 'p) window \<Rightarrow> (broker \<Rightarrow> bool) \<Rightarrow> (broker \<Rightarrow> broker) \<Rightarrow> ('w, error, unit) cmd \<Rightarrow> bool" where
  "sends B P f m \<longleftrightarrow> (\<forall>w r w'. m w = (r, w') \<longrightarrow> rest B w' = rest B w \<and>
     (seen B () w' = seen B () w \<or> P (seen B () w) \<and> seen B () w' = f (seen B () w)) \<and>
     (up B w \<longrightarrow> P (seen B () w) \<longrightarrow> r = Inr () \<and> up B w' \<and> seen B () w' = f (seen B () w)))"

lemma rpcD:
  assumes "rpc B P f m" and "m w = (r, w')"
  shows "rest B w' = rest B w"
    and "r = Inr u \<Longrightarrow> P (seen B () w) \<and> seen B () w' = f (seen B () w)"
    and "up B w \<Longrightarrow> P (seen B () w) \<Longrightarrow> r = Inr () \<and> up B w' \<and> seen B () w' = f (seen B () w)"
proof -
  from assms have R: "rest B w' = rest B w \<and>
     (case r of Inr _ \<Rightarrow> P (seen B () w) \<and> seen B () w' = f (seen B () w)
              | Inl _ \<Rightarrow> seen B () w' = seen B () w \<or> P (seen B () w) \<and> seen B () w' = f (seen B () w)) \<and>
     (up B w \<longrightarrow> P (seen B () w) \<longrightarrow> r = Inr () \<and> up B w')"
    unfolding rpc_def by blast
  then show "rest B w' = rest B w" by (rule conjunct1)
  from R show "r = Inr u \<Longrightarrow> P (seen B () w) \<and> seen B () w' = f (seen B () w)" by simp
  from R show "up B w \<Longrightarrow> P (seen B () w) \<Longrightarrow> r = Inr () \<and> up B w' \<and> seen B () w' = f (seen B () w)"
    by (cases r) auto
qed

lemma sendsD:
  assumes "sends B P f m" and "m w = (r, w')"
  shows "rest B w' = rest B w"
    and "seen B () w' = seen B () w \<or> P (seen B () w) \<and> seen B () w' = f (seen B () w)"
    and "up B w \<Longrightarrow> P (seen B () w) \<Longrightarrow> r = Inr () \<and> up B w' \<and> seen B () w' = f (seen B () w)"
  using assms unfolding sends_def by blast+

locale broker_contract =
  fixes B :: "(unit, 'w, broker, 'p) window"
    and CH :: "'w channel"
  assumes ExchangeDeclare: "rpc B (\<lambda>_. True) (declare_exchange ex) (ch_ExchangeDeclare CH ex)"
    and QueueDeclare: "rpc B (agrees q dead) (declare_queue q dead) (ch_QueueDeclare CH q dead)"
    and QueueBind: "rpc B (bindable q ex) (bind_queue q key ex) (ch_QueueBind CH q key ex)"
    and Publish: "sends B (\<lambda>s. ex \<in> set (bk_exchanges s)) (route_to ex m) (ch_Publish CH ex m)"
    and Ack: "sends B (\<lambda>s. find_tag tag s \<noteq> None) (drop_tag tag) (ch_Ack CH tag)"
    and Nack: "sends B (\<lambda>s. find_tag tag s \<noteq> None) (reject_tag tag) (ch_Nack CH tag)"
    and ConsumeCall: "rpc B (\<lambda>s. queue_of s q \<noteq> None) (\<lambda>s. s) (ch_Consume CH q)"

section \<open>A reference broker\<close>

record broker_world = redis_world +
  bw_broker :: broker
  bw_faults :: "bool list"

definition ref_broker_window ::
  "(unit, 'x broker_world_scheme, broker,
    (tables \<times> tables \<times> bool list) \<times> (redis_state \<times> bool list) \<times> 'x) window" where
  "ref_broker_window = \<lparr>seen = (\<lambda>_. bw_broker),
     rest = (\<lambda>w. ((db_base w, db_tx w, db_faults w), (rw_state w, rw_faults w), broker_world.more w)),
     up = (\<lambda>w. True \<notin> set (bw_faults w))\<rparr>"

definition ref_amqp ::
  "(broker \<Rightarrow> bool) \<Rightarrow> (broker \<Rightarrow> broker) \<Rightarrow> ('x broker_world_scheme, error, unit) cmd" where
  "ref_amqp P f w =
     (if bw_faults w \<noteq> [] \<and> hd (bw_faults w)
      then (Inl (ErrOther ''fault''), w\<lparr>bw_faults := tl (bw_faults w)\<rparr>)
      else if P (bw_broker w)
      then (Inr (), w\<lparr>bw_faults := tl (bw_faults w), bw_broker := f (bw_broker w)\<rparr>)
      else (Inl (ErrOther ''channel exception''), w\<lparr>bw_faults := [True]\<rparr>))"

definition ref_channel :: "'x broker_world_scheme channel" where
  "ref_channel = \<lparr>
     ch_ExchangeDeclare = (\<lambda>ex. ref_amqp (\<lambda>_. True) (declare_exchange ex)),
     ch_QueueDeclare = (\<lambda>q dead. ref_amqp (agrees q dead) (declare_queue q dead)),
     ch_QueueBind = (\<lambda>q key ex. ref_amqp (bindable q ex) (bind_queue q key ex)),
     ch_Publish = (\<lambda>ex m. ref_amqp (\<lambda>s. ex \<in> set (bk_exchanges s)) (route_to ex m)),
     ch_Ack = (\<lambda>tag. ref_amqp (\<lambda>s. find_tag tag s \<noteq> None) (drop_tag tag)),
     ch_Nack = (\<lambda>tag. ref_amqp (\<lambda>s. find_tag tag s \<noteq> None) (reject_tag tag)),
     ch_Consume = (\<lambda>q. ref_amqp (\<lambda>s. queue_of s q \<noteq> None) (\<lambda>s. s))\<rparr>"

lemma in_tl: "x \<in> set (tl xs) \<Longrightarrow> x \<in> set xs"
  by (cases xs) auto

lemma ref_amqp_rpc: "rpc ref_broker_window P f (ref_amqp P f)"
proof -
  have "up ref_broker_window w \<Longrightarrow> \<not> (bw_faults w \<noteq> [] \<and> hd (bw_faults w))" for w :: "'a broker_world_scheme"
    by (cases "bw_faults w") (auto simp: ref_broker_window_def)
  then show ?thesis
    by (auto simp: rpc_def ref_amqp_def ref_broker_window_def split: if_splits dest: in_tl)
qed

lemma rpc_sends: "rpc B P f m \<Longrightarrow> sends B P f m"
  unfolding rpc_def sends_def by (fastforce split: sum.splits)

interpretation ref_broker: broker_contract ref_broker_window ref_channel
  by unfold_locales (simp_all add: ref_channel_def ref_amqp_rpc rpc_sends)

interpretation ref_broker_quiet: quiet_runtime ref_broker_window ref_runtime
  by unfold_locales
    (auto simp: silent_def ref_runtime_def ref_Now_def ref_Rand_def okE_def ref_broker_window_def
      untouched_def)

lemma broker_in_more:
  assumes "db_world.more w' = db_world.more w"
  shows "bw_broker w' = bw_broker w" and "bw_faults w' = bw_faults w"
  using assms by (cases w; cases w'; simp)+

lemma ref_broker_apart: "apart ref_window ref_broker_window"
  by (auto dest: broker_in_more simp: apart_def ref_window_def ref_broker_window_def db_get_def
      split: conn.splits)

end
