(* ===== verification/Rabbit.thy ===== *)
theory Rabbit
  imports Broker
begin

text \<open>
  \<open>internal/platform/rabbitmq\<close>: the topology the program declares and the loop that runs a
  handler for every message of a queue, with its retries and dead letters.
\<close>

section \<open>rabbitmq.go\<close>

definition EventsExchange :: string where "EventsExchange = ''rbac.events''"
definition dlxExchange :: string where "dlxExchange = ''rbac.events.dlx''"

fun forE :: "('a \<Rightarrow> ('w, error, unit) cmd) \<Rightarrow> 'a list \<Rightarrow> ('w, error, unit) cmd" where
  "forE f [] = okE ()"
| "forE f (x # xs) = bindE (f x) (\<lambda>_. forE f xs)"

definition queues :: "(string \<times> string list) list" where
  "queues =
     [(''audit.queue'', [''#'']),
      (''notification.queue'', [''user.created'', ''role.assigned'']),
      (''analytics.queue'', [''login.success'', ''login.failure'', ''user.created''])]"

definition dlq :: "string \<Rightarrow> string" where
  "dlq q = q @ ''.dlq''"

definition setup_queue :: "'w channel \<Rightarrow> string \<times> string list \<Rightarrow> ('w, error, unit) cmd" where
  "setup_queue CH = (\<lambda>(name, bindings).
     bindE (ch_QueueDeclare CH name (Some (dlxExchange, dlq name))) (\<lambda>_.
     bindE (forE (\<lambda>key. ch_QueueBind CH name key EventsExchange) bindings) (\<lambda>_.
     bindE (ch_QueueDeclare CH (dlq name) None) (\<lambda>_.
     ch_QueueBind CH (dlq name) (dlq name) dlxExchange))))"

definition setupTopology :: "'w channel \<Rightarrow> ('w, error, unit) cmd" where
  "setupTopology CH =
     bindE (ch_ExchangeDeclare CH EventsExchange) (\<lambda>_.
     bindE (ch_ExchangeDeclare CH dlxExchange) (\<lambda>_.
     forE (setup_queue CH) queues))"

text \<open>\<open>amqp.Dial\<close>, \<open>conn.Channel\<close> and the two \<open>Close\<close>s.\<close>

record 'w amqplib =
  am_Dial :: "string \<Rightarrow> ('w, error, nat) cmd"
  am_Channel :: "nat \<Rightarrow> ('w, error, 'w channel) cmd"
  am_CloseChannel :: "'w channel \<Rightarrow> 'w \<Rightarrow> 'w"
  am_CloseConn :: "nat \<Rightarrow> 'w \<Rightarrow> 'w"

record 'w Conn =
  cn_conn :: nat
  cn_ch :: "'w channel"

definition conn_Close :: "'w amqplib \<Rightarrow> 'w Conn \<Rightarrow> 'w \<Rightarrow> 'w" where
  "conn_Close A c w = am_CloseConn A (cn_conn c) (am_CloseChannel A (cn_ch c) w)"

definition Connect :: "'w amqplib \<Rightarrow> string \<Rightarrow> ('w, error, 'w Conn) cmd" where
  "Connect A url =
     bindE (am_Dial A url) (\<lambda>conn.
     bindS (am_Channel A conn) (\<lambda>r.
     case r of
       Inl err \<Rightarrow> doS (am_CloseConn A conn) (failE err)
     | Inr ch \<Rightarrow>
         (let c = \<lparr>cn_conn = conn, cn_ch = ch\<rparr> in
          bindS (setupTopology (cn_ch c)) (\<lambda>r.
          case r of
            Inl err \<Rightarrow> doS (conn_Close A c) (failE err)
          | Inr _ \<Rightarrow> okE c))))"

section \<open>The topology\<close>

text \<open>What the declarations amount to, as a function of the broker's state.\<close>

definition place_queue :: "string \<times> string list \<Rightarrow> broker \<Rightarrow> broker" where
  "place_queue = (\<lambda>(name, bindings) s.
     bind_queue (dlq name) (dlq name) dlxExchange
       (declare_queue (dlq name) None
         (fold (\<lambda>key. bind_queue name key EventsExchange) bindings
           (declare_queue name (Some (dlxExchange, dlq name)) s))))"

definition topology :: "broker \<Rightarrow> broker" where
  "topology s = fold place_queue queues (declare_exchange dlxExchange (declare_exchange EventsExchange s))"

text \<open>No queue of the program has been declared with other arguments before.\<close>

definition compatible :: "broker \<Rightarrow> bool" where
  "compatible s \<longleftrightarrow> (\<forall>(name, bs)\<in>set queues.
     agrees name (Some (dlxExchange, dlq name)) s \<and> agrees (dlq name) None s)"

text \<open>
  \<open>wired\<close>: both exchanges are there; every queue of the program is there, with its bindings
  and its dead letters going to the dead-letter exchange; and so is every dead-letter
  queue, bound to it.
\<close>

definition wired_queue :: "string \<times> string list \<Rightarrow> broker \<Rightarrow> bool" where
  "wired_queue = (\<lambda>(name, keys) s.
     Option.bind (queue_of s name) qu_dead = Some (dlxExchange, dlq name) \<and>
     (\<forall>key\<in>set keys. (EventsExchange, key, name) \<in> set (bk_bindings s)) \<and>
     queue_of s (dlq name) \<noteq> None \<and>
     (dlxExchange, dlq name, dlq name) \<in> set (bk_bindings s))"

definition wired :: "broker \<Rightarrow> bool" where
  "wired s \<longleftrightarrow> EventsExchange \<in> set (bk_exchanges s) \<and> dlxExchange \<in> set (bk_exchanges s) \<and>
     (\<forall>x\<in>set queues. wired_queue x s)"

lemma declare_queue_sel [simp]:
  "bk_exchanges (declare_queue q d s) = bk_exchanges s" "bk_bindings (declare_queue q d s) = bk_bindings s"
  "bk_exchanges (bind_queue q k ex s) = bk_exchanges s"
  "bk_queues (bind_queue q k ex s) = bk_queues s"
  "set (bk_bindings (bind_queue q k ex s)) = insert (ex, k, q) (set (bk_bindings s))"
  "bk_queues (declare_exchange ex s) = bk_queues s"
  "bk_bindings (declare_exchange ex s) = bk_bindings s"
  "set (bk_exchanges (declare_exchange ex s)) = insert ex (set (bk_exchanges s))"
  by (simp_all add: declare_queue_def bind_queue_def declare_exchange_def)

lemma queue_of_declare [simp]: "queue_of (declare_queue q d s) q' =
    (if q' = q \<and> queue_of s q = None then Some \<lparr>qu_ready = [], qu_unacked = [], qu_dead = d\<rparr>
     else queue_of s q')"
  by (auto simp: declare_queue_def map_add_def split: option.splits)

lemma fold_bind_sel [simp]:
  "bk_queues (fold (\<lambda>key. bind_queue q key ex) keys s) = bk_queues s"
  "bk_exchanges (fold (\<lambda>key. bind_queue q key ex) keys s) = bk_exchanges s"
  "set (bk_bindings (fold (\<lambda>key. bind_queue q key ex) keys s)) =
     (\<lambda>key. (ex, key, q)) ` set keys \<union> set (bk_bindings s)"
  by (induction keys arbitrary: s) auto

text \<open>
  \<open>does\<close>: calls in sequence. When the last of them succeeds all are done; with the broker up
  none fails.
\<close>

definition does ::
  "(unit, 'w, broker, 'p) window \<Rightarrow> (broker \<Rightarrow> bool) \<Rightarrow> (broker \<Rightarrow> broker) \<Rightarrow> ('w, error, unit) cmd \<Rightarrow> bool" where
  "does B P f m \<longleftrightarrow> (\<forall>w r w'. m w = (r, w') \<longrightarrow> rest B w' = rest B w \<and>
     (r = Inr () \<longrightarrow> seen B () w' = f (seen B () w)) \<and>
     (up B w \<longrightarrow> P (seen B () w) \<longrightarrow> r = Inr () \<and> up B w'))"

lemma does_okE: "does B (\<lambda>_. True) (\<lambda>s. s) (okE ())"
  by (simp add: does_def okE_def)

lemma rpc_does: "rpc B P f m \<Longrightarrow> does B P f m"
  unfolding does_def using rpcD [of B P f m] by (metis (full_types))

lemma does_seq:
  assumes m: "does B P f m" and n: "does B Q g n"
  shows "does B (\<lambda>s. P s \<and> Q (f s)) (\<lambda>s. g (f s)) (bindE m (\<lambda>_. n))"
  unfolding does_def
proof (intro allI impI)
  fix w r w' assume run: "bindE m (\<lambda>_. n) w = (r, w')"
  obtain r1 w1 where m1: "m w = (r1, w1)" by force
  note M = m [unfolded does_def, rule_format, OF m1]
  show "rest B w' = rest B w \<and>
     (r = Inr () \<longrightarrow> seen B () w' = g (f (seen B () w))) \<and>
     (up B w \<longrightarrow> P (seen B () w) \<and> Q (f (seen B () w)) \<longrightarrow> r = Inr () \<and> up B w')"
  proof (cases r1)
    case (Inl e)
    with run m1 M show ?thesis by (auto simp: bindE_def)
  next
    case (Inr u)
    with run m1 have "n w1 = (r, w')" by (simp add: bindE_def)
    from n [unfolded does_def, rule_format, OF this] M Inr show ?thesis by auto
  qed
qed

lemma does_weaken: "does B P f m \<Longrightarrow> (\<And>s. Q s \<Longrightarrow> P s) \<Longrightarrow> does B Q f m"
  by (simp add: does_def)

lemma does_forE:
  assumes "\<And>x. x \<in> set xs \<Longrightarrow> does B (P x) (f x) (m x)"
    and "\<And>x y s. x \<in> set xs \<Longrightarrow> y \<in> set xs \<Longrightarrow> P x s \<Longrightarrow> P y s \<Longrightarrow> P y (f x s)"
  shows "does B (\<lambda>s. \<forall>x\<in>set xs. P x s) (fold f xs) (forE m xs)"
  using assms
proof (induction xs)
  case Nil
  then show ?case by (simp add: does_okE id_def)
next
  case (Cons x xs)
  then have "does B (\<lambda>s. \<forall>x\<in>set xs. P x s) (fold f xs) (forE m xs)" by simp
  from does_seq [OF Cons.prems(1) this]
  have "does B (\<lambda>s. P x s \<and> (\<forall>y\<in>set xs. P y (f x s))) (\<lambda>s. fold f xs (f x s)) (forE m (x # xs))"
    by simp
  then have "does B (\<lambda>s. P x s \<and> (\<forall>y\<in>set xs. P y (f x s))) (fold f (x # xs)) (forE m (x # xs))"
    by (simp add: comp_def)
  then show ?case
    by (rule does_weaken) (use Cons.prems(2) in auto)
qed

text \<open>The queues' names, and the names of their dead-letter queues, are all different.\<close>

lemma queue_names:
  "(a, x) \<in> set queues \<Longrightarrow> (b, y) \<in> set queues \<Longrightarrow> a \<noteq> dlq b"
  by (auto simp: queues_def dlq_def)

lemma dlq_eq [simp]: "dlq a = dlq b \<longleftrightarrow> a = b"
  by (simp add: dlq_def)

lemma dlq_neq [simp]: "dlq a \<noteq> a" "a \<noteq> dlq a"
  by (simp_all add: dlq_def)

lemma agrees_declare [simp]: "agrees q d (declare_queue q' d' s) =
    (if q = q' \<and> queue_of s q = None then d' = d else agrees q d s)"
  by (auto simp: agrees_def)

lemma agrees_other [simp]:
  "agrees q d (bind_queue q' k ex s) = agrees q d s" "agrees q d (declare_exchange ex s) = agrees q d s"
  "agrees q d (fold (\<lambda>key. bind_queue q' key ex) keys s) = agrees q d s"
  by (simp_all add: agrees_def)

definition placeable :: "string \<times> string list \<Rightarrow> broker \<Rightarrow> bool" where
  "placeable = (\<lambda>(name, bs) s. agrees name (Some (dlxExchange, dlq name)) s \<and> agrees (dlq name) None s \<and>
     EventsExchange \<in> set (bk_exchanges s) \<and> dlxExchange \<in> set (bk_exchanges s))"

lemma placeable_place:
  assumes "x \<in> set queues" "y \<in> set queues" "placeable x s" "placeable y s"
  shows "placeable y (place_queue x s)"
proof -
  obtain a as b bs where x: "x = (a, as)" and y: "y = (b, bs)" by (metis surj_pair)
  have ab: "b \<noteq> dlq a" "a \<noteq> dlq b" using assms(1,2) queue_names unfolding x y by blast+
  show ?thesis
  proof (cases "b = a")
    case True
    with assms(3) show ?thesis by (simp add: x y placeable_def place_queue_def agrees_def)
  next
    case False
    with ab assms(4) show ?thesis by (simp add: x y placeable_def place_queue_def)
  qed
qed

context broker_contract
begin

lemma setup_queue_does: "does B (placeable x) (place_queue x) (setup_queue CH x)"
proof -
  obtain name keys where x: "x = (name, keys)" by force
  have "does B (\<lambda>s. \<forall>k\<in>set keys. bindable name EventsExchange s)
      (fold (\<lambda>key. bind_queue name key EventsExchange) keys)
      (forE (\<lambda>key. ch_QueueBind CH name key EventsExchange) keys)"
    by (rule does_forE [OF rpc_does [OF QueueBind]]) (simp add: bindable_def)
  note does_seq [OF rpc_does [OF QueueDeclare] does_seq [OF this
      does_seq [OF rpc_does [OF QueueDeclare] rpc_does [OF QueueBind]]],
      of name "Some (dlxExchange, dlq name)" "dlq name" None "dlq name" dlxExchange "dlq name"]
  from does_weaken [OF this, of "placeable x"] show ?thesis
    by (simp add: setup_queue_def place_queue_def x placeable_def bindable_def)
qed

lemma setupTopology_does:
  "does B compatible topology (setupTopology CH)"
proof -
  have "does B (\<lambda>s. \<forall>x\<in>set queues. placeable x s) (fold place_queue queues) (forE (setup_queue CH) queues)"
    by (rule does_forE [OF setup_queue_does placeable_place])
  note does_seq [OF rpc_does [OF ExchangeDeclare] does_seq [OF rpc_does [OF ExchangeDeclare] this],
      of dlxExchange EventsExchange]
  from does_weaken [OF this, of compatible] show ?thesis
    by (simp add: setupTopology_def topology_def [abs_def] compatible_def placeable_def case_prod_beta)
qed

end

section \<open>What the topology is good for\<close>

lemma wired_queue_place:
  "placeable x s \<Longrightarrow> wired_queue x (place_queue x s)"
  "wired_queue y s \<Longrightarrow> wired_queue y (place_queue x s)"
  by (auto simp: wired_queue_def placeable_def place_queue_def agrees_def split: prod.splits option.splits)

lemma place_exchanges [simp]: "bk_exchanges (place_queue x s) = bk_exchanges s"
  by (simp add: place_queue_def case_prod_beta)

lemma wired_fold:
  assumes "set xs \<subseteq> set queues" and "\<And>x. x \<in> set xs \<Longrightarrow> placeable x s"
  shows "bk_exchanges (fold place_queue xs s) = bk_exchanges s \<and>
    (\<forall>x. x \<in> set xs \<or> wired_queue x s \<longrightarrow> wired_queue x (fold place_queue xs s))"
  using assms
proof (induction xs arbitrary: s)
  case Nil
  then show ?case by simp
next
  case (Cons x xs)
  have "placeable y (place_queue x s)" if "y \<in> set xs" for y
    by (rule placeable_place) (use that Cons.prems in auto)
  from Cons.IH [OF _ this] Cons.prems wired_queue_place(1) [of x s] wired_queue_place(2) [of _ s x]
  show ?case by auto
qed

theorem wired_topology:
  assumes "compatible s"
  shows "wired (topology s)"
proof -
  let ?s = "declare_exchange dlxExchange (declare_exchange EventsExchange s)"
  from assms have "\<And>x. x \<in> set queues \<Longrightarrow> placeable x ?s"
    by (auto simp: compatible_def placeable_def)
  from wired_fold [OF order_refl this] have "bk_exchanges (topology s) = bk_exchanges ?s"
    and "\<And>x. x \<in> set queues \<Longrightarrow> wired_queue x (topology s)"
    unfolding topology_def by blast+
  then show ?thesis by (simp add: wired_def)
qed

text \<open>Routing, acknowledging and rejecting keep it.\<close>

lemma wired_queue_map:
  assumes "\<And>q Q. qu_dead (f q Q) = qu_dead Q"
  shows "wired_queue x (map_queues f s) = wired_queue x s"
proof -
  have "Option.bind (map_option (f q) A) qu_dead = Option.bind A qu_dead" for q A
    using assms by (cases A) simp_all
  then show ?thesis by (simp add: wired_queue_def case_prod_beta)
qed

lemma wired_map: "(\<And>q Q. qu_dead (f q Q) = qu_dead Q) \<Longrightarrow> wired (map_queues f s) = wired s"
  by (simp add: wired_def wired_queue_map)

lemma wired_steps [simp]:
  "wired (route_to ex m s) = wired s" "wired (drop_tag t s) = wired s"
  "wired (dead_letter q m s) = wired s"
  by (simp_all add: route_to_def drop_tag_def dead_letter_def wired_map split: option.splits)

section \<open>consumer.go\<close>

definition maxRetries :: int where "maxRetries = 3"

type_synonym 'w HandlerFunc = "ctx \<Rightarrow> string \<Rightarrow> string \<Rightarrow> ('w, error, unit) cmd"

record delivery =
  de_Tag :: nat
  de_RoutingKey :: string
  de_Body :: string
  de_Headers :: "table option"

definition headerRetryCount :: "table option \<Rightarrow> int" where
  "headerRetryCount headers =
     (case headers of
        None \<Rightarrow> 0
      | Some t \<Rightarrow> (case t ''x-retry-count'' of
          Some v \<Rightarrow> (case v of HInt32 n \<Rightarrow> sint n | _ \<Rightarrow> 0)
        | None \<Rightarrow> 0))"

definition retry_message :: "delivery \<Rightarrow> int \<Rightarrow> message" where
  "retry_message d retryCount = \<lparr>ms_Key = de_RoutingKey d, ms_Body = de_Body d,
     ms_Headers = Some [''x-retry-count'' \<mapsto> HInt32 (word_of_int (retryCount + 1))]\<rparr>"

text \<open>The body of the loop, for one delivery. (The log lines are left out.)\<close>

definition consume_one ::
  "'w runtime \<Rightarrow> 'w channel \<Rightarrow> string \<Rightarrow> 'w HandlerFunc \<Rightarrow> delivery \<Rightarrow> 'w \<Rightarrow> unit \<times> 'w" where
  "consume_one RT CH consumerName handler d =
     (let retryCount = headerRetryCount (de_Headers d) in
      bindS (handler Background (de_RoutingKey d) (de_Body d)) (\<lambda>r.
      case r of
        Inr _ \<Rightarrow>
          bindS (ch_Ack CH (de_Tag d)) (\<lambda>_.
          doS (rt_Inc RT (EventsConsumedTotal (de_RoutingKey d) consumerName)) (Pair ()))
      | Inl err \<Rightarrow>
          if retryCount \<ge> maxRetries
          then bindS (ch_Nack CH (de_Tag d)) (\<lambda>_. Pair ())
          else
            bindS (ch_Publish CH EventsExchange (retry_message d retryCount)) (\<lambda>_.
            bindS (ch_Ack CH (de_Tag d)) (\<lambda>_. Pair ()))))"

text \<open>
  The goroutine: what its \<open>select\<close> sees, one after the other, is the context's end, the end
  of the deliveries, or a delivery.
\<close>

datatype selected = Done | Closed | Delivered delivery

fun consume_loop ::
  "'w runtime \<Rightarrow> 'w channel \<Rightarrow> string \<Rightarrow> 'w HandlerFunc \<Rightarrow> selected list \<Rightarrow> 'w \<Rightarrow> unit \<times> 'w" where
  "consume_loop RT CH name handler [] = Pair ()"
| "consume_loop RT CH name handler (Done # es) = Pair ()"
| "consume_loop RT CH name handler (Closed # es) = Pair ()"
| "consume_loop RT CH name handler (Delivered d # es) =
     bindS (consume_one RT CH name handler d) (\<lambda>_. consume_loop RT CH name handler es)"

text \<open>
  \<open>Consume\<close> itself: an error of \<open>ch.Consume\<close> comes back, otherwise the goroutine starts. A
  goroutine is a value here, the loop that runs from then on.
\<close>

type_synonym 'w consumer_loop = "selected list \<Rightarrow> 'w \<Rightarrow> unit \<times> 'w"

definition Consume ::
  "'w runtime \<Rightarrow> 'w channel \<Rightarrow> string \<Rightarrow> string \<Rightarrow> 'w HandlerFunc \<Rightarrow> ('w, error, 'w consumer_loop) cmd" where
  "Consume RT CH queueName consumerName handler =
     bindE (ch_Consume CH queueName) (\<lambda>_. okE (consume_loop RT CH consumerName handler))"

lemma headerRetryCount_retry:
  assumes "- (2 ^ 31) \<le> n" and "n < 2 ^ 31 - 1"
  shows "headerRetryCount (ms_Headers (retry_message d n)) = n + 1"
proof -
  have "sint (word_of_int (n + 1) :: 32 word) = n + 1"
    using assms by (simp only: sint_sbintrunc') (simp add: signed_take_bit_int_eq_self)
  then show ?thesis by (simp add: headerRetryCount_def retry_message_def)
qed

lemma headerRetryCount_range: "- (2 ^ 31) \<le> headerRetryCount h \<and> headerRetryCount h < 2 ^ 31"
  using sint_range_size [of "x :: 32 word" for x]
  by (auto simp: headerRetryCount_def word_size split: option.splits header_value.splits)

section \<open>No message is lost\<close>

definition delivery_of :: "nat \<Rightarrow> message \<Rightarrow> delivery" where
  "delivery_of tag m = \<lparr>de_Tag = tag, de_RoutingKey = ms_Key m, de_Body = ms_Body m,
     de_Headers = ms_Headers m\<rparr>"

lemma delivery_of_sel [simp]:
  "de_Tag (delivery_of t m) = t" "de_RoutingKey (delivery_of t m) = ms_Key m"
  "de_Body (delivery_of t m) = ms_Body m" "de_Headers (delivery_of t m) = ms_Headers m"
  by (simp_all add: delivery_of_def)

abbreviation retries :: "message \<Rightarrow> int" where
  "retries m \<equiv> headerRetryCount (ms_Headers m)"

abbreviation retried :: "nat \<Rightarrow> message \<Rightarrow> message" where
  "retried tag m \<equiv> retry_message (delivery_of tag m) (retries m)"

text \<open>What the broker looks like after a message was handled, by the handler's outcome.\<close>

definition after_handling :: "nat \<Rightarrow> message \<Rightarrow> error + unit \<Rightarrow> broker \<Rightarrow> broker" where
  "after_handling tag m r s = (case r of
     Inr _ \<Rightarrow> drop_tag tag s
   | Inl _ \<Rightarrow> if maxRetries \<le> retries m then reject_tag tag s
       else drop_tag tag (route_to EventsExchange (retried tag m) s))"

locale consumer = broker_contract B CH + quiet_runtime B RT
  for B :: "(unit, 'w, broker, 'p) window" and CH and RT :: "'w runtime" +
  fixes handler :: "'w HandlerFunc"
  assumes handler_leaves: "handler c k b w = (r, w') \<Longrightarrow>
    seen B () w' = seen B () w \<and> (up B w \<longrightarrow> up B w')"
begin

lemma consume_one_run:
  assumes run: "consume_one RT CH name handler (delivery_of tag m) w = (u, w')"
    and B: "up B w" "wired (seen B () w)" "find_tag tag (seen B () w) = Some (q, m)"
  shows "up B w' \<and> (\<exists>r w1. handler Background (ms_Key m) (ms_Body m) w = (r, w1) \<and>
    seen B () w' = after_handling tag m r (seen B () w))"
proof -
  obtain r w1 where h: "handler Background (ms_Key m) (ms_Body m) w = (r, w1)" by force
  note H = handler_leaves [OF h]
  have "up B w' \<and> seen B () w' = after_handling tag m r (seen B () w)"
  proof (cases r)
    case (Inr x)
    obtain a w2 where a: "ch_Ack CH tag w1 = (a, w2)" by force
    from sendsD(3) [OF Ack a] H B run h Inr a show ?thesis
      by (auto simp: consume_one_def Let_def bindS_def doS_def after_handling_def Inc_seen Inc_up)
  next
    case (Inl e)
    show ?thesis
    proof (cases "maxRetries \<le> retries m")
      case True
      obtain a w2 where a: "ch_Nack CH tag w1 = (a, w2)" by force
      from sendsD(3) [OF Nack a] H B run h Inl a True show ?thesis
        by (simp add: consume_one_def Let_def bindS_def after_handling_def)
    next
      case False
      obtain p w2 where p: "ch_Publish CH EventsExchange (retried tag m) w1 = (p, w2)" by force
      obtain a w3 where a: "ch_Ack CH tag w2 = (a, w3)" by force
      from B(2) have "EventsExchange \<in> set (bk_exchanges (seen B () w))" by (simp add: wired_def)
      with sendsD(3) [OF Publish p] H B
      have P: "up B w2" "seen B () w2 = route_to EventsExchange (retried tag m) (seen B () w)" by auto
      with sendsD(3) [OF Ack a] B run h Inl p a False show ?thesis
        by (simp add: consume_one_def Let_def bindS_def after_handling_def)
    qed
  qed
  with h show ?thesis by blast
qed

end

text \<open>
  A message whose handling failed is not lost: it waits again in the same queue, with one
  more retry on its count, or in the dead-letter queue, as it came. It is not outstanding
  any more.
\<close>

lemma reject_tag_found:
  assumes "wired s" and "find_tag tag s = Some (q, m)" and "q \<in> fst ` set queues"
  shows "reject_tag tag s = route_to dlxExchange (m\<lparr>ms_Key := dlq q\<rparr>) (drop_tag tag s)"
proof -
  from assms(3) obtain keys where "(q, keys) \<in> set queues" by force
  with assms(1) have "Option.bind (queue_of s q) qu_dead = Some (dlxExchange, dlq q)"
    by (auto simp: wired_def wired_queue_def)
  then have "Option.bind (queue_of (drop_tag tag s) q) qu_dead = Some (dlxExchange, dlq q)"
    by (cases "queue_of s q") (simp_all add: queue_of_drop)
  with assms(2) show ?thesis by (simp add: reject_tag_def dead_letter_def)
qed

lemma failed_kept:
  assumes w: "wired s" and t: "find_tag tag s = Some (q, m)" and q: "q \<in> fst ` set queues"
    and bound: "queue_of s q \<noteq> None" "bound_to s EventsExchange (ms_Key m) q"
  shows "find_tag tag (after_handling tag m (Inl e) s) = None" (is "?gone")
    and "retries m < maxRetries \<Longrightarrow>
      ready (after_handling tag m (Inl e) s) q = ready s q @ [retried tag m] \<and>
      retries (retried tag m) = retries m + 1"
    and "maxRetries \<le> retries m \<Longrightarrow>
      ready (after_handling tag m (Inl e) s) (dlq q) = ready s (dlq q) @ [m\<lparr>ms_Key := dlq q\<rparr>]"
proof -
  note R = reject_tag_found [OF w t q]
  show ?gone by (simp add: after_handling_def R)
  have "retries (retried tag m) = retries m + 1" if "retries m < maxRetries"
    using headerRetryCount_range [of "ms_Headers m"] that
    by (intro headerRetryCount_retry) (simp_all add: maxRetries_def)
  then show "retries m < maxRetries \<Longrightarrow>
      ready (after_handling tag m (Inl e) s) q = ready s q @ [retried tag m] \<and>
      retries (retried tag m) = retries m + 1"
    using bound by (simp add: after_handling_def ready_route retry_message_def)
  from q obtain keys where "(q, keys) \<in> set queues" by force
  with w have d: "queue_of s (dlq q) \<noteq> None" "(dlxExchange, dlq q, dlq q) \<in> set (bk_bindings s)"
    by (auto simp: wired_def wired_queue_def)
  then have "bound_to (drop_tag tag s) dlxExchange (dlq q) (dlq q)"
    by (force simp: bound_to_def list_ex_iff)
  with d show "maxRetries \<le> retries m \<Longrightarrow>
      ready (after_handling tag m (Inl e) s) (dlq q) = ready s (dlq q) @ [m\<lparr>ms_Key := dlq q\<rparr>]"
    by (simp add: after_handling_def R ready_route queue_of_drop)
qed

text \<open>
  But the retry goes to the exchange, not to the queue: every other queue with a matching
  binding gets one more copy, whether or not its own consumer has handled the message.
\<close>

lemma retry_copies:
  assumes "retries m < maxRetries" and "queue_of s q' \<noteq> None" and "bound_to s EventsExchange (ms_Key m) q'"
  shows "ready (after_handling tag m (Inl e) s) q' = ready s q' @ [retried tag m]"
  using assms by (simp add: after_handling_def ready_route retry_message_def)

lemma bound_audit:
  assumes "wired s"
  shows "bound_to s EventsExchange key ''audit.queue'' \<and> queue_of s ''audit.queue'' \<noteq> None"
proof -
  have q: "(''audit.queue'', [''#'']) \<in> set queues" by (simp add: queues_def)
  with assms have "Option.bind (queue_of s ''audit.queue'') qu_dead \<noteq> None"
    and b: "(EventsExchange, ''#'', ''audit.queue'') \<in> set (bk_bindings s)"
    by (auto simp: wired_def wired_queue_def)
  then have "queue_of s ''audit.queue'' \<noteq> None" by (cases "queue_of s ''audit.queue''") auto
  moreover from b have "bound_to s EventsExchange key ''audit.queue''"
    unfolding bound_to_def list_ex_iff by (rule bexI [rotated]) simp
  ultimately show ?thesis by simp
qed

end
