(* ===== verification/Relay.thy ===== *)
theory Relay
  imports OutboxRepo Rabbit
begin

text \<open>
  \<open>internal/outbox/relay.go\<close>: the loop that publishes the pending events of the outbox and
  marks them as sent.
\<close>

section \<open>The relay\<close>

text \<open>\<open>amqp.Publishing{ContentType: \<dots>, Body: row.Payload}\<close>, under the event's type.\<close>

definition event_message :: "OutboxModel \<Rightarrow> message" where
  "event_message row = \<lparr>ms_Key = om_EventType row, ms_Body = om_Payload row, ms_Headers = None\<rparr>"

definition relay_row ::
  "'w gorm \<Rightarrow> 'w runtime \<Rightarrow> 'w channel \<Rightarrow> OutboxModel \<Rightarrow> 'w \<Rightarrow> unit \<times> 'w" where
  "relay_row G RT CH row =
     bindS (ch_Publish CH ''rbac.events'' (event_message row)) (\<lambda>r.
     case r of
       Inl err \<Rightarrow> bindS (MarkFailed G (om_ID row)) (\<lambda>_. Pair ())
     | Inr _ \<Rightarrow>
         bindS (MarkSent G RT (om_ID row)) (\<lambda>r.
         case r of
           Inl err \<Rightarrow> Pair ()
         | Inr _ \<Rightarrow> doS (rt_Inc RT (RabbitMQPublishedTotal (om_EventType row))) (Pair ())))"

fun relay_rows ::
  "'w gorm \<Rightarrow> 'w runtime \<Rightarrow> 'w channel \<Rightarrow> OutboxModel list \<Rightarrow> 'w \<Rightarrow> unit \<times> 'w" where
  "relay_rows G RT CH [] = Pair ()"
| "relay_rows G RT CH (row # rows) = bindS (relay_row G RT CH row) (\<lambda>_. relay_rows G RT CH rows)"

definition relayBatch :: "'w gorm \<Rightarrow> 'w runtime \<Rightarrow> 'w channel \<Rightarrow> 'w \<Rightarrow> unit \<times> 'w" where
  "relayBatch G RT CH =
     bindS (FetchPending G 50) (\<lambda>r.
     case r of
       Inl err \<Rightarrow> Pair ()
     | Inr rows \<Rightarrow> relay_rows G RT CH rows)"

definition recordLag :: "'w gorm \<Rightarrow> 'w runtime \<Rightarrow> 'w \<Rightarrow> unit \<times> 'w" where
  "recordLag G RT =
     bindS (OldestPendingAge G RT) (\<lambda>r.
     case r of
       Inl err \<Rightarrow> Pair ()
     | Inr age \<Rightarrow> doS (rt_SetLag RT age) (Pair ()))"

text \<open>What the \<open>select\<close> of the loop sees, one after the other: a tick, or the context's end.\<close>

datatype relay_event = Tick | CtxDone

fun Run :: "'w gorm \<Rightarrow> 'w runtime \<Rightarrow> 'w channel \<Rightarrow> relay_event list \<Rightarrow> 'w \<Rightarrow> unit \<times> 'w" where
  "Run G RT CH [] = Pair ()"
| "Run G RT CH (CtxDone # es) = Pair ()"
| "Run G RT CH (Tick # es) =
     bindS (relayBatch G RT CH) (\<lambda>_.
     bindS (recordLag G RT) (\<lambda>_.
     Run G RT CH es))"

section \<open>What a batch does\<close>

definition mark :: "64 word set \<Rightarrow> OutboxModel \<Rightarrow> OutboxModel \<Rightarrow> bool" where
  "mark I m m' \<longleftrightarrow> (if om_ID m \<in> I then \<exists>now. m' = m\<lparr>om_Status := ''sent'', om_SentAt := Some now\<rparr> else m' = m)"

text \<open>\<open>relayed I T T'\<close>: the events with an identifier in \<open>I\<close> became sent, and nothing else changed.\<close>

definition relayed :: "64 word set \<Rightarrow> tables \<Rightarrow> tables \<Rightarrow> bool" where
  "relayed I T T' \<longleftrightarrow> T' = T\<lparr>tb_outbox_events := tb_outbox_events T'\<rparr> \<and>
     list_all2 (mark I) (tb_outbox_events T) (tb_outbox_events T')"

lemma relayed_refl [simp]: "relayed {} T T"
  by (simp add: relayed_def mark_def list_all2_same)

lemma mark_seq: "mark I m m1 \<Longrightarrow> mark J m1 m2 \<Longrightarrow> mark (I \<union> J) m m2"
  by (auto simp: mark_def split: if_splits)

lemma relayed_seq:
  assumes "relayed I T T1" and "relayed J T1 T2"
  shows "relayed (I \<union> J) T T2"
proof -
  have "list_all2 (mark (I \<union> J)) (tb_outbox_events T) (tb_outbox_events T2)"
  proof (rule list_all2_trans [of "mark I" "mark J"])
    show "mark I a b \<Longrightarrow> mark J b c \<Longrightarrow> mark (I \<union> J) a c" for a b c by (rule mark_seq)
  qed (use assms in \<open>auto simp: relayed_def\<close>)
  moreover from assms have "T2 = T\<lparr>tb_outbox_events := tb_outbox_events T2\<rparr>"
    by (cases T; cases T1; cases T2) (auto simp: relayed_def)
  ultimately show ?thesis by (simp add: relayed_def)
qed

locale relay = pg_clock V G jsonb fits coll RT + broker_contract B CH + br_quiet: quiet_runtime B RT
  for V :: "(conn, 'w, tables, 'o) window" and G jsonb fits coll and RT :: "'w runtime"
    and B :: "(unit, 'w, broker, 'p) window" and CH +
  assumes apart: "apart V B"
begin

abbreviation tables_at :: "'w \<Rightarrow> tables" where "tables_at w \<equiv> seen V BaseDB w"
abbreviation broker_at :: "'w \<Rightarrow> broker" where "broker_at w \<equiv> seen B () w"

definition running :: "'w \<Rightarrow> bool" where
  "running w \<longleftrightarrow> up V w \<and> up B w \<and> wired (broker_at w)"

lemma apart_sym_rest: "rest B w' = rest B w \<Longrightarrow> seen V c w' = seen V c w \<and> (up V w \<longrightarrow> up V w')"
  using apart unfolding apart_def by blast

text \<open>The two calls that an event takes, while both services are up.\<close>

lemma publish_event:
  assumes p: "ch_Publish CH EventsExchange (event_message row) w = (r, w')" and R: "running w"
  shows "r = Inr () \<and> running w' \<and> tables_at w' = tables_at w \<and>
    broker_at w' = route_to EventsExchange (event_message row) (broker_at w)"
proof -
  have ex: "EventsExchange \<in> set (bk_exchanges (broker_at w))" using R by (simp add: running_def wired_def)
  from sendsD(3) [OF Publish p _ ex] R have P: "r = Inr ()" "up B w'"
      "broker_at w' = route_to EventsExchange (event_message row) (broker_at w)"
    by (auto simp: running_def)
  from apart_sym_rest [OF sendsD(1) [OF Publish p]] P R show ?thesis by (auto simp: running_def)
qed

lemma mark_event:
  assumes m: "MarkSent G RT i w = (r, w')" and R: "running w"
  shows "r = Inr () \<and> running w' \<and> broker_at w' = broker_at w \<and> (\<exists>now. tables_at w' = (tables_at w)\<lparr>
    tb_outbox_events := map (\<lambda>m. if om_ID m = i then m\<lparr>om_Status := ''sent'', om_SentAt := Some now\<rparr> else m)
      (tb_outbox_events (tables_at w))\<rparr>)"
proof -
  note M = writesD [OF MarkSent_writes m]
  note K = apartD(1,2) [OF apart M [THEN conjunct1]] touched_up [OF M [THEN conjunct1]]
  show ?thesis
  proof (cases r)
    case (Inl e)
    with M R show ?thesis by (auto simp: running_def)
  next
    case (Inr x)
    with M K R show ?thesis by (auto simp: running_def)
  qed
qed

lemma count_running: "running w \<Longrightarrow> running (rt_Inc RT k w)"
  by (simp add: running_def Inc_up br_quiet.Inc_seen br_quiet.Inc_up)

lemma relay_row_run:
  assumes run: "relay_row G RT CH row w = (u, w')" and R: "running w"
  shows "running w' \<and> relayed {om_ID row} (tables_at w) (tables_at w') \<and>
    broker_at w' = route_to EventsExchange (event_message row) (broker_at w)"
proof -
  obtain r w1 where p: "ch_Publish CH EventsExchange (event_message row) w = (r, w1)" by force
  note P = publish_event [OF p R]
  obtain r2 w2 where m: "MarkSent G RT (om_ID row) w1 = (r2, w2)" by force
  from P have "running w1" by simp
  note M = mark_event [OF m this]
  from run p P m M have w': "w' = rt_Inc RT (RabbitMQPublishedTotal (om_EventType row)) w2"
    by (simp add: relay_row_def EventsExchange_def bindS_def doS_def)
  from M P have "relayed {om_ID row} (tables_at w) (tables_at w2)"
    by (auto simp: relayed_def mark_def list_all2_map2 intro!: list.rel_refl)
  with w' M P show ?thesis by (simp add: count_running Inc_seen br_quiet.Inc_seen)
qed

lemma relay_rows_run:
  assumes "relay_rows G RT CH rows w = (u, w')" and "running w"
  shows "running w' \<and> relayed (om_ID ` set rows) (tables_at w) (tables_at w') \<and>
    broker_at w' = fold (\<lambda>row. route_to EventsExchange (event_message row)) rows (broker_at w)"
  using assms
proof (induction rows arbitrary: w)
  case Nil
  then show ?case by simp
next
  case (Cons row rows)
  then obtain w1 where r: "relay_row G RT CH row w = ((), w1)" and rs: "relay_rows G RT CH rows w1 = (u, w')"
    by (auto simp: bindS_eq)
  note R = relay_row_run [OF r Cons.prems(2)]
  from Cons.IH [OF rs] R relayed_seq [of "{om_ID row}" "tables_at w" "tables_at w1"] show ?case
    by auto
qed

text \<open>
  While the database and the broker are up, a batch publishes the oldest fifty pending events, in
  the order of their creation, and marks exactly these as sent.
\<close>

lemma relayBatch_run:
  assumes run: "relayBatch G RT CH w = (u, w')" and R: "running w"
  shows "running w' \<and> (\<exists>zs rows. mset zs = mset (pending_rows (tables_at w)) \<and>
    sorted_wrt (\<lambda>a b. om_CreatedAt a \<le> om_CreatedAt b) zs \<and> rows = take 50 zs \<and>
    relayed (om_ID ` set rows) (tables_at w) (tables_at w') \<and>
    broker_at w' = fold (\<lambda>row. route_to EventsExchange (event_message row)) rows (broker_at w))"
proof -
  obtain r w1 where f: "FetchPending G 50 w = (r, w1)" by force
  note F = readsD [OF FetchPending_reads f]
  from F R obtain zs where r: "r = Inr (take 50 zs)" and zs: "mset zs = mset (pending_rows (tables_at w))"
      "sorted_wrt (\<lambda>a b. om_CreatedAt a \<le> om_CreatedAt b) zs"
    by (cases r) (auto simp: running_def)
  have u: "untouched V w w1" using F by simp
  then have same: "tables_at w1 = tables_at w" "broker_at w1 = broker_at w" and R1: "running w1"
    using R apart_untouched [OF apart u] by (auto simp: untouched_seen untouched_up running_def)
  from run f r have "relay_rows G RT CH (take 50 zs) w1 = (u, w')"
    by (simp add: relayBatch_def bindS_def)
  from relay_rows_run [OF this R1] same zs show ?thesis by auto
qed

lemma recordLag_run:
  assumes "recordLag G RT w = (u, w')"
  shows "tables_at w' = tables_at w \<and> broker_at w' = broker_at w \<and> (running w \<longrightarrow> running w')"
proof -
  obtain r w1 where a: "OldestPendingAge G RT w = (r, w1)" by force
  have u: "untouched V w w1" using readsD [OF OldestPendingAge_reads a] by simp
  from assms a have "w' = w1 \<or> (\<exists>d. w' = rt_SetLag RT d w1)"
    by (auto simp: recordLag_def bindS_def doS_def split: sum.splits)
  with apart_untouched [OF apart u] untouched_up [OF u] untouched_seen [OF u] show ?thesis
    by (auto simp: running_def SetLag_seen SetLag_up br_quiet.SetLag_seen br_quiet.SetLag_up)
qed

end

text \<open>How many events are still pending after a batch.\<close>

lemma pending_relayed:
  assumes rel: "relayed I T T'"
  shows "pending_rows T' = filter (\<lambda>m. om_ID m \<notin> I) (pending_rows T)"
proof -
  have "filter pending ys = filter (\<lambda>m. om_ID m \<notin> I) (filter pending xs)"
    if "list_all2 (mark I) xs ys" for xs ys
    using that by (induction rule: list_all2_induct) (auto simp: mark_def)
  with rel show ?thesis by (simp add: pending_rows_def relayed_def)
qed

lemma pending_count:
  assumes rel: "relayed (om_ID ` set (take n zs)) T T'"
    and zs: "mset zs = mset (pending_rows T)" and ids: "distinct (map om_ID (tb_outbox_events T))"
  shows "length (pending_rows T') = length (pending_rows T) - n"
proof -
  let ?keep = "\<lambda>m. om_ID m \<notin> om_ID ` set (take n zs)"
  have "distinct (map om_ID (pending_rows T))"
    unfolding pending_rows_def by (rule distinct_map_filter [OF ids])
  then have d: "distinct (map om_ID zs)" using zs by (metis mset_eq_imp_distinct_iff mset_map)
  have "filter ?keep (take n zs) = []" by (simp add: filter_empty_conv)
  moreover have "filter ?keep (drop n zs) = drop n zs"
  proof (rule filter_True)
    from d have "distinct (map om_ID (take n zs @ drop n zs))" by simp
    then show "\<forall>m\<in>set (drop n zs). ?keep m" unfolding map_append distinct_append by auto
  qed
  ultimately have "filter ?keep zs = drop n zs"
    by (metis append_Nil append_take_drop_id filter_append)
  moreover have "length (filter ?keep (pending_rows T)) = length (filter ?keep zs)"
    using zs by (metis mset_filter size_mset)
  ultimately have "length (filter ?keep (pending_rows T)) = length zs - n" by simp
  also have "length zs = length (pending_rows T)" using zs by (rule mset_eq_length)
  finally show ?thesis by (simp add: pending_relayed [OF rel])
qed

text \<open>
  When there are no more than fifty, a batch empties the outbox, and all of them wait in the audit
  queue.
\<close>

lemma ready_fold_route:
  assumes "queue_of s q \<noteq> None" and "\<And>row. row \<in> set rows \<Longrightarrow> bound_to s ex (ms_Key (f row)) q"
  shows "ready (fold (\<lambda>row. route_to ex (f row)) rows s) q = ready s q @ map f rows"
  using assms
proof (induction rows arbitrary: s)
  case (Cons row rows)
  have "ready (fold (\<lambda>row. route_to ex (f row)) rows (route_to ex (f row) s)) q =
      ready (route_to ex (f row) s) q @ map f rows"
  proof (rule Cons.IH)
    show "queue_of (route_to ex (f row) s) q \<noteq> None" using Cons.prems(1) by (simp add: queue_of_route)
    show "bound_to (route_to ex (f row) s) ex (ms_Key (f r)) q" if "r \<in> set rows" for r
      using Cons.prems(2) [of r] that bound_to_cong [of "route_to ex (f row) s" s] by simp
  qed
  with Cons.prems show ?case by (simp add: ready_route)
qed simp

context relay
begin

lemma relayBatch_reaches_audit:
  assumes "relayBatch G RT CH w = (u, w')" and "running w"
    and "length (pending_rows (tables_at w)) \<le> 50"
  shows "pending_rows (tables_at w') = [] \<and>
    (\<exists>zs. mset zs = mset (pending_rows (tables_at w)) \<and>
       sorted_wrt (\<lambda>a b. om_CreatedAt a \<le> om_CreatedAt b) zs \<and>
       ready (broker_at w') ''audit.queue'' = ready (broker_at w) ''audit.queue'' @ map event_message zs)"
proof -
  from relayBatch_run [OF assms(1,2)]
  obtain zs where zs: "mset zs = mset (pending_rows (tables_at w))"
    "sorted_wrt (\<lambda>a b. om_CreatedAt a \<le> om_CreatedAt b) zs"
    and T: "relayed (om_ID ` set (take 50 zs)) (tables_at w) (tables_at w')"
    and s: "broker_at w' = fold (\<lambda>row. route_to EventsExchange (event_message row)) (take 50 zs) (broker_at w)"
    by blast
  have all: "take 50 zs = zs" using assms(3) mset_eq_length [OF zs(1)] by simp
  have "pending_rows (tables_at w') = []"
    unfolding pending_relayed [OF T] all mset_eq_setD [OF zs(1)] by (simp add: filter_empty_conv)
  moreover have "ready (broker_at w') ''audit.queue'' =
      ready (broker_at w) ''audit.queue'' @ map event_message zs"
    unfolding s all using assms(2) by (intro ready_fold_route) (auto simp: running_def bound_audit)
  ultimately show ?thesis using zs by blast
qed

end

text \<open>So enough ticks empty the outbox: each takes fifty events.\<close>

context relay
begin

lemma Run_drains:
  assumes "Run G RT CH (replicate n Tick) w = (u, w')" and "running w"
  shows "running w' \<and>
    length (pending_rows (tables_at w')) = length (pending_rows (tables_at w)) - 50 * n"
  using assms
proof (induction n arbitrary: w)
  case 0
  then show ?case by simp
next
  case (Suc n)
  then obtain w1 w2 where b: "relayBatch G RT CH w = ((), w1)" and l: "recordLag G RT w1 = ((), w2)"
    and rs: "Run G RT CH (replicate n Tick) w2 = (u, w')"
    by (auto simp: bindS_eq)
  from relayBatch_run [OF b Suc.prems(2)] obtain zs where R1: "running w1"
    and zs: "mset zs = mset (pending_rows (tables_at w))"
      "relayed (om_ID ` set (take 50 zs)) (tables_at w) (tables_at w1)" by blast
  have "distinct (map om_ID (tb_outbox_events (tables_at w)))"
    using up_wf [of w BaseDB] Suc.prems(2) by (simp add: running_def wf_tables_def)
  note P = pending_count [OF zs(2,1) this]
  note L = recordLag_run [OF l]
  with R1 have "running w2" by simp
  from Suc.IH [OF rs this] P L show ?case by simp
qed

end

interpretation ref_relay: relay ref_window ref_gorm Some "\<lambda>_. True" ref_coll ref_runtime
  ref_broker_window ref_channel
  by unfold_locales (rule ref_broker_apart)

end
