(* ===== verification/Consumers.thy ===== *)
theory Consumers
  imports Relay AuditRepo RbacService
begin

text \<open>
  The handlers of the three queues: \<open>internal/audit/consumer.go\<close>,
  \<open>internal/notification/consumer.go\<close> and \<open>internal/analytics/consumer.go\<close>, and how
  \<open>main\<close> starts them.
\<close>

section \<open>The payload\<close>

text \<open>
  \<open>var payload map[string]interface{}; err := json.Unmarshal(body, &payload)\<close>: an object, of
  which the last field of a name counts, or null, which leaves the map nil.
\<close>

definition payload_of :: "lib \<Rightarrow> string \<Rightarrow> json option" where
  "payload_of L body = (case json_Unmarshal L body of
     Some (JObj fs) \<Rightarrow> Some (JObj fs)
   | Some JNull \<Rightarrow> Some JNull
   | _ \<Rightarrow> None)"

definition field :: "json \<Rightarrow> string \<Rightarrow> json option" where
  "field payload k = (case payload of JObj fs \<Rightarrow> map_of (rev fs) k | _ \<Rightarrow> None)"

text \<open>\<open>s, _ := v.(string)\<close>\<close>

definition as_string :: "json \<Rightarrow> string" where
  "as_string v = (case v of JStr s \<Rightarrow> s | _ \<Rightarrow> [])"

section \<open>audit/consumer.go\<close>

definition actorID :: "lib \<Rightarrow> json \<Rightarrow> uuid option" where
  "actorID L payload =
     (case field payload ''assigned_by'' of
        Some v \<Rightarrow> (case v of JStr s \<Rightarrow> uuid_Parse L s | _ \<Rightarrow> None)
      | None \<Rightarrow> (case field payload ''user_id'' of
          Some v \<Rightarrow> (case v of JStr s \<Rightarrow> uuid_Parse L s | _ \<Rightarrow> None)
        | None \<Rightarrow> None))"

definition audit_log :: "lib \<Rightarrow> string \<Rightarrow> json \<Rightarrow> AuditLog" where
  "audit_log L eventType payload = \<lparr>a_ID = 0, a_ActorID = actorID L payload, a_Action = eventType,
     a_ResourceType = (case field payload ''resource_type'' of Some rt \<Rightarrow> as_string rt | None \<Rightarrow> []),
     a_ResourceID = (case field payload ''resource_id'' of Some ri \<Rightarrow> as_string ri | None \<Rightarrow> []),
     a_Metadata = payload, a_CreatedAt = 0\<rparr>"

definition audit_Handle :: "lib \<Rightarrow> 'w AuditRepository \<Rightarrow> 'w HandlerFunc" where
  "audit_Handle L repo c eventType body =
     (case payload_of L body of
        None \<Rightarrow> failE (ErrOther ''json'')
      | Some payload \<Rightarrow>
          bindE (audit_Create repo c (audit_log L eventType payload)) (\<lambda>_. okE ()))"

section \<open>notification/consumer.go, analytics/consumer.go\<close>

text \<open>Both only log what they have decoded.\<close>

definition notification_Handle :: "lib \<Rightarrow> 'w HandlerFunc" where
  "notification_Handle L c eventType body =
     (case payload_of L body of
        None \<Rightarrow> failE (ErrOther ''json'')
      | Some payload \<Rightarrow> okE ())"

definition analytics_Handle :: "lib \<Rightarrow> 'w HandlerFunc" where
  "analytics_Handle L c eventType body =
     (case payload_of L body of
        None \<Rightarrow> failE (ErrOther ''json'')
      | Some payload \<Rightarrow> okE ())"

section \<open>startConsumer\<close>

text \<open>
  \<open>startConsumer\<close> of \<open>main\<close>: an error is logged and otherwise ignored, no loop runs then.
\<close>

definition startConsumer ::
  "'w runtime \<Rightarrow> 'w channel \<Rightarrow> string \<Rightarrow> string \<Rightarrow> 'w HandlerFunc \<Rightarrow>
   'w \<Rightarrow> 'w consumer_loop option \<times> 'w" where
  "startConsumer RT CH queue name handler =
     bindS (Consume RT CH queue name handler) (\<lambda>r.
     case r of Inl err \<Rightarrow> Pair None | Inr loop \<Rightarrow> Pair (Some loop))"

definition audit_consumer ::
  "lib \<Rightarrow> 'w gorm \<Rightarrow> 'w runtime \<Rightarrow> 'w channel \<Rightarrow> 'w \<Rightarrow> 'w consumer_loop option \<times> 'w" where
  "audit_consumer L G RT CH = startConsumer RT CH ''audit.queue'' ''audit-consumer''
     (audit_Handle L (NewAuditRepository G L))"

definition notification_consumer ::
  "lib \<Rightarrow> 'w runtime \<Rightarrow> 'w channel \<Rightarrow> 'w \<Rightarrow> 'w consumer_loop option \<times> 'w" where
  "notification_consumer L RT CH = startConsumer RT CH ''notification.queue'' ''notification-consumer''
     (notification_Handle L)"

definition analytics_consumer ::
  "lib \<Rightarrow> 'w runtime \<Rightarrow> 'w channel \<Rightarrow> 'w \<Rightarrow> 'w consumer_loop option \<times> 'w" where
  "analytics_consumer L RT CH = startConsumer RT CH ''analytics.queue'' ''analytics-consumer''
     (analytics_Handle L)"

section \<open>What the audit log records\<close>

lemma payload_of_obj: "payload_of L body = Some (JObj fs) \<longleftrightarrow> json_Unmarshal L body = Some (JObj fs)"
  by (auto simp: payload_of_def split: option.splits json.splits)

text \<open>
  The actor of an assignment is who assigned. The events of a revocation and of a grant carry
  no \<open>assigned_by\<close>: the first is recorded as if the user had acted who lost the role, the
  second without an actor.
\<close>

lemma actorID_assigned:
  "uuid_Parse L (uuid_String L a) = Some a \<Longrightarrow> actorID L (role_assigned L u r a) = Some a"
  by (simp add: actorID_def role_assigned_def field_def)

lemma actorID_revoked:
  "uuid_Parse L (uuid_String L u) = Some u \<Longrightarrow> actorID L (role_revoked L u r) = Some u"
  by (simp add: actorID_def role_revoked_def field_def)

lemma actorID_attached: "actorID L (permission_attached L r p) = None"
  by (simp add: actorID_def permission_attached_def field_def)

text \<open>One event that decodes is one row; one that does not, or a failure, leaves the log as it was.\<close>

definition logged :: "lib \<Rightarrow> string \<Rightarrow> json \<Rightarrow> tables \<Rightarrow> tables \<Rightarrow> bool" where
  "logged L eventType payload T T' \<longleftrightarrow>
     (\<exists>m. T' = T\<lparr>tb_audit_logs := tb_audit_logs T @ [m]\<rparr> \<and> am_Action m = eventType \<and>
        am_ActorID m = actorID L payload \<and> am_ID m \<notin> am_ID ` set (tb_audit_logs T) \<and>
        (\<forall>a. actorID L payload = Some a \<longrightarrow> a \<in> set (user_ids T)))"

context gorm_contract
begin

lemma audit_Handle_run:
  assumes run: "audit_Handle L (NewAuditRepository G L) c eventType body w = (r, w')"
  shows "touched V BaseDB w w' \<and> (case r of
      Inr _ \<Rightarrow> (\<exists>payload. payload_of L body = Some payload \<and>
        logged L eventType payload (seen V BaseDB w) (seen V BaseDB w'))
    | Inl e \<Rightarrow> seen V BaseDB w' = seen V BaseDB w)"
proof (cases "payload_of L body")
  case None
  with run show ?thesis by (auto simp: audit_Handle_def failE_def)
next
  case (Some payload)
  let ?log = "audit_log L eventType payload"
  obtain r1 w1 where c: "audit_Create_pg G L c ?log w = (r1, w1)" by force
  note C = writesD [OF audit_Create_writes c]
  from run Some c have w': "w' = w1" "r = (case r1 of Inl e \<Rightarrow> Inl e | Inr _ \<Rightarrow> Inr ())"
    by (auto simp: audit_Handle_def bindE_def okE_def split: sum.splits)
  show ?thesis
  proof (cases r1)
    case (Inl e)
    with C w' show ?thesis by simp
  next
    case (Inr log')
    with C obtain m s b where m: "tb_audit_logs (seen V BaseDB w1) = tb_audit_logs (seen V BaseDB w) @ [m]"
        "seen V BaseDB w1 = (seen V BaseDB w)\<lparr>tb_audit_logs := tb_audit_logs (seen V BaseDB w1)\<rparr>"
      and log': "log' = ?log\<lparr>a_ID := am_ID m, a_CreatedAt := am_CreatedAt m\<rparr>"
        "fromAuditModel L m = log'\<lparr>a_Metadata := audit_meta L b\<rparr>"
      and i: "am_ID m \<notin> am_ID ` set (tb_audit_logs (seen V BaseDB w))"
        "\<forall>a. a_ActorID ?log = Some a \<longrightarrow> a \<in> set (user_ids (seen V BaseDB w))" by auto
    from log' have "am_Action m = eventType" "am_ActorID m = actorID L payload"
      by (auto simp: fromAuditModel_def audit_log_def)
    with m i have "logged L eventType payload (seen V BaseDB w) (seen V BaseDB w1)"
      unfolding logged_def by (intro exI [of _ m]) (auto simp: audit_log_def)
    with C Inr w' Some show ?thesis by simp
  qed
qed

end

section \<open>They are handlers as the consumer loop needs them\<close>

sublocale relay \<subseteq> audit: consumer B CH RT "audit_Handle L (NewAuditRepository G L)" for L
proof unfold_locales
  fix c k b w r w' assume "audit_Handle L (NewAuditRepository G L) c k b w = (r, w')"
  from audit_Handle_run [OF this] have "touched V BaseDB w w'" by simp
  from apartD(1,2) [OF apart this] show "seen B () w' = seen B () w \<and> (up B w \<longrightarrow> up B w')" by simp
qed

sublocale relay \<subseteq> notification: consumer B CH RT "notification_Handle L" for L
  by unfold_locales (auto simp: notification_Handle_def cmd_simps failE_def okE_def split: option.splits)

sublocale relay \<subseteq> analytics: consumer B CH RT "analytics_Handle L" for L
  by unfold_locales (auto simp: analytics_Handle_def cmd_simps failE_def okE_def split: option.splits)

end
