(* ===== verification/Threads.thy ===== *)
theory Threads
  imports Prelude
begin

text \<open>
  Goroutines that share the world: an operation as a sequence of steps, each of which makes at most
  one call to the outside, and any number of operations in flight whose steps a schedule
  interleaves. The rule for invariants is the one of Owicki and Gries: what is claimed of
  an operation at each of its points is kept by its own steps and by those of the others.
\<close>

section \<open>Interleavings\<close>

text \<open>
  A step takes a point of an operation and the world, and leaves the next point and the world
  after it. An operation that has ended stays where it is. The configuration is the point of
  each operation and the worlds so far, the present one first; a schedule names the operation
  that makes the next step.
\<close>

definition advance :: "('p \<Rightarrow> 'w \<Rightarrow> 'p \<times> 'w) \<Rightarrow> nat \<Rightarrow> 'p list \<times> 'w list \<Rightarrow> 'p list \<times> 'w list" where
  "advance step i = (\<lambda>(ps, H).
     if i < length ps then (case step (ps ! i) (hd H) of (p, w) \<Rightarrow> (ps[i := p], w # H)) else (ps, H))"

fun interleave ::
  "('p \<Rightarrow> 'w \<Rightarrow> 'p \<times> 'w) \<Rightarrow> nat list \<Rightarrow> 'p list \<times> 'w list \<Rightarrow> 'p list \<times> 'w list" where
  "interleave step [] c = c"
| "interleave step (i # is) c = interleave step is (advance step i c)"

text \<open>One operation on its own, for \<open>n\<close> steps.\<close>

fun drive :: "('p \<Rightarrow> 'w \<Rightarrow> 'p \<times> 'w) \<Rightarrow> nat \<Rightarrow> 'p \<Rightarrow> 'w \<Rightarrow> 'p \<times> 'w" where
  "drive step 0 p = Pair p"
| "drive step (Suc n) p = bindS (step p) (drive step n)"

lemma drive_two: "drive step (Suc (Suc n)) p w = bindS (step p) (\<lambda>p. bindS (step p) (drive step n)) w"
  by (simp add: bindS_def)

lemma drive_stop: "(\<And>w. step p w = (p, w)) \<Longrightarrow> drive step n p = Pair p"
  by (induction n) (auto simp: bindS_def)

lemma interleave_alone:
  assumes "i < length ps" and "H \<noteq> []"
  shows "\<exists>H'. interleave step (replicate n i) (ps, H) = (ps[i := fst (drive step n (ps ! i) (hd H))], H') \<and>
    H' \<noteq> [] \<and> hd H' = snd (drive step n (ps ! i) (hd H))"
  using assms
proof (induction n arbitrary: ps H)
  case 0
  then show ?case by simp
next
  case (Suc n)
  obtain p w where s: "step (ps ! i) (hd H) = (p, w)" by force
  from Suc.prems have "i < length (ps[i := p])" "w # H \<noteq> []" by simp_all
  from Suc.IH [OF this] show ?case using Suc.prems s
    by (simp add: advance_def bindS_def)
qed

section \<open>Invariants of interleavings\<close>

text \<open>
  \<open>inv H\<close> speaks of the worlds so far, \<open>at q p H\<close> of an operation that was begun at \<open>q\<close> and has
  reached \<open>p\<close>, \<open>apart_at p p1\<close> of two operations that exclude each other. A step keeps all three,
  and what the others claim.
\<close>

locale threads =
  fixes step :: "'p \<Rightarrow> 'w \<Rightarrow> 'p \<times> 'w" and inv :: "'w list \<Rightarrow> bool"
    and at :: "'q \<Rightarrow> 'p \<Rightarrow> 'w list \<Rightarrow> bool" and apart_at :: "'p \<Rightarrow> 'p \<Rightarrow> bool"
  assumes own: "H \<noteq> [] \<Longrightarrow> inv H \<Longrightarrow> at q p H \<Longrightarrow> step p (hd H) = (p', w') \<Longrightarrow>
      inv (w' # H) \<and> at q p' (w' # H)"
    and others: "H \<noteq> [] \<Longrightarrow> inv H \<Longrightarrow> at q p H \<Longrightarrow> at q1 p1 H \<Longrightarrow> apart_at p p1 \<Longrightarrow>
      step p1 (hd H) = (p', w') \<Longrightarrow> at q p (w' # H)"
    and apart_sym: "apart_at p p1 \<Longrightarrow> apart_at p1 p"
    and apart_step: "H \<noteq> [] \<Longrightarrow> inv H \<Longrightarrow> at q p H \<Longrightarrow> at q1 p1 H \<Longrightarrow> apart_at p p1 \<Longrightarrow>
      step p (hd H) = (p', w') \<Longrightarrow> apart_at p' p1"
begin

definition all_apart :: "'p list \<Rightarrow> bool" where
  "all_apart ps \<longleftrightarrow> (\<forall>j<length ps. \<forall>k<length ps. j \<noteq> k \<longrightarrow> apart_at (ps ! j) (ps ! k))"

definition in_order :: "'q list \<Rightarrow> 'p list \<Rightarrow> 'w list \<Rightarrow> bool" where
  "in_order qs ps H \<longleftrightarrow> H \<noteq> [] \<and> inv H \<and> list_all2 (\<lambda>q p. at q p H) qs ps \<and> all_apart ps"

lemma advance_keeps:
  assumes adv: "advance step i (ps, H) = (ps', H')" and order: "in_order qs ps H"
  shows "in_order qs ps' H' \<and> last H' = last H"
proof (cases "i < length ps")
  case False
  with assms show ?thesis by (auto simp: advance_def)
next
  case True
  from order have H: "H \<noteq> []" "inv H" and ats: "list_all2 (\<lambda>q p. at q p H) qs ps" and apart: "all_apart ps"
    by (simp_all add: in_order_def)
  obtain p w' where s: "step (ps ! i) (hd H) = (p, w')" by force
  with adv True have c: "ps' = ps[i := p]" "H' = w' # H" by (simp_all add: advance_def)
  from ats have len: "length qs = length ps" and at: "\<And>j. j < length ps \<Longrightarrow> at (qs ! j) (ps ! j) H"
    by (simp_all add: list_all2_conv_all_nth)
  have rival: "apart_at (ps ! i) (ps ! j)" "apart_at (ps ! j) (ps ! i)" if "j < length ps" "j \<noteq> i" for j
    using apart that True by (auto simp: all_apart_def)
  note keep = own [OF H at [OF True] s]
  have "at (qs ! j) (ps' ! j) H'" if "j < length ps" for j
    using keep others [OF H at [OF that] at [OF True] rival(2) [OF that] s] that unfolding c
    by (cases "j = i") auto
  moreover have new: "apart_at p (ps ! j)" if "j < length ps" "j \<noteq> i" for j
    by (rule apart_step [OF H at [OF True] at [OF that(1)] rival(1) [OF that] s])
  have "all_apart ps'" unfolding all_apart_def c
  proof (intro allI impI)
    fix j k assume "j < length (ps[i := p])" "k < length (ps[i := p])" "j \<noteq> k"
    with apart new apart_sym [OF new] show "apart_at (ps[i := p] ! j) (ps[i := p] ! k)"
      by (cases "j = i"; cases "k = i") (simp_all add: all_apart_def)
  qed
  ultimately show ?thesis using keep H len
    by (simp add: in_order_def list_all2_conv_all_nth c)
qed

lemma interleave_keeps:
  assumes "interleave step is (ps, H) = (ps', H')" and "in_order qs ps H"
  shows "in_order qs ps' H' \<and> last H' = last H"
  using assms
proof (induction "is" arbitrary: ps H)
  case Nil
  then show ?case by simp
next
  case (Cons i "is")
  obtain ps1 H1 where a: "advance step i (ps, H) = (ps1, H1)" by force
  from advance_keeps [OF a Cons.prems(2)] Cons.IH [of ps1 H1] Cons.prems(1) a show ?case by simp
qed

text \<open>From a world \<open>w\<close> and operations that are all about to begin.\<close>

lemma run_in_order:
  assumes run: "interleave step is (ps, [w]) = (ps', H)" and "inv [w]" and "all_apart ps"
    and len: "length qs = length ps" and at: "\<And>j. j < length ps \<Longrightarrow> at (qs ! j) (ps ! j) [w]"
  shows "H \<noteq> []" and "last H = w" and "inv H" and "length ps' = length ps"
    and "j < length ps \<Longrightarrow> at (qs ! j) (ps' ! j) H"
    and "j < length ps \<Longrightarrow> k < length ps \<Longrightarrow> j \<noteq> k \<Longrightarrow> apart_at (ps' ! j) (ps' ! k)"
proof -
  have "in_order qs ps [w]"
    using assms(2-5) by (simp add: in_order_def list_all2_conv_all_nth)
  note O = interleave_keeps [OF run this]
  from O show "H \<noteq> []" "last H = w" "inv H" by (simp_all add: in_order_def)
  from O len have n: "length ps' = length ps" by (auto simp: in_order_def dest: list_all2_lengthD)
  then show "length ps' = length ps" .
  from O n len show "j < length ps \<Longrightarrow> at (qs ! j) (ps' ! j) H"
    by (simp add: in_order_def list_all2_conv_all_nth)
  from O n show "j < length ps \<Longrightarrow> k < length ps \<Longrightarrow> j \<noteq> k \<Longrightarrow> apart_at (ps' ! j) (ps' ! k)"
    by (simp add: in_order_def all_apart_def)
qed

end

text \<open>Operations that need not exclude each other.\<close>

locale free_threads =
  fixes step :: "'p \<Rightarrow> 'w \<Rightarrow> 'p \<times> 'w" and inv :: "'w list \<Rightarrow> bool" and at :: "'q \<Rightarrow> 'p \<Rightarrow> 'w list \<Rightarrow> bool"
  assumes free_own: "H \<noteq> [] \<Longrightarrow> inv H \<Longrightarrow> at q p H \<Longrightarrow> step p (hd H) = (p', w') \<Longrightarrow>
      inv (w' # H) \<and> at q p' (w' # H)"
    and free_others: "H \<noteq> [] \<Longrightarrow> inv H \<Longrightarrow> at q p H \<Longrightarrow> at q1 p1 H \<Longrightarrow> step p1 (hd H) = (p', w') \<Longrightarrow>
      at q p (w' # H)"

sublocale free_threads \<subseteq> threads step inv at "\<lambda>_ _. True"
  by unfold_locales (rule free_own free_others TrueI; assumption?)+

context free_threads
begin

lemma free_apart [simp]: "all_apart ps"
  by (simp add: all_apart_def)

end

end
