(* ===== verification/Workers.thy ===== *)
theory Workers
  imports Consumers Threads
begin

text \<open>
  \<open>internal/platform/rabbitmq/consumer.go\<close> with several consumers: the three of each replica, on
  the queues of one broker. The handling of a delivery is a sequence of steps, the handler and the
  calls of the channel, so that it may be interrupted between any two of them.
\<close>

section \<open>The handling of a delivery step by step\<close>

datatype handling =
  Taken string delivery
| Handled string delivery
| Exhausted delivery
| Retrying delivery
| Republished delivery
| Settled delivery

fun handling_step ::
  "'w runtime \<Rightarrow> 'w channel \<Rightarrow> (string \<Rightarrow> 'w HandlerFunc) \<Rightarrow> handling \<Rightarrow> 'w \<Rightarrow> handling \<times> 'w" where
  "handling_step RT CH handlers (Taken name d) =
     bindS (handlers name Background (de_RoutingKey d) (de_Body d)) (\<lambda>r.
     Pair (case r of
       Inr _ \<Rightarrow> Handled name d
     | Inl err \<Rightarrow> if headerRetryCount (de_Headers d) \<ge> maxRetries then Exhausted d else Retrying d))"
| "handling_step RT CH handlers (Handled name d) =
     bindS (ch_Ack CH (de_Tag d)) (\<lambda>_.
     doS (rt_Inc RT (EventsConsumedTotal (de_RoutingKey d) name)) (Pair (Settled d)))"
| "handling_step RT CH handlers (Exhausted d) =
     bindS (ch_Nack CH (de_Tag d)) (\<lambda>_. Pair (Settled d))"
| "handling_step RT CH handlers (Retrying d) =
     bindS (ch_Publish CH EventsExchange (retry_message d (headerRetryCount (de_Headers d))))
       (\<lambda>_. Pair (Republished d))"
| "handling_step RT CH handlers (Republished d) =
     bindS (ch_Ack CH (de_Tag d)) (\<lambda>_. Pair (Settled d))"
| "handling_step RT CH handlers (Settled d) = Pair (Settled d)"

text \<open>The steps of one consumer on its own are the body of its loop.\<close>

lemma drive_consume_one:
  "drive (handling_step RT CH handlers) (Suc (Suc (Suc n))) (Taken name d) w =
     (Settled d, snd (consume_one RT CH name (handlers name) d w))"
proof -
  have "drive (handling_step RT CH handlers) n (Settled d) = Pair (Settled d)" for n
    by (rule drive_stop) simp
  then show ?thesis
    by (simp add: consume_one_def bindS_def doS_def Let_def case_prod_beta split: sum.split)
qed

section \<open>What a call of the channel does to the other deliveries\<close>

text \<open>
  \<open>spares t s s'\<close>: the queues and bindings are the same, no waiting message is lost, and no
  delivery but that of the tag \<open>t\<close> is settled.
\<close>

definition spares :: "nat \<Rightarrow> broker \<Rightarrow> broker \<Rightarrow> bool" where
  "spares t s s' \<longleftrightarrow> wired s' = wired s \<and> bk_bindings s' = bk_bindings s \<and>
     (\<forall>q. queue_of s' q = None \<longleftrightarrow> queue_of s q = None) \<and> (\<forall>q. set (ready s q) \<subseteq> set (ready s' q)) \<and>
     (\<forall>t'. t' \<noteq> t \<longrightarrow> find_tag t' s' = find_tag t' s)"

lemma spares_refl [simp]: "spares t s s"
  by (simp add: spares_def)

lemma spares_trans: "spares t s s1 \<Longrightarrow> spares t s1 s2 \<Longrightarrow> spares t s s2"
  unfolding spares_def by (metis subset_trans)

lemma spares_route: "spares t s (route_to ex m s)"
  by (auto simp: spares_def queue_of_route ready_route)

lemma find_tag_drop_other:
  assumes "t' \<noteq> t"
  shows "find_tag t' (drop_tag t s) = find_tag t' s"
proof -
  have one: "map_of (map (\<lambda>(t, m). (t, (q, m))) (filter (\<lambda>(t', m). t' \<noteq> t) us)) t' =
      map_of (map (\<lambda>(t, m). (t, (q, m))) us) t'" for q :: string and us :: "(nat \<times> message) list"
    using assms by (induction us) auto
  have "map_of (concat (map (\<lambda>(q, Q). map (\<lambda>(t, m). (t, (q, m))) (qu_unacked Q))
      (map (\<lambda>(q, Q). (q, Q\<lparr>qu_unacked := filter (\<lambda>(t', m). t' \<noteq> t) (qu_unacked Q)\<rparr>)) qs))) t' =
    map_of (concat (map (\<lambda>(q, Q). map (\<lambda>(t, m). (t, (q, m))) (qu_unacked Q)) qs)) t'" for qs :: "(string \<times> queue) list"
    by (induction qs) (auto simp: one map_add_def split: option.split)
  then show ?thesis by (simp add: find_tag_def drop_tag_def map_queues_def)
qed

lemma spares_drop: "spares t s (drop_tag t s)"
  by (simp add: spares_def queue_of_drop find_tag_drop_other)

lemma spares_reject: "spares t s (reject_tag t s)"
  by (auto simp: reject_tag_def dead_letter_def split: option.splits
      intro: spares_drop spares_trans [OF spares_drop spares_route])

section \<open>What holds of consumers that run at the same time\<close>

definition message_of :: "delivery \<Rightarrow> message" where
  "message_of d = \<lparr>ms_Key = de_RoutingKey d, ms_Body = de_Body d, ms_Headers = de_Headers d\<rparr>"

abbreviation retries_of :: "delivery \<Rightarrow> int" where
  "retries_of d \<equiv> headerRetryCount (de_Headers d)"

text \<open>
  \<open>outstanding d q s\<close>: the delivery has been made from the queue \<open>q\<close> and is not settled, so that
  the broker will make it again if the consumer dies. \<open>put_back d q s\<close>: its message waits again,
  with one more retry on its count, or is among the dead letters.
\<close>

definition outstanding :: "delivery \<Rightarrow> string \<Rightarrow> broker \<Rightarrow> bool" where
  "outstanding d q s \<longleftrightarrow> find_tag (de_Tag d) s = Some (q, message_of d) \<and> q \<in> fst ` set queues \<and>
     queue_of s q \<noteq> None \<and> bound_to s EventsExchange (de_RoutingKey d) q"

definition put_back :: "delivery \<Rightarrow> string \<Rightarrow> broker \<Rightarrow> bool" where
  "put_back d q s \<longleftrightarrow> (if maxRetries \<le> retries_of d
     then (message_of d)\<lparr>ms_Key := dlq q\<rparr> \<in> set (ready s (dlq q))
     else retry_message d (retries_of d) \<in> set (ready s q))"

lemma outstanding_spares:
  "outstanding d q s \<Longrightarrow> spares t s s' \<Longrightarrow> de_Tag d \<noteq> t \<Longrightarrow> outstanding d q s'"
  by (simp add: outstanding_def spares_def bound_to_def)

lemma outstanding_route: "outstanding d q s \<Longrightarrow> outstanding d q (route_to ex m s)"
  by (simp add: outstanding_def queue_of_route bound_to_def)

lemma put_back_spares: "put_back d q s \<Longrightarrow> spares t s s' \<Longrightarrow> put_back d q s'"
  unfolding put_back_def spares_def by (auto split: if_splits)

text \<open>\<open>handled\<close>: the handler has been called for the delivery, on the way, and has reported success.\<close>

definition handled :: "(string \<Rightarrow> 'w HandlerFunc) \<Rightarrow> string \<Rightarrow> delivery \<Rightarrow> 'w list \<Rightarrow> bool" where
  "handled handlers name d H \<longleftrightarrow>
     (\<exists>v\<in>set H. \<exists>v'\<in>set H. handlers name Background (de_RoutingKey d) (de_Body d) v = (Inr (), v'))"

lemma handled_Cons: "handled handlers name d H \<Longrightarrow> handled handlers name d (w # H)"
  by (auto simp: handled_def)

fun handling_at ::
  "(string \<Rightarrow> 'w HandlerFunc) \<Rightarrow> ('w \<Rightarrow> broker) \<Rightarrow> handling \<Rightarrow> handling \<Rightarrow> 'w list \<Rightarrow> bool" where
  "handling_at hs bk q0 (Taken name d) H \<longleftrightarrow> q0 = Taken name d \<and>
     (\<exists>q. outstanding d q (bk (last H)) \<and> outstanding d q (bk (hd H)))"
| "handling_at hs bk q0 (Handled name d) H \<longleftrightarrow> q0 = Taken name d \<and> handled hs name d H \<and>
     (\<exists>q. outstanding d q (bk (last H)) \<and> outstanding d q (bk (hd H)))"
| "handling_at hs bk q0 (Exhausted d) H \<longleftrightarrow> (\<exists>name. q0 = Taken name d) \<and> maxRetries \<le> retries_of d \<and>
     (\<exists>q. outstanding d q (bk (last H)) \<and> outstanding d q (bk (hd H)))"
| "handling_at hs bk q0 (Retrying d) H \<longleftrightarrow> (\<exists>name. q0 = Taken name d) \<and> retries_of d < maxRetries \<and>
     (\<exists>q. outstanding d q (bk (last H)) \<and> outstanding d q (bk (hd H)))"
| "handling_at hs bk q0 (Republished d) H \<longleftrightarrow> (\<exists>name. q0 = Taken name d) \<and>
     (\<exists>q. outstanding d q (bk (last H)) \<and> outstanding d q (bk (hd H)) \<and> put_back d q (bk (hd H)))"
| "handling_at hs bk q0 (Settled d) H \<longleftrightarrow> (\<exists>name. q0 = Taken name d \<and> find_tag (de_Tag d) (bk (hd H)) = None \<and>
     (handled hs name d H \<or> (\<exists>q. outstanding d q (bk (last H)) \<and> put_back d q (bk (hd H)))))"

fun tag_at :: "handling \<Rightarrow> nat" where
  "tag_at (Taken name d) = de_Tag d"
| "tag_at (Handled name d) = de_Tag d"
| "tag_at (Exhausted d) = de_Tag d"
| "tag_at (Retrying d) = de_Tag d"
| "tag_at (Republished d) = de_Tag d"
| "tag_at (Settled d) = de_Tag d"

lemma handling_at_spares:
  assumes at: "handling_at hs bk q0 p H" and H: "H \<noteq> []" and sp: "spares t (bk (hd H)) (bk w')"
    and t: "tag_at p \<noteq> t"
  shows "handling_at hs bk q0 p (w' # H)"
proof -
  note o = outstanding_spares [OF _ sp] and b = put_back_spares [OF _ sp] and h = handled_Cons [of hs _ _ H w']
  have tag: "find_tag (tag_at p) (bk w') = find_tag (tag_at p) (bk (hd H))"
    using sp t by (simp add: spares_def)
  show ?thesis
  proof (cases p)
    case (Settled d)
    with at H tag show ?thesis by simp (metis b h)
  next
    case (Republished d)
    with at H t show ?thesis by simp (metis b o)
  next
    case (Handled name d)
    with at H t show ?thesis by simp (metis h o)
  qed (use at H t in \<open>simp; metis o\<close>)+
qed

lemma tag_step: "handling_step RT CH hs p w = (p', w') \<Longrightarrow> tag_at p' = tag_at p"
  by (cases p) (auto simp: bindS_def doS_def split: prod.splits sum.splits if_splits)

locale workers = broker_contract B CH + quiet_runtime B RT
  for B :: "(unit, 'w, broker, 'p) window" and CH and RT :: "'w runtime" +
  fixes handlers :: "string \<Rightarrow> 'w HandlerFunc"
  assumes handlers_leave: "handlers name c k b w = (r, w') \<Longrightarrow>
    seen B () w' = seen B () w \<and> (up B w \<longrightarrow> up B w')"
begin

abbreviation bk :: "'w \<Rightarrow> broker" where "bk w \<equiv> seen B () w"

abbreviation hat :: "handling \<Rightarrow> handling \<Rightarrow> 'w list \<Rightarrow> bool" where
  "hat \<equiv> handling_at handlers bk"

definition handling_inv :: "'w list \<Rightarrow> bool" where
  "handling_inv H \<longleftrightarrow> up B (hd H) \<and> wired (bk (hd H))"

definition settles :: "nat \<Rightarrow> handling \<Rightarrow> 'w list \<Rightarrow> 'w \<Rightarrow> handling \<Rightarrow> bool" where
  "settles t q0 H w' p \<longleftrightarrow> up B w' \<and> spares t (bk (hd H)) (bk w') \<and> hat q0 p (w' # H)"

lemma taken_settles:
  assumes step: "handling_step RT CH handlers (Taken name d) (hd H) = (p', w')" and H: "H \<noteq> []"
    and inv: "handling_inv H" and at: "hat q0 (Taken name d) H"
  shows "settles (de_Tag d) q0 H w' p'"
proof -
  obtain r where h: "handlers name Background (de_RoutingKey d) (de_Body d) (hd H) = (r, w')"
    and p': "p' = (case r of Inr _ \<Rightarrow> Handled name d
      | Inl err \<Rightarrow> if headerRetryCount (de_Headers d) \<ge> maxRetries then Exhausted d else Retrying d)"
    using step by (auto simp: bindS_eq)
  note L = handlers_leave [OF h]
  have "handled handlers name d (w' # H)" if "r = Inr ()"
    using h H that unfolding handled_def by (intro bexI [of _ "hd H"] bexI [of _ w']) auto
  with L at inv H show ?thesis
    by (cases r) (auto simp: settles_def handling_inv_def p')
qed

text \<open>Acknowledging, for an event that was handled or published again, and rejecting end it.\<close>

lemma ack_settles:
  assumes a: "ch_Ack CH (de_Tag d) (hd H) = (r, w1)" and inv: "handling_inv H" and H: "H \<noteq> []"
    and q: "outstanding d q (bk (last H))" "outstanding d q (bk (hd H))"
    and w': "bk w' = bk w1" "up B w1 \<longrightarrow> up B w'"
    and fin: "q0 = Taken name d" "handled handlers name d H \<or> put_back d q (bk (hd H))"
  shows "settles (de_Tag d) q0 H w' (Settled d)"
proof -
  from sendsD(3) [OF Ack a] inv q have A: "up B w1" "bk w1 = drop_tag (de_Tag d) (bk (hd H))"
    by (auto simp: handling_inv_def outstanding_def)
  have sp: "spares (de_Tag d) (bk (hd H)) (bk w')" unfolding w'(1) A(2) by (rule spares_drop)
  have "hat q0 (Settled d) (w' # H)"
    using fin handled_Cons [of handlers name d H w'] put_back_spares [OF _ sp] q(1) H A(2) w'(1) by auto
  with A sp w'(2) show ?thesis by (simp add: settles_def)
qed

lemma nack_settles:
  assumes n: "ch_Nack CH (de_Tag d) (hd H) = (r, w')" and inv: "handling_inv H" and H: "H \<noteq> []"
    and q: "outstanding d q (bk (last H))" "outstanding d q (bk (hd H))"
    and max: "maxRetries \<le> retries_of d" and q0: "q0 = Taken name d"
  shows "settles (de_Tag d) q0 H w' (Settled d)"
proof -
  from sendsD(3) [OF Nack n] inv q have A: "up B w'" "bk w' = reject_tag (de_Tag d) (bk (hd H))"
    by (auto simp: handling_inv_def outstanding_def)
  have sp: "spares (de_Tag d) (bk (hd H)) (bk w')" unfolding A(2) by (rule spares_reject)
  from q(2) have o: "find_tag (de_Tag d) (bk (hd H)) = Some (q, message_of d)" "q \<in> fst ` set queues"
    "queue_of (bk (hd H)) q \<noteq> None" "bound_to (bk (hd H)) EventsExchange (ms_Key (message_of d)) q"
    by (simp_all add: outstanding_def message_of_def)
  have W: "wired (bk (hd H))" using inv by (simp add: handling_inv_def)
  have m: "maxRetries \<le> retries (message_of d)" using max by (simp add: message_of_def)
  have r: "reject_tag (de_Tag d) (bk (hd H)) =
      after_handling (de_Tag d) (message_of d) (Inl undefined) (bk (hd H))"
    using m by (simp add: after_handling_def)
  note F = failed_kept [OF W o, of undefined, folded r]
  from F(3) [OF m] max have "put_back d q (bk w')" by (simp add: put_back_def A(2))
  moreover from F(1) have "find_tag (de_Tag d) (bk w') = None" by (simp add: A(2))
  ultimately have "hat q0 (Settled d) (w' # H)" using q0 q(1) H by auto
  with A(1) sp show ?thesis by (simp add: settles_def)
qed

lemma retry_settles:
  assumes p: "ch_Publish CH EventsExchange (retry_message d (retries_of d)) (hd H) = (r, w')"
    and inv: "handling_inv H" and H: "H \<noteq> []"
    and q: "outstanding d q (bk (last H))" "outstanding d q (bk (hd H))"
    and max: "retries_of d < maxRetries" and q0: "q0 = Taken name d"
  shows "settles (de_Tag d) q0 H w' (Republished d)"
proof -
  have "EventsExchange \<in> set (bk_exchanges (bk (hd H)))" using inv by (simp add: handling_inv_def wired_def)
  with sendsD(3) [OF Publish p] inv have A: "up B w'"
    "bk w' = route_to EventsExchange (retry_message d (retries_of d)) (bk (hd H))"
    by (auto simp: handling_inv_def)
  have sp: "spares (de_Tag d) (bk (hd H)) (bk w')" unfolding A(2) by (rule spares_route)
  have key: "ms_Key (retry_message d (retries_of d)) = de_RoutingKey d" by (simp add: retry_message_def)
  from q(2) max have "put_back d q (bk w')"
    by (simp add: put_back_def A(2) ready_route key outstanding_def)
  with q outstanding_route have "hat q0 (Republished d) (w' # H)"
    using q0 H by (auto simp: A(2))
  with A(1) sp show ?thesis by (simp add: settles_def)
qed

lemma handling_settles:
  assumes step: "handling_step RT CH handlers p (hd H) = (p', w')" and H: "H \<noteq> []"
    and inv: "handling_inv H" and at: "hat q0 p H"
  shows "settles (tag_at p) q0 H w' p'"
proof (cases p)
  case (Taken name d)
  with taken_settles step H inv at show ?thesis by simp
next
  case (Handled name d)
  with step obtain r w1 where a: "ch_Ack CH (de_Tag d) (hd H) = (r, w1)" and p': "p' = Settled d"
    and w': "w' = rt_Inc RT (EventsConsumedTotal (de_RoutingKey d) name) w1"
    by (auto simp: bindS_def doS_def split: prod.splits)
  from at Handled obtain q where q: "outstanding d q (bk (last H))" "outstanding d q (bk (hd H))"
    "q0 = Taken name d" "handled handlers name d H" by auto
  show ?thesis unfolding p' Handled tag_at.simps
    by (rule ack_settles [OF a inv H q(1,2) _ _ q(3)]) (simp_all add: w' Inc_seen Inc_up q(4))
next
  case (Exhausted d)
  with step obtain r where n: "ch_Nack CH (de_Tag d) (hd H) = (r, w')" and p': "p' = Settled d"
    by (auto simp: bindS_eq)
  from at Exhausted obtain q name where q: "outstanding d q (bk (last H))" "outstanding d q (bk (hd H))"
    "maxRetries \<le> retries_of d" "q0 = Taken name d" by auto
  show ?thesis unfolding p' Exhausted tag_at.simps by (rule nack_settles [OF n inv H q])
next
  case (Retrying d)
  with step obtain r where n: "ch_Publish CH EventsExchange (retry_message d (retries_of d)) (hd H) = (r, w')"
    and p': "p' = Republished d" by (auto simp: bindS_eq)
  from at Retrying obtain q name where q: "outstanding d q (bk (last H))" "outstanding d q (bk (hd H))"
    "retries_of d < maxRetries" "q0 = Taken name d" by auto
  show ?thesis unfolding p' Retrying tag_at.simps by (rule retry_settles [OF n inv H q])
next
  case (Republished d)
  with step obtain r where a: "ch_Ack CH (de_Tag d) (hd H) = (r, w')" and p': "p' = Settled d"
    by (auto simp: bindS_eq)
  from at Republished obtain q name where q: "outstanding d q (bk (last H))" "outstanding d q (bk (hd H))"
    "q0 = Taken name d" "put_back d q (bk (hd H))" by auto
  show ?thesis unfolding p' Republished tag_at.simps
    by (rule ack_settles [OF a inv H q(1,2) _ _ q(3)]) (simp_all add: q(4))
next
  case (Settled d)
  with step have "p' = Settled d" "w' = hd H" by simp_all
  with Settled at inv H handled_Cons show ?thesis by (auto simp: settles_def handling_inv_def)
qed

end

sublocale workers \<subseteq> handling: threads "handling_step RT CH handlers" handling_inv
  "handling_at handlers bk" "\<lambda>p p1. tag_at p \<noteq> tag_at p1"
proof
  fix H q p p' w' assume H: "H \<noteq> []" and I: "handling_inv H" and "handling_at handlers bk q p H"
    "handling_step RT CH handlers p (hd H) = (p', w')"
  then have "settles (tag_at p) q H w' p'" by (intro handling_settles)
  with I H show "handling_inv (w' # H) \<and> handling_at handlers bk q p' (w' # H)"
    by (auto simp: settles_def handling_inv_def spares_def)
next
  fix H q p q1 p1 p' w' assume H: "H \<noteq> []" and I: "handling_inv H" and at: "handling_at handlers bk q p H"
    and "handling_at handlers bk q1 p1 H" and t: "tag_at p \<noteq> tag_at p1"
    and "handling_step RT CH handlers p1 (hd H) = (p', w')"
  then have "settles (tag_at p1) q1 H w' p'" by (intro handling_settles)
  with handling_at_spares [OF at H _ t] show "handling_at handlers bk q p (w' # H)"
    by (simp add: settles_def)
next
  fix p p1 :: handling assume "tag_at p \<noteq> tag_at p1"
  then show "tag_at p1 \<noteq> tag_at p" by simp
next
  fix H q p q1 p1 p' w' assume "tag_at p \<noteq> tag_at p1" "handling_step RT CH handlers p (hd H) = (p', w')"
  then show "tag_at p' \<noteq> tag_at p1" by (simp add: tag_step)
qed

context workers
begin

lemma handling_run:
  assumes run: "interleave (handling_step RT CH handlers) is (ps, [w]) = (ps', H)"
    and B: "up B w" "wired (bk w)"
    and start: "\<And>p. p \<in> set ps \<Longrightarrow> \<exists>name d q. p = Taken name d \<and> outstanding d q (bk w)"
    and tags: "distinct (map tag_at ps)"
  shows "H \<noteq> [] \<and> last H = w \<and> length ps' = length ps \<and> up B (hd H) \<and> wired (bk (hd H)) \<and>
    (\<forall>j<length ps. hat (ps ! j) (ps' ! j) H)"
proof -
  have inv: "handling_inv [w]" using B by (simp add: handling_inv_def)
  have apart: "handling.all_apart ps" using tags
    by (auto simp: handling.all_apart_def distinct_conv_nth)
  have "hat (ps ! j) (ps ! j) [w]" if "j < length ps" for j
    using start [OF nth_mem [OF that]] by auto
  note R = handling.run_in_order [OF run inv apart refl this]
  then show ?thesis by (simp add: handling_inv_def)
qed

end

text \<open>The consumers of the program, by their names.\<close>

definition main_handlers :: "lib \<Rightarrow> 'w gorm \<Rightarrow> string \<Rightarrow> 'w HandlerFunc" where
  "main_handlers L G name =
     (if name = ''audit-consumer'' then audit_Handle L (NewAuditRepository G L)
      else if name = ''notification-consumer'' then notification_Handle L
      else analytics_Handle L)"

sublocale relay \<subseteq> workers: workers B CH RT "main_handlers L G" for L
proof unfold_locales
  fix name c k b w r w' assume "main_handlers L G name c k b w = (r, w')"
  then show "seen B () w' = seen B () w \<and> (up B w \<longrightarrow> up B w')"
    using audit.handler_leaves notification.handler_leaves analytics.handler_leaves
    by (auto simp: main_handlers_def split: if_splits)
qed

end
