(* ===== verification/Relays.thy ===== *)
theory Relays
  imports Relay Threads
begin

text \<open>
  \<open>internal/outbox/relay.go\<close> with several relays: each replica of the server runs one, on the
  same outbox, and a batch is a sequence of steps, one per call of the outbox or the broker.
\<close>

section \<open>A batch step by step\<close>

datatype batch =
  BatchFetch
| BatchRows "OutboxModel list"
| BatchSent OutboxModel "OutboxModel list"
| BatchFailed OutboxModel "OutboxModel list"
| BatchDone

fun batch_step ::
  "'w gorm \<Rightarrow> 'w runtime \<Rightarrow> 'w channel \<Rightarrow> batch \<Rightarrow> 'w \<Rightarrow> batch \<times> 'w" where
  "batch_step G RT CH BatchFetch =
     bindS (FetchPending G 50) (\<lambda>r. Pair (case r of Inl _ \<Rightarrow> BatchDone | Inr rows \<Rightarrow> BatchRows rows))"
| "batch_step G RT CH (BatchRows []) = Pair BatchDone"
| "batch_step G RT CH (BatchRows (row # rows)) =
     bindS (ch_Publish CH ''rbac.events'' (event_message row)) (\<lambda>r.
     Pair (case r of Inl _ \<Rightarrow> BatchFailed row rows | Inr _ \<Rightarrow> BatchSent row rows))"
| "batch_step G RT CH (BatchFailed row rows) =
     bindS (MarkFailed G (om_ID row)) (\<lambda>_. Pair (BatchRows rows))"
| "batch_step G RT CH (BatchSent row rows) =
     bindS (MarkSent G RT (om_ID row)) (\<lambda>r.
     case r of
       Inl _ \<Rightarrow> Pair (BatchRows rows)
     | Inr _ \<Rightarrow> doS (rt_Inc RT (RabbitMQPublishedTotal (om_EventType row))) (Pair (BatchRows rows)))"
| "batch_step G RT CH BatchDone = Pair BatchDone"

text \<open>The steps of one batch on its own are the batch: two for each event, and two more.\<close>

lemma drive_rows:
  "drive (batch_step G RT CH) (Suc (2 * length rows + n)) (BatchRows rows) w =
     (BatchDone, snd (relay_rows G RT CH rows w))"
proof (induction rows arbitrary: w)
  case Nil
  have "drive (batch_step G RT CH) n BatchDone = Pair BatchDone" by (rule drive_stop) simp
  then show ?case by (simp add: bindS_def)
next
  case (Cons row rows)
  have n: "Suc (2 * length (row # rows) + n) = Suc (Suc (Suc (2 * length rows + n)))" by simp
  obtain r w1 where p: "ch_Publish CH ''rbac.events'' (event_message row) w = (r, w1)" by force
  obtain rf wf where f: "MarkFailed G (om_ID row) w1 = (rf, wf)" by force
  obtain rs ws where s: "MarkSent G RT (om_ID row) w1 = (rs, ws)" by force
  show ?case unfolding n drive_two
    by (cases r; cases rs) (simp_all add: relay_row_def bindS_def doS_def p f s Cons.IH del: drive.simps(2))
qed

lemma drive_batch:
  "\<exists>n. \<forall>k. drive (batch_step G RT CH) (n + k) BatchFetch w = (BatchDone, snd (relayBatch G RT CH w))"
proof -
  obtain r w1 where f: "FetchPending G 50 w = (r, w1)" by force
  have stop: "drive (batch_step G RT CH) k BatchDone = Pair BatchDone" for k by (rule drive_stop) simp
  have "drive (batch_step G RT CH) (Suc (Suc (2 * (case r of Inr rows \<Rightarrow> length rows | _ \<Rightarrow> 0))) + k) BatchFetch w =
      (BatchDone, snd (relayBatch G RT CH w))" for k
    using drive_rows [of G RT CH _ k w1]
    by (cases r) (simp_all add: relayBatch_def bindS_def f stop)
  then show ?thesis by blast
qed

section \<open>What holds of batches that run at the same time\<close>

text \<open>
  \<open>evolves Q m m'\<close>: the row \<open>m\<close> of the outbox has become \<open>m'\<close>; it may have been marked as
  sent, but then its message is among \<open>Q\<close>.
\<close>

definition evolves :: "message set \<Rightarrow> OutboxModel \<Rightarrow> OutboxModel \<Rightarrow> bool" where
  "evolves Q m m' \<longleftrightarrow> om_ID m' = om_ID m \<and> event_message m' = event_message m \<and> (pending m' \<longrightarrow> pending m) \<and>
     (pending m \<longrightarrow> pending m' \<or> event_message m \<in> Q)"

abbreviation outbox_evolves :: "message set \<Rightarrow> tables \<Rightarrow> tables \<Rightarrow> bool" where
  "outbox_evolves Q T T' \<equiv> list_all2 (evolves Q) (tb_outbox_events T) (tb_outbox_events T')"

lemma outbox_evolves_refl: "outbox_evolves Q T T"
  by (simp add: list_all2_same evolves_def)

lemma outbox_evolves_mono: "outbox_evolves Q T T' \<Longrightarrow> Q \<subseteq> Q' \<Longrightarrow> outbox_evolves Q' T T'"
  by (erule list_all2_mono) (auto simp: evolves_def)

lemma outbox_evolves_trans:
  assumes "outbox_evolves Q T T1" and "outbox_evolves Q T1 T2"
  shows "outbox_evolves Q T T2"
  by (rule list_all2_trans [OF _ assms]) (auto simp: evolves_def)

lemma evolves_pending_count:
  assumes "outbox_evolves Q T T'"
  shows "length (pending_rows T') \<le> length (pending_rows T)"
proof -
  have "length (filter pending ys) \<le> length (filter pending xs)" if "list_all2 (evolves Q) xs ys" for xs ys
    using that by (induction rule: list_all2_induct) (auto simp: evolves_def)
  with assms show ?thesis by (simp add: pending_rows_def)
qed

text \<open>\<open>known row T\<close>: the outbox still has the row, with the same message.\<close>

definition known :: "OutboxModel \<Rightarrow> tables \<Rightarrow> bool" where
  "known row T \<longleftrightarrow> (\<exists>m\<in>set (tb_outbox_events T). om_ID m = om_ID row \<and> event_message m = event_message row)"

lemma list_all2_left: "list_all2 P xs ys \<Longrightarrow> x \<in> set xs \<Longrightarrow> \<exists>y\<in>set ys. P x y"
  by (induction rule: list_all2_induct) auto

lemma list_all2_right: "list_all2 P xs ys \<Longrightarrow> y \<in> set ys \<Longrightarrow> \<exists>x\<in>set xs. P x y"
  by (induction rule: list_all2_induct) auto

lemma known_evolves:
  assumes "known row T" and "outbox_evolves Q T T'"
  shows "known row T'"
proof -
  from assms(1) obtain m where m: "m \<in> set (tb_outbox_events T)" "om_ID m = om_ID row"
    "event_message m = event_message row" by (auto simp: known_def)
  from list_all2_left [OF assms(2) m(1)] obtain m' where "m' \<in> set (tb_outbox_events T')" "evolves Q m m'" by blast
  with m show ?thesis unfolding known_def evolves_def by (intro bexI [of _ m']) auto
qed

lemma pending_evolves: "outbox_evolves Q T T' \<Longrightarrow> m' \<in> set (pending_rows T') \<Longrightarrow>
    \<exists>m\<in>set (pending_rows T). om_ID m = om_ID m'"
  by (auto simp: pending_rows_def evolves_def dest!: list_all2_right)

text \<open>\<open>left_over I T\<close>: the events that are still pending have an identifier in \<open>I\<close>.\<close>

definition left_over :: "64 word set \<Rightarrow> tables \<Rightarrow> bool" where
  "left_over I T \<longleftrightarrow> om_ID ` set (pending_rows T) \<subseteq> I"

lemma left_over_evolves: "left_over I T \<Longrightarrow> outbox_evolves Q T T' \<Longrightarrow> left_over I T'"
  unfolding left_over_def by (force dest: pending_evolves)

text \<open>Marking a row as sent whose message is among \<open>Q\<close>.\<close>

lemma evolves_sent:
  assumes "known row T" and "event_message row \<in> Q" and ids: "distinct (map om_ID (tb_outbox_events T))"
    and T': "T' = T\<lparr>tb_outbox_events := map (\<lambda>m. if om_ID m = om_ID row
      then m\<lparr>om_Status := ''sent'', om_SentAt := Some now\<rparr> else m) (tb_outbox_events T)\<rparr>"
  shows "outbox_evolves Q T T'"
    and "left_over (insert (om_ID row) I) T \<Longrightarrow> left_over I T'"
proof -
  from assms(1) obtain m0 where m0: "m0 \<in> set (tb_outbox_events T)" "om_ID m0 = om_ID row"
    "event_message m0 = event_message row" by (auto simp: known_def)
  have "event_message m \<in> Q" if "m \<in> set (tb_outbox_events T)" "om_ID m = om_ID row" for m
    using inj_onD [OF distinct_map [THEN iffD1, OF ids, THEN conjunct2], of m m0] that m0 assms(2) by simp
  then show "outbox_evolves Q T T'"
    unfolding T' by (auto simp: list_all2_map2 evolves_def event_message_def intro!: list.rel_refl_strong)
  show "left_over (insert (om_ID row) I) T \<Longrightarrow> left_over I T'"
    unfolding left_over_def T' pending_rows_def by auto
qed

text \<open>
  What a batch has made sure of, where \<open>few\<close> says that one batch was enough for all the events
  that were pending at first: the rows that it still holds are in the outbox, and there is nothing else
  to be done.
\<close>

fun batch_at :: "('w \<Rightarrow> tables) \<Rightarrow> ('w \<Rightarrow> message set) \<Rightarrow> batch \<Rightarrow> 'w list \<Rightarrow> bool" where
  "batch_at tbl msgs BatchFetch H \<longleftrightarrow> True"
| "batch_at tbl msgs (BatchRows rows) H \<longleftrightarrow> (\<forall>row\<in>set rows. known row (tbl (hd H))) \<and>
     (length (pending_rows (tbl (last H))) \<le> 50 \<longrightarrow> left_over (om_ID ` set rows) (tbl (hd H)))"
| "batch_at tbl msgs (BatchSent row rows) H \<longleftrightarrow> (\<forall>row\<in>set (row # rows). known row (tbl (hd H))) \<and>
     event_message row \<in> msgs (hd H) \<and>
     (length (pending_rows (tbl (last H))) \<le> 50 \<longrightarrow> left_over (om_ID ` set (row # rows)) (tbl (hd H)))"
| "batch_at tbl msgs (BatchFailed row rows) H \<longleftrightarrow> False"
| "batch_at tbl msgs BatchDone H \<longleftrightarrow>
     (length (pending_rows (tbl (last H))) \<le> 50 \<longrightarrow> pending_rows (tbl (hd H)) = [])"

lemma batch_at_mono:
  assumes "batch_at tbl msgs p H" and "H \<noteq> []" and "outbox_evolves Q (tbl (hd H)) (tbl w')"
    and "msgs (hd H) \<subseteq> msgs w'"
  shows "batch_at tbl msgs p (w' # H)"
proof (cases p)
  case BatchDone
  with assms(1,2) evolves_pending_count [OF assms(3)] show ?thesis by auto
qed (use assms known_evolves [OF _ assms(3)] left_over_evolves [OF _ assms(3)] in auto)

context relay
begin

abbreviation audited :: "'w \<Rightarrow> message set" where
  "audited w \<equiv> set (ready (broker_at w) ''audit.queue'')"

definition batch_inv :: "'w list \<Rightarrow> bool" where
  "batch_inv H \<longleftrightarrow> running (hd H) \<and> audited (last H) \<subseteq> audited (hd H) \<and>
     outbox_evolves (audited (hd H)) (tables_at (last H)) (tables_at (hd H))"

definition batch_moves :: "'w list \<Rightarrow> 'w \<Rightarrow> batch \<Rightarrow> bool" where
  "batch_moves H w' p \<longleftrightarrow> running w' \<and> audited (hd H) \<subseteq> audited w' \<and>
     outbox_evolves (audited w') (tables_at (hd H)) (tables_at w') \<and> batch_at tables_at audited p (w' # H)"

lemma distinct_events: "running w \<Longrightarrow> distinct (map om_ID (tb_outbox_events (tables_at w)))"
  using up_wf [of w BaseDB] by (simp add: running_def wf_tables_def)

lemma fetch_moves:
  assumes step: "batch_step G RT CH BatchFetch (hd H) = (p', w')" and H: "H \<noteq> []" and inv: "batch_inv H"
  shows "batch_moves H w' p'"
proof -
  obtain r where f: "FetchPending G 50 (hd H) = (r, w')"
    and p': "p' = (case r of Inl _ \<Rightarrow> BatchDone | Inr rows \<Rightarrow> BatchRows rows)"
    using step by (auto simp: bindS_eq)
  from inv have R: "running (hd H)" and E: "outbox_evolves (audited (hd H)) (tables_at (last H)) (tables_at (hd H))"
    by (simp_all add: batch_inv_def)
  have "(0 :: int) \<le> 50" by simp
  note F = readsD [OF FetchPending_reads [OF this] f]
  then have u: "untouched V (hd H) w'" by blast
  have same: "tables_at w' = tables_at (hd H)" "broker_at w' = broker_at (hd H)" and R': "running w'"
    using R apart_untouched [OF apart u] u by (auto simp: untouched_seen untouched_up running_def)
  from F R obtain zs where r: "r = Inr (take 50 zs)" and zs: "mset zs = mset (pending_rows (tables_at (hd H)))"
    by (cases r) (auto simp: running_def)
  then have set: "set zs = set (pending_rows (tables_at (hd H)))" by (metis mset_eq_setD)
  have "known row (tables_at w')" if "row \<in> set (take 50 zs)" for row
    using in_set_takeD [OF that] set by (auto simp: known_def same pending_rows_def)
  moreover have "left_over (om_ID ` set (take 50 zs)) (tables_at w')"
    if "length (pending_rows (tables_at (last H))) \<le> 50"
  proof -
    have "length zs \<le> 50"
      using that evolves_pending_count [OF E] mset_eq_length [OF zs] by simp
    then show ?thesis by (simp add: left_over_def same set)
  qed
  ultimately have "batch_at tables_at audited p' (w' # H)" using H by (simp add: p' r)
  with R' same outbox_evolves_refl show ?thesis by (simp add: batch_moves_def)
qed

lemma publish_moves:
  assumes step: "batch_step G RT CH (BatchRows (row # rows)) (hd H) = (p', w')" and H: "H \<noteq> []"
    and inv: "batch_inv H" and at: "batch_at tables_at audited (BatchRows (row # rows)) H"
  shows "batch_moves H w' p'"
proof -
  obtain r where p: "ch_Publish CH EventsExchange (event_message row) (hd H) = (r, w')"
    and p': "p' = (case r of Inl _ \<Rightarrow> BatchFailed row rows | Inr _ \<Rightarrow> BatchSent row rows)"
    using step by (auto simp: bindS_eq EventsExchange_def)
  from inv have R: "running (hd H)" by (simp add: batch_inv_def)
  note P = publish_event [OF p R]
  have "wired (broker_at (hd H))" using R by (simp add: running_def)
  from bound_audit [OF this] P
  have a: "ready (broker_at w') ''audit.queue'' = ready (broker_at (hd H)) ''audit.queue'' @ [event_message row]"
    by (simp add: ready_route)
  from at P a H have "batch_at tables_at audited p' (w' # H)" by (simp add: p')
  with P a outbox_evolves_refl show ?thesis by (auto simp: batch_moves_def)
qed

lemma sent_moves:
  assumes step: "batch_step G RT CH (BatchSent row rows) (hd H) = (p', w')" and H: "H \<noteq> []"
    and inv: "batch_inv H" and at: "batch_at tables_at audited (BatchSent row rows) H"
  shows "batch_moves H w' p'"
proof -
  obtain r w1 where m: "MarkSent G RT (om_ID row) (hd H) = (r, w1)" by force
  from inv have R: "running (hd H)" by (simp add: batch_inv_def)
  note M = mark_event [OF m R]
  with step m have w': "w' = rt_Inc RT (RabbitMQPublishedTotal (om_EventType row)) w1" and p': "p' = BatchRows rows"
    by (auto simp: bindS_def doS_def)
  with M have same: "running w'" "broker_at w' = broker_at (hd H)" "tables_at w' = tables_at w1"
    by (simp_all add: count_running Inc_seen br_quiet.Inc_seen)
  from M obtain now where T: "tables_at w' = (tables_at (hd H))\<lparr>tb_outbox_events := map (\<lambda>m.
      if om_ID m = om_ID row then m\<lparr>om_Status := ''sent'', om_SentAt := Some now\<rparr> else m)
      (tb_outbox_events (tables_at (hd H)))\<rparr>" by (auto simp: same)
  from at have k: "known row (tables_at (hd H))" "event_message row \<in> audited (hd H)" by simp_all
  note E = evolves_sent [OF k distinct_events [OF R] T]
  from at H known_evolves [OF _ E(1)] E(2) have "batch_at tables_at audited p' (w' # H)" by (simp add: p')
  with same E(1) show ?thesis by (simp add: batch_moves_def)
qed

lemma batch_step_moves:
  assumes step: "batch_step G RT CH p (hd H) = (p', w')" and H: "H \<noteq> []"
    and inv: "batch_inv H" and at: "batch_at tables_at audited p H"
  shows "batch_moves H w' p'"
proof -
  have stay: "batch_moves H (hd H) b" if "batch_at tables_at audited b (hd H # H)" for b
    using inv that outbox_evolves_refl by (simp add: batch_moves_def batch_inv_def)
  show ?thesis
  proof (cases p)
    case BatchFetch
    with fetch_moves step H inv show ?thesis by blast
  next
    case (BatchRows rows)
    show ?thesis
    proof (cases rows)
      case Nil
      with BatchRows step at H show ?thesis by (auto intro!: stay simp: left_over_def)
    next
      case (Cons row rows')
      with BatchRows step at H inv show ?thesis by (intro publish_moves) auto
    qed
  next
    case (BatchSent row rows)
    with sent_moves step H inv at show ?thesis by blast
  qed (use step at H in \<open>auto intro!: stay\<close>)
qed

end

sublocale relay \<subseteq> batches: free_threads "batch_step G RT CH" batch_inv "\<lambda>_ :: batch. batch_at tables_at audited"
proof
  fix H q p p' w' assume H: "H \<noteq> []" and I: "batch_inv H"
    and "batch_at tables_at audited p H" "batch_step G RT CH p (hd H) = (p', w')"
  then have M: "batch_moves H w' p'" by (intro batch_step_moves)
  from I M have "outbox_evolves (audited w') (tables_at (last H)) (tables_at (hd H))"
    by (auto simp: batch_inv_def batch_moves_def intro: outbox_evolves_mono)
  with I M H have "batch_inv (w' # H)"
    by (auto simp: batch_inv_def batch_moves_def intro: outbox_evolves_trans)
  with M show "batch_inv (w' # H) \<and> batch_at tables_at audited p' (w' # H)" by (simp add: batch_moves_def)
next
  fix H q p q1 p1 p' w' assume H: "H \<noteq> []" and "batch_inv H" and at: "batch_at tables_at audited p H"
    and "batch_at tables_at audited p1 H" "batch_step G RT CH p1 (hd H) = (p', w')"
  then have M: "batch_moves H w' p'" by (intro batch_step_moves)
  from M have "outbox_evolves (audited w') (tables_at (hd H)) (tables_at w')" "audited (hd H) \<subseteq> audited w'"
    by (simp_all add: batch_moves_def)
  with batch_at_mono [OF at H] show "batch_at tables_at audited p (w' # H)" by blast
qed

context relay
begin

lemma batches_run:
  assumes run: "interleave (batch_step G RT CH) is (replicate n BatchFetch, [w]) = (ps, H)" and R: "running w"
  shows "H \<noteq> [] \<and> last H = w \<and> running (hd H) \<and>
    outbox_evolves (audited (hd H)) (tables_at w) (tables_at (hd H)) \<and>
    (length (pending_rows (tables_at w)) \<le> 50 \<longrightarrow> BatchDone \<in> set ps \<longrightarrow> pending_rows (tables_at (hd H)) = [])"
proof -
  have inv: "batch_inv [w]" using R outbox_evolves_refl by (simp add: batch_inv_def)
  have "batch_at tables_at audited (replicate n BatchFetch ! j) [w]"
    if "j < length (replicate n BatchFetch)" for j using that by simp
  note R = batches.run_in_order [OF run inv batches.free_apart refl this]
  have "batch_at tables_at audited BatchDone H" if d: "BatchDone \<in> set ps"
  proof -
    from d R(4) obtain j where "j < length (replicate n BatchFetch)" "ps ! j = BatchDone"
      by (auto simp: in_set_conv_nth)
    with R(5) [of j] show ?thesis by simp
  qed
  with R(1-3) show ?thesis by (simp add: batch_inv_def)
qed

end

end
