(* ===== verification/Props_Events.thy ===== *)
theory Props_Events
  imports Wiring Workers Relays
begin

text \<open>
  Properties of the way of an event: from the outbox through the relay to the queues, and from
  there to the handlers, the retries and the dead letters.
\<close>

text \<open>
  The example world with a broker, which has just been started or has been set up, and with two
  pending events in the outbox.
\<close>

definition demo_event :: "64 word \<Rightarrow> time \<Rightarrow> OutboxModel" where
  "demo_event n t = \<lparr>om_ID = n, om_EventType = ''role.assigned'', om_Payload = ''{}'',
     om_Status = ''pending'', om_RetryCount = 0, om_CreatedAt = t, om_SentAt = None\<rparr>"

definition demo_bus :: "broker \<Rightarrow> broker_world" where
  "demo_bus s = \<lparr>db_base = demo_tables\<lparr>tb_outbox_events := [demo_event 1 9, demo_event 2 5]\<rparr>,
     db_tx = no_tables, db_faults = [], db_clock = 100,
     rw_state = \<lparr>rs_keys = (\<lambda>_. None), rs_now = 0\<rparr>, rw_faults = [], bw_broker = s, bw_faults = []\<rparr>"

lemma demo_bus_up: "up ref_broker_window (demo_bus s)" "seen ref_broker_window () (demo_bus s) = s"
  by (simp_all add: demo_bus_def ref_broker_window_def)

lemma demo_bus_db_up: "up ref_window (demo_bus s)"
proof -
  have "up ref_window (demo_bus no_broker)" by code_simp
  then show ?thesis by (simp add: ref_window_def demo_bus_def)
qed

lemma compatible_no_broker: "compatible no_broker"
  by (simp add: compatible_def agrees_def no_broker_def case_prod_beta)

section \<open>The topology\<close>

lemma placeable_fold:
  assumes "set xs \<subseteq> set queues" and "\<forall>x\<in>set queues. placeable x s"
  shows "\<forall>x\<in>set queues. placeable x (fold place_queue xs s)"
  using assms
proof (induction xs arbitrary: s)
  case (Cons x xs)
  then have "\<forall>y\<in>set queues. placeable y (place_queue x s)" by (simp add: placeable_place)
  with Cons show ?case by simp
qed simp

lemma compatible_topology:
  assumes "compatible s"
  shows "compatible (topology s)"
proof -
  let ?s = "declare_exchange dlxExchange (declare_exchange EventsExchange s)"
  from assms have "\<forall>x\<in>set queues. placeable x ?s"
    by (auto simp: compatible_def placeable_def)
  from placeable_fold [OF order_refl this] show ?thesis
    by (auto simp: topology_def compatible_def placeable_def)
qed

text \<open>
  C29. Setting up the topology on a broker whose queues, if any, were declared by the same program:
  with the broker up it succeeds, and then both exchanges and every queue are there, with
  the bindings and the dead-letter queues, every event that is published reaches the audit queue,
  and a second start will succeed as well.
\<close>

theorem topology_is_set_up:
  assumes "broker_contract B CH" and "setupTopology CH w = (r, w')"
    and "up B w" and "compatible (seen B () w)"
  shows "r = Inr () \<and> up B w' \<and> wired (seen B () w') \<and> compatible (seen B () w') \<and>
    (\<forall>key. bound_to (seen B () w') EventsExchange key ''audit.queue'')"
proof -
  have "r = Inr () \<and> up B w' \<and> seen B () w' = topology (seen B () w)"
    using broker_contract.setupTopology_does [OF assms(1), unfolded does_def] assms(2-4) by blast
  moreover note wired_topology [OF assms(4)] compatible_topology [OF assms(4)]
  ultimately show ?thesis using bound_audit [of "topology (seen B () w)"] by simp
qed

theorem topology_is_set_up_witness:
  "case setupTopology ref_channel (demo_bus no_broker) of (r, w') \<Rightarrow>
     r = Inr () \<and> wired (bw_broker w') \<and>
     bound_to (bw_broker w') EventsExchange ''permission.attached'' ''audit.queue''"
  using topology_is_set_up [OF ref_broker.broker_contract_axioms prod.collapse [symmetric],
      of "demo_bus no_broker"] demo_bus_up [of no_broker] compatible_no_broker
  by (simp add: case_prod_beta) (simp add: ref_broker_window_def)

section \<open>The relay\<close>

lemma running_iff: "relay V G jsonb fits coll RT B CH \<Longrightarrow>
    relay.running V B w \<longleftrightarrow> up V w \<and> up B w \<and> wired (seen B () w)"
  by (rule relay.running_def)

text \<open>
  C30. A batch: with the database and the broker up, the events published are the fifty oldest
  pending ones, or all if there are fewer, in the order of their creation, each under its
  type; these and no others are marked as sent.
\<close>

theorem relay_batch_publishes:
  assumes "relay V G jsonb fits coll RT B CH" and "relayBatch G RT CH w = (u, w')"
    and "up V w" and "up B w" and "wired (seen B () w)"
  shows "\<exists>zs. mset zs = mset (pending_rows (seen V BaseDB w)) \<and>
    sorted_wrt (\<lambda>a b. om_CreatedAt a \<le> om_CreatedAt b) zs \<and>
    relayed (om_ID ` set (take 50 zs)) (seen V BaseDB w) (seen V BaseDB w') \<and>
    seen B () w' = fold (\<lambda>row. route_to EventsExchange (event_message row)) (take 50 zs) (seen B () w)"
  using relay.relayBatch_run [OF assms(1,2)] assms(3-5) by (auto simp: running_iff [OF assms(1)])

theorem relay_batch_publishes_witness:
  "case relayBatch ref_gorm ref_runtime ref_channel (demo_bus (topology no_broker)) of (u, w') \<Rightarrow>
     bw_broker w' = route_to EventsExchange (event_message (demo_event 1 9))
       (route_to EventsExchange (event_message (demo_event 2 5)) (topology no_broker))"
proof -
  let ?w = "demo_bus (topology no_broker)"
  have T: "pending_rows (seen ref_window BaseDB ?w) = [demo_event 1 9, demo_event 2 5]"
    by (simp add: demo_bus_def ref_window_def db_get_def pending_rows_def demo_event_def)
  from relay_batch_publishes [OF ref_relay.relay_axioms prod.collapse [symmetric], of ?w]
  obtain zs where zs: "mset zs = {#demo_event 1 9, demo_event 2 5#}"
    "sorted_wrt (\<lambda>a b. om_CreatedAt a \<le> om_CreatedAt b) zs"
    "seen ref_broker_window () (snd (relayBatch ref_gorm ref_runtime ref_channel ?w)) =
      fold (\<lambda>row. route_to EventsExchange (event_message row)) (take 50 zs) (topology no_broker)"
    using demo_bus_db_up demo_bus_up [of "topology no_broker"] wired_topology [OF compatible_no_broker]
    by (auto simp: T)
  have "length zs = 2" using arg_cong [OF zs(1), of size] by simp
  then obtain x y where "zs = [x, y]" by (auto simp: length_Suc_conv numeral_2_eq_2)
  with zs(1) have "zs = [demo_event 1 9, demo_event 2 5] \<or> zs = [demo_event 2 5, demo_event 1 9]"
    by (auto simp: add_eq_conv_diff split: if_splits)
  with zs(2,3) show ?thesis
    by (auto simp: demo_event_def ref_broker_window_def case_prod_beta)
qed

text \<open>
  No event is left behind: when there are no more than fifty pending events, one batch
  empties the outbox, and all of them wait in the audit queue, behind what was there, in
  the order of their creation.
\<close>

theorem pending_events_reach_audit:
  assumes "relay V G jsonb fits coll RT B CH" and "relayBatch G RT CH w = (u, w')"
    and "up V w" and "up B w" and "wired (seen B () w)"
    and "length (pending_rows (seen V BaseDB w)) \<le> 50"
  shows "pending_rows (seen V BaseDB w') = [] \<and>
    (\<exists>zs. mset zs = mset (pending_rows (seen V BaseDB w)) \<and>
       sorted_wrt (\<lambda>a b. om_CreatedAt a \<le> om_CreatedAt b) zs \<and>
       ready (seen B () w') ''audit.queue'' = ready (seen B () w) ''audit.queue'' @ map event_message zs)"
  using relay.relayBatch_reaches_audit [OF assms(1,2) _ assms(6)] assms(3-5)
  by (simp add: running_iff [OF assms(1)])

theorem pending_events_reach_audit_witness:
  "case relayBatch ref_gorm ref_runtime ref_channel (demo_bus (topology no_broker)) of (u, w') \<Rightarrow>
     pending_rows (db_base w') = [] \<and> length (ready (bw_broker w') ''audit.queue'') =
       length (ready (topology no_broker) ''audit.queue'') + 2"
proof -
  let ?w = "demo_bus (topology no_broker)"
  have "length (pending_rows (seen ref_window BaseDB ?w)) = 2"
    by (simp add: demo_bus_def ref_window_def db_get_def pending_rows_def demo_event_def)
  moreover note pending_events_reach_audit [OF ref_relay.relay_axioms prod.collapse [symmetric] demo_bus_db_up
      demo_bus_up(1), of "topology no_broker"] demo_bus_up(2) wired_topology [OF compatible_no_broker]
  ultimately show ?thesis
    by (auto simp: ref_window_def db_get_def case_prod_beta ref_broker_window_def dest!: mset_eq_length)
qed

text \<open>
  C31. Several relays, as many batches as one likes in any interleaving of their calls, while the database
  and the broker are up: an event that was pending is pending still, or its message is in the audit
  queue; and when there were no more than fifty, the outbox is empty as soon as one of the
  batches has ended.
\<close>

theorem concurrent_relays:
  assumes "relay V G jsonb fits coll RT B CH"
    and "interleave (batch_step G RT CH) is (replicate n BatchFetch, [w]) = (ps, H)"
    and "up V w" and "up B w" and "wired (seen B () w)"
  shows "(\<forall>m\<in>set (pending_rows (seen V BaseDB w)).
      event_message m \<in> set (ready (seen B () (hd H)) ''audit.queue'') \<or>
      (\<exists>m'\<in>set (pending_rows (seen V BaseDB (hd H))). om_ID m' = om_ID m \<and> event_message m' = event_message m)) \<and>
    (length (pending_rows (seen V BaseDB w)) \<le> 50 \<longrightarrow> BatchDone \<in> set ps \<longrightarrow>
      pending_rows (seen V BaseDB (hd H)) = [])"
proof -
  from assms(3-5) have "relay.running V B w" by (simp add: running_iff [OF assms(1)])
  note R = relay.batches_run [OF assms(1,2) this]
  then have E: "outbox_evolves (set (ready (seen B () (hd H)) ''audit.queue'')) (seen V BaseDB w) (seen V BaseDB (hd H))"
    by blast
  have "event_message m \<in> set (ready (seen B () (hd H)) ''audit.queue'') \<or>
      (\<exists>m'\<in>set (pending_rows (seen V BaseDB (hd H))). om_ID m' = om_ID m \<and> event_message m' = event_message m)"
    if "m \<in> set (pending_rows (seen V BaseDB w))" for m
    using that list_all2_left [OF E, of m] by (auto simp: pending_rows_def evolves_def)
  with R show ?thesis by blast
qed

abbreviation demo_relays :: "nat list \<Rightarrow> batch list \<times> broker_world list" where
  "demo_relays is \<equiv> interleave (batch_step ref_gorm ref_runtime ref_channel) is
     ([BatchFetch, BatchFetch], [demo_bus (topology no_broker)])"

lemma demo_relay_ends: "\<exists>n. BatchDone \<in> set (fst (demo_relays (1 # replicate n 0)))"
proof -
  let ?step = "batch_step ref_gorm ref_runtime ref_channel" and ?w = "demo_bus (topology no_broker)"
  obtain p w1 where s: "?step BatchFetch ?w = (p, w1)" by force
  obtain n where "\<forall>k. drive ?step (n + k) BatchFetch w1 = (BatchDone, snd (relayBatch ref_gorm ref_runtime ref_channel w1))"
    using drive_batch [of ref_gorm ref_runtime ref_channel w1] by blast
  then have "drive ?step n BatchFetch w1 = (BatchDone, snd (relayBatch ref_gorm ref_runtime ref_channel w1))"
    by (metis add_0_right)
  moreover have "demo_relays (1 # replicate n 0) = interleave ?step (replicate n 0) ([BatchFetch, p], [w1, ?w])"
    using s by (simp add: advance_def del: batch_step.simps)
  ultimately have "BatchDone \<in> set (fst (demo_relays (1 # replicate n 0)))"
    using interleave_alone [of 0 "[BatchFetch, p]" "[w1, ?w]" ?step n] by auto
  then show ?thesis by blast
qed

theorem concurrent_relays_witness:
  "\<exists>n. case demo_relays (1 # replicate n 0) of (ps, H) \<Rightarrow> BatchDone \<in> set ps \<and> pending_rows (db_base (hd H)) = [] \<and>
     event_message (demo_event 1 9) \<in> set (ready (bw_broker (hd H)) ''audit.queue'')"
proof -
  let ?w = "demo_bus (topology no_broker)"
  from demo_relay_ends obtain n where e: "BatchDone \<in> set (fst (demo_relays (1 # replicate n 0)))" ..
  obtain ps H where c: "demo_relays (1 # replicate n 0) = (ps, H)" by force
  then have run: "interleave (batch_step ref_gorm ref_runtime ref_channel) (1 # replicate n 0)
      (replicate 2 BatchFetch, [?w]) = (ps, H)" by (simp add: numeral_2_eq_2)
  have T: "pending_rows (seen ref_window BaseDB ?w) = [demo_event 1 9, demo_event 2 5]"
    by (simp add: demo_bus_def ref_window_def db_get_def pending_rows_def demo_event_def)
  have W: "wired (seen ref_broker_window () ?w)"
    using demo_bus_up(2) wired_topology [OF compatible_no_broker] by simp
  note R = concurrent_relays [OF ref_relay.relay_axioms run demo_bus_db_up demo_bus_up(1) W, unfolded T]
  from R e c have none: "pending_rows (seen ref_window BaseDB (hd H)) = []" by simp
  with R have "event_message (demo_event 1 9) \<in> set (ready (seen ref_broker_window () (hd H)) ''audit.queue'')"
    by simp
  with none e c show ?thesis
    by (intro exI [of _ n]) (simp add: ref_window_def db_get_def ref_broker_window_def del: interleave.simps)
qed

text \<open>
  The limit of this: nothing keeps two relays from fetching the same events, and then both publish
  them, so that the audit queue has them twice.
\<close>

lemma published_twice:
  "case demo_relays [0,1,0,1] of (ps, H) \<Rightarrow> (case (ps ! 0, ps ! 1) of
       (BatchSent a _, BatchSent b _) \<Rightarrow> om_ID a = om_ID b | _ \<Rightarrow> False) \<and>
     length (ready (bw_broker (hd H)) ''audit.queue'') = 2"
  by code_simp

text \<open>
  C32. The relay catches up: while the database and the broker are up, as many ticks as there are
  fifties of pending events empty the outbox.
\<close>

theorem relay_drains_outbox:
  assumes "relay V G jsonb fits coll RT B CH" and "Run G RT CH (replicate n Tick) w = (u, w')"
    and "up V w" and "up B w" and "wired (seen B () w)"
    and "length (pending_rows (seen V BaseDB w)) \<le> 50 * n"
  shows "pending_rows (seen V BaseDB w') = [] \<and> up V w' \<and> up B w' \<and> wired (seen B () w')"
  using relay.Run_drains [OF assms(1,2)] assms(3-6) by (simp add: running_iff [OF assms(1)])

theorem relay_drains_outbox_witness:
  "pending_rows (db_base (snd (Run ref_gorm ref_runtime ref_channel [Tick]
     (demo_bus (topology no_broker))))) = []"
proof -
  let ?w = "demo_bus (topology no_broker)"
  have "length (pending_rows (seen ref_window BaseDB ?w)) \<le> 50 * 1"
    by (simp add: demo_bus_def ref_window_def db_get_def pending_rows_def demo_event_def)
  from relay_drains_outbox [OF ref_relay.relay_axioms prod.collapse [symmetric] demo_bus_db_up
      demo_bus_up(1) _ this] demo_bus_up(2) [of "topology no_broker"] wired_topology [OF compatible_no_broker]
  show ?thesis by (simp add: ref_window_def db_get_def)
qed

context relay
begin

lemma relay_row_failed:
  assumes p: "ch_Publish CH EventsExchange (event_message row) w = (Inl e, w1)"
    and run: "relay_row G RT CH row w = (u, w')"
  shows "\<exists>I. tables_at w' = (tables_at w)\<lparr>tb_outbox_events := map (\<lambda>m. if om_ID m \<in> I
      then m\<lparr>om_RetryCount := om_RetryCount m + 1\<rparr> else m) (tb_outbox_events (tables_at w))\<rparr> \<and>
    I \<subseteq> {om_ID row}"
proof -
  from apart_sym_rest [OF sendsD(1) [OF Publish p]] have V: "tables_at w1 = tables_at w" by blast
  obtain r w2 where m: "MarkFailed G (om_ID row) w1 = (r, w2)" by force
  with run p have w': "w' = w2" by (simp add: relay_row_def EventsExchange_def bindS_def)
  note M = writesD [OF MarkFailed_writes m]
  show ?thesis
  proof (cases r)
    case (Inl x)
    with M V w' show ?thesis by (intro exI [of _ "{}"]) simp
  next
    case (Inr x)
    with M V w' show ?thesis by (intro exI [of _ "{om_ID row}"]) simp
  qed
qed

end

text \<open>
  C33. An event that could not be published stays: whatever the database does next, the
  same events are pending as before, and at most the retry counter of that one has changed.
\<close>

theorem publish_error_keeps_event:
  assumes "relay V G jsonb fits coll RT B CH"
    and "ch_Publish CH EventsExchange (event_message row) w = (Inl e, w1)"
    and "relay_row G RT CH row w = (u, w')"
  shows "map (\<lambda>m. m\<lparr>om_RetryCount := 0\<rparr>) (pending_rows (seen V BaseDB w')) =
      map (\<lambda>m. m\<lparr>om_RetryCount := 0\<rparr>) (pending_rows (seen V BaseDB w)) \<and>
    filter (\<lambda>m. om_ID m \<noteq> om_ID row) (pending_rows (seen V BaseDB w')) =
      filter (\<lambda>m. om_ID m \<noteq> om_ID row) (pending_rows (seen V BaseDB w))"
proof -
  have "map (\<lambda>m. m\<lparr>om_RetryCount := 0\<rparr>) (filter pending (map (\<lambda>m. if om_ID m \<in> I
      then m\<lparr>om_RetryCount := om_RetryCount m + 1\<rparr> else m) ms)) = map (\<lambda>m. m\<lparr>om_RetryCount := 0\<rparr>) (filter pending ms)"
    and "I \<subseteq> {i} \<Longrightarrow> filter (\<lambda>m. om_ID m \<noteq> i) (filter pending (map (\<lambda>m. if om_ID m \<in> I
      then m\<lparr>om_RetryCount := om_RetryCount m + 1\<rparr> else m) ms)) = filter (\<lambda>m. om_ID m \<noteq> i) (filter pending ms)"
    for I i ms by (induction ms) auto
  with relay.relay_row_failed [OF assms] show ?thesis by (auto simp: pending_rows_def)
qed

theorem publish_error_keeps_event_witness:
  "length (pending_rows (db_base (snd (relay_row ref_gorm ref_runtime ref_channel (demo_event 1 9)
     (demo_bus no_broker))))) = 2"
proof -
  let ?w = "demo_bus no_broker"
  have "fst (ch_Publish ref_channel EventsExchange (event_message (demo_event 1 9)) ?w) =
      Inl (ErrOther ''channel exception'')"
    by (simp add: ref_channel_def ref_amqp_def demo_bus_def no_broker_def)
  then have "ch_Publish ref_channel EventsExchange (event_message (demo_event 1 9)) ?w =
      (Inl (ErrOther ''channel exception''), snd (ch_Publish ref_channel EventsExchange
        (event_message (demo_event 1 9)) ?w))"
    by (metis prod.collapse)
  from conjunct1 [OF publish_error_keeps_event [OF ref_relay.relay_axioms this prod.collapse [symmetric]],
      THEN arg_cong [where f = length]]
  show ?thesis
    by (simp add: demo_bus_def ref_window_def db_get_def pending_rows_def demo_event_def)
qed

section \<open>The consumers\<close>

text \<open>
  A delivery is settled, and nothing is lost: after it was handled, the message is no longer
  outstanding; if the handler failed, it waits again in the same queue with one more retry
  on its count, or, after three, in the dead-letter queue as it came.
\<close>

theorem delivery_is_settled:
  assumes "consumer B CH RT handler"
    and "consume_one RT CH name handler (delivery_of tag m) w = (u, w')"
    and "up B w" and "wired (seen B () w)" and "find_tag tag (seen B () w) = Some (q, m)"
    and "q \<in> fst ` set queues" and "queue_of (seen B () w) q \<noteq> None"
    and "bound_to (seen B () w) EventsExchange (ms_Key m) q"
  shows "up B w' \<and> (\<exists>r w1. handler Background (ms_Key m) (ms_Body m) w = (r, w1) \<and>
    (r = Inr () \<longrightarrow> seen B () w' = drop_tag tag (seen B () w)) \<and>
    (r \<noteq> Inr () \<longrightarrow> retries m < maxRetries \<longrightarrow>
      ready (seen B () w') q = ready (seen B () w) q @ [retried tag m] \<and>
      retries (retried tag m) = retries m + 1) \<and>
    (r \<noteq> Inr () \<longrightarrow> maxRetries \<le> retries m \<longrightarrow>
      ready (seen B () w') (dlq q) = ready (seen B () w) (dlq q) @ [m\<lparr>ms_Key := dlq q\<rparr>])) \<and>
    find_tag tag (seen B () w') = None"
proof -
  from consumer.consume_one_run [OF assms(1-5)] obtain r w1
    where up: "up B w'" and h: "handler Background (ms_Key m) (ms_Body m) w = (r, w1)"
      and s: "seen B () w' = after_handling tag m r (seen B () w)" by blast
  note F = failed_kept [OF assms(4,5,6,7,8)]
  show ?thesis
  proof (cases r)
    case (Inl e)
    have "r \<noteq> Inr ()" using Inl by simp
    with up h F [of e] show ?thesis unfolding s Inl by blast
  next
    case (Inr x)
    with up h s show ?thesis by (simp add: after_handling_def)
  qed
qed

context relay
begin

lemmas workers_run = workers.handling_run

lemma audit_handled:
  assumes "handled (main_handlers L G) ''audit-consumer'' d H"
  shows "\<exists>v\<in>set H. \<exists>v'\<in>set H. \<exists>payload. payload_of L (de_Body d) = Some payload \<and>
    logged L (de_RoutingKey d) payload (tables_at v) (tables_at v')"
proof -
  from assms obtain v v' where v: "v \<in> set H" "v' \<in> set H"
    and h: "audit_Handle L (NewAuditRepository G L) Background (de_RoutingKey d) (de_Body d) v = (Inr (), v')"
    by (auto simp: handled_def main_handlers_def)
  from audit_Handle_run [OF h] v show ?thesis by auto
qed

end


text \<open>A world in which a queue's consumer has been handed a message that is no JSON.\<close>

definition demo_message :: message where
  "demo_message = \<lparr>ms_Key = ''role.assigned'', ms_Body = ''?'', ms_Headers = None\<rparr>"

definition demo_delivered :: "string \<Rightarrow> broker" where
  "demo_delivered q = map_queues (\<lambda>q' Q. if q' = q then Q\<lparr>qu_unacked := [(1, demo_message)]\<rparr> else Q)
     (topology no_broker)"

lemma find_tag_handed:
  assumes "list_all (\<lambda>(q, Q). length (qu_unacked Q) = 0) (bk_queues s)" and "q \<in> set (map fst (bk_queues s))"
  shows "find_tag tag (map_queues (\<lambda>q' Q. if q' = q then Q\<lparr>qu_unacked := [(tag, m)]\<rparr> else Q) s) = Some (q, m)"
proof -
  have "map_of (concat (map (\<lambda>(q, Q). map (\<lambda>(t, m). (t, (q, m))) (qu_unacked Q))
      (map (\<lambda>(q', Q). (q', if q' = q then Q\<lparr>qu_unacked := [(tag, m)]\<rparr> else Q)) xs))) tag = Some (q, m)"
    if "list_all (\<lambda>(q, Q). length (qu_unacked Q) = 0) xs" "q \<in> set (map fst xs)" for xs
    using that by (induction xs) (auto, force)
  from this [OF assms] show ?thesis by (simp add: find_tag_def map_queues_def)
qed

lemma demo_delivered_facts:
  "wired (demo_delivered q)" "queue_of (demo_delivered q) ''audit.queue'' \<noteq> None"
  "bound_to (demo_delivered q) EventsExchange ''role.assigned'' ''audit.queue''"
  "q \<in> {''audit.queue'', ''notification.queue''} \<Longrightarrow> find_tag 1 (demo_delivered q) = Some (q, demo_message)"
proof -
  show w: "wired (demo_delivered q)"
    unfolding demo_delivered_def by (subst wired_map) (simp_all add: wired_topology [OF compatible_no_broker])
  from bound_audit [OF w, of "''role.assigned''"] show "queue_of (demo_delivered q) ''audit.queue'' \<noteq> None"
    "bound_to (demo_delivered q) EventsExchange ''role.assigned'' ''audit.queue''" by simp_all
  have "list_all (\<lambda>(q, Q). length (qu_unacked Q) = 0) (bk_queues (topology no_broker))"
    "set (map fst (bk_queues (topology no_broker))) \<supseteq> {''audit.queue'', ''notification.queue''}"
    by code_simp+
  then show "find_tag 1 (demo_delivered q) = Some (q, demo_message)"
    if "q \<in> {''audit.queue'', ''notification.queue''}"
    using that unfolding demo_delivered_def by (intro find_tag_handed) auto
qed

lemma demo_handler_fails:
  "audit_Handle ref_lib repo c ''role.assigned'' ''?'' w = (Inl (ErrOther ''json''), w)"
proof -
  have "payload_of ref_lib ''?'' = None" by code_simp
  then show ?thesis by (simp add: audit_Handle_def failE_def)
qed

theorem delivery_is_settled_witness:
  "case consume_one ref_runtime ref_channel ''audit-consumer'' (audit_Handle ref_lib (NewAuditRepository ref_gorm ref_lib))
     (delivery_of 1 demo_message) (demo_bus (demo_delivered ''audit.queue'')) of (u, w') \<Rightarrow>
     ready (bw_broker w') ''audit.queue'' = ready (demo_delivered ''audit.queue'') ''audit.queue'' @ [retried 1 demo_message] \<and>
     find_tag 1 (bw_broker w') = None"
proof -
  have q: "''audit.queue'' \<in> fst ` set queues" by (simp add: queues_def)
  have r: "retries demo_message = 0" by (simp add: demo_message_def headerRetryCount_def)
  from delivery_is_settled [where name = "''audit-consumer''" and w = "demo_bus (demo_delivered ''audit.queue'')",
      OF ref_relay.audit.consumer_axioms [of ref_lib] prod.collapse [symmetric] demo_bus_up(1),
      unfolded demo_bus_up(2), OF demo_delivered_facts(1) demo_delivered_facts(4) q demo_delivered_facts(2)]
  show ?thesis
    using demo_delivered_facts(3) r
    by (simp add: demo_message_def demo_handler_fails maxRetries_def case_prod_beta ref_broker_window_def)
qed











context consumer
begin

lemma consume_failed:
  assumes "consume_one RT CH name handler (delivery_of tag m) w = (u, w')"
    and "up B w" and "wired (seen B () w)" and "find_tag tag (seen B () w) = Some (q, m)"
    and "fst (handler Background (ms_Key m) (ms_Body m) w) \<noteq> Inr ()"
  shows "\<exists>e. seen B () w' = after_handling tag m (Inl e) (seen B () w)"
proof -
  from consume_one_run [OF assms(1-4)] assms(5) obtain r
    where "r \<noteq> Inr ()" "seen B () w' = after_handling tag m r (seen B () w)" by auto
  then show ?thesis by (cases r) auto
qed

end

primrec attempt :: "nat \<Rightarrow> message \<Rightarrow> message" where
  "attempt 0 m = m"
| "attempt (Suc n) m = retried 0 (attempt n m)"

lemma attempt_sel [simp]: "ms_Key (attempt n m) = ms_Key m" "ms_Body (attempt n m) = ms_Body m"
  by (induction n) (simp_all add: retry_message_def)

lemma retries_attempt:
  "n \<le> nat (maxRetries - retries m) \<Longrightarrow> retries (attempt n m) = retries m + int n"
proof (induction n)
  case (Suc n)
  then have "retries (attempt n m) = retries m + int n" "retries m + int n < maxRetries" by linarith+
  moreover have "- (2 ^ 31) \<le> retries m" using headerRetryCount_range by simp
  ultimately show ?case
    using headerRetryCount_retry [of "retries m + int n" "delivery_of 0 (attempt n m)"]
    by (simp add: maxRetries_def)
qed simp

text \<open>
  C35. Retrying ends: the attempts at a message whose handling keeps failing are numbered by the
  header, which is kept at 32 bits; each is published again until the count has reached
  \<open>maxRetries\<close>, and the next is rejected to the dead letters, after three retries for a new message.
\<close>

theorem retrying_ends:
  assumes "consumer B CH RT handler"
    and "consume_one RT CH name handler (delivery_of tag (attempt k m)) w = (u, w')"
    and "up B w" and "wired (seen B () w)" and "find_tag tag (seen B () w) = Some (q, attempt k m)"
    and "fst (handler Background (ms_Key m) (ms_Body m) w) \<noteq> Inr ()"
    and "k \<le> nat (maxRetries - retries m)"
  shows "seen B () w' = (if k < nat (maxRetries - retries m)
      then drop_tag tag (route_to EventsExchange (attempt (Suc k) m) (seen B () w))
      else reject_tag tag (seen B () w)) \<and>
    (ms_Headers m = None \<longrightarrow> nat (maxRetries - retries m) = 3)"
proof -
  from consumer.consume_failed [OF assms(1-5)] assms(6) obtain e
    where s: "seen B () w' = after_handling tag (attempt k m) (Inl e) (seen B () w)" by auto
  moreover have "retries (attempt k m) < maxRetries \<longleftrightarrow> k < nat (maxRetries - retries m)"
    using retries_attempt [OF assms(7)] by linarith
  moreover have "retried tag (attempt k m) = attempt (Suc k) m" by (simp add: retry_message_def)
  ultimately show ?thesis
    by (simp add: after_handling_def headerRetryCount_def maxRetries_def not_less [symmetric])
qed

theorem retrying_ends_witness:
  "bw_broker (snd (consume_one ref_runtime ref_channel ''audit-consumer''
     (audit_Handle ref_lib (NewAuditRepository ref_gorm ref_lib)) (delivery_of 1 demo_message)
     (demo_bus (demo_delivered ''audit.queue'')))) =
   drop_tag 1 (route_to EventsExchange (attempt 1 demo_message) (demo_delivered ''audit.queue''))"
proof -
  have k: "0 \<le> nat (maxRetries - retries demo_message)" by simp
  have f: "fst (audit_Handle ref_lib (NewAuditRepository ref_gorm ref_lib) Background (ms_Key demo_message)
      (ms_Body demo_message) (demo_bus (demo_delivered ''audit.queue''))) \<noteq> Inr ()"
    by (simp add: demo_message_def demo_handler_fails)
  from retrying_ends [where name = "''audit-consumer''" and k = 0,
      unfolded attempt.simps(1), OF ref_relay.audit.consumer_axioms [of ref_lib] prod.collapse [symmetric]
        demo_bus_up(1), unfolded demo_bus_up(2), OF demo_delivered_facts(1) demo_delivered_facts(4) f k]
  show ?thesis
    by (simp add: demo_message_def headerRetryCount_def maxRetries_def ref_broker_window_def)
qed

text \<open>
  But a retry is published to the exchange, and so it goes to the other queues as well:
  when any consumer fails on a message, the audit queue gets it once more, whether or
  not its own consumer has handled it already.
\<close>

theorem retry_reaches_other_queues:
  assumes "consumer B CH RT handler"
    and "consume_one RT CH name handler (delivery_of tag m) w = (u, w')"
    and "up B w" and "wired (seen B () w)" and "find_tag tag (seen B () w) = Some (q, m)"
    and "fst (handler Background (ms_Key m) (ms_Body m) w) \<noteq> Inr ()" and "retries m < maxRetries"
  shows "ready (seen B () w') ''audit.queue'' = ready (seen B () w) ''audit.queue'' @ [retried tag m]"
proof -
  from consumer.consume_failed [OF assms(1-6)] obtain e
    where s: "seen B () w' = after_handling tag m (Inl e) (seen B () w)" by blast
  from bound_audit [OF assms(4)] show ?thesis
    unfolding s by (intro retry_copies [OF assms(7)]) simp_all
qed

theorem retry_reaches_other_queues_witness:
  "ready (bw_broker (snd (consume_one ref_runtime ref_channel ''notification-consumer''
     (notification_Handle ref_lib) (delivery_of 1 demo_message) (demo_bus (demo_delivered ''notification.queue'')))))
     ''audit.queue'' =
   ready (demo_delivered ''notification.queue'') ''audit.queue'' @ [retried 1 demo_message]"
proof -
  have "payload_of ref_lib ''?'' = None" by code_simp
  then have f: "fst (notification_Handle ref_lib Background (ms_Key demo_message) (ms_Body demo_message)
      (demo_bus (demo_delivered ''notification.queue''))) \<noteq> Inr ()"
    by (simp add: demo_message_def notification_Handle_def failE_def)
  have r: "retries demo_message < maxRetries"
    by (simp add: demo_message_def headerRetryCount_def maxRetries_def)
  from retry_reaches_other_queues [where name = "''notification-consumer''",
      OF ref_relay.notification.consumer_axioms [of ref_lib] prod.collapse [symmetric] demo_bus_up(1),
      unfolded demo_bus_up(2), OF demo_delivered_facts(1) demo_delivered_facts(4) f r]
  show ?thesis by (simp add: ref_broker_window_def)
qed

section \<open>The audit log\<close>

text \<open>
  C37. The audit consumer writes one row for an event that it reports as handled, with the
  event's type, the actor it finds in the payload, who must be a user, and a new identifier;
  nothing else in the database changes, and an error changes nothing.
\<close>

theorem audit_event_is_logged:
  assumes "gorm_contract V G jsonb fits coll"
    and "audit_Handle L (NewAuditRepository G L) c eventType body w = (r, w')"
  shows "case r of
      Inr _ \<Rightarrow> \<exists>payload. payload_of L body = Some payload \<and>
        logged L eventType payload (seen V BaseDB w) (seen V BaseDB w')
    | Inl e \<Rightarrow> seen V BaseDB w' = seen V BaseDB w"
  using gorm_contract.audit_Handle_run [OF assms] by blast

theorem audit_event_is_logged_witness:
  "case audit_Handle ref_lib (NewAuditRepository ref_gorm ref_lib) Background ''role.assigned''
     (the (json_Marshal ref_lib (JObj [(''assigned_by'', JStr (uuid_String ref_lib 1))]))) demo of (r, w') \<Rightarrow>
     r = Inr () \<and> length (tb_audit_logs (db_base w')) = Suc (length (tb_audit_logs demo_tables))"
proof -
  let ?body = "the (json_Marshal ref_lib (JObj [(''assigned_by'', JStr (uuid_String ref_lib 1))]))"
  let ?h = "audit_Handle ref_lib (NewAuditRepository ref_gorm ref_lib) Background ''role.assigned'' ?body demo"
  have ok: "fst ?h = Inr ()" by code_simp
  have "seen ref_window BaseDB demo = demo_tables"
    by (simp add: demo_def ref_window_def db_get_def)
  with audit_event_is_logged [where body = ?body, OF ref_db.gorm_contract_axioms prod.collapse [symmetric],
      of ref_lib Background "''role.assigned''" demo] ok
  show ?thesis
    by (auto simp: case_prod_beta logged_def) (simp add: ref_window_def db_get_def)
qed

end
