(* ===== verification/Startup.thy ===== *)
theory Startup
  imports Server Consumers "HOL-Library.Sublist"
begin

text \<open>
  How \<open>main\<close> of \<open>cmd/server/main.go\<close> starts and stops the server, with
  \<open>internal/platform/tracing\<close> and \<open>internal/platform/redisclient\<close>: what it needs, what it
  does without, and what runs in the end. (The log lines are left out.)
\<close>

section \<open>The libraries' constructors\<close>

text \<open>
  \<open>os.Getenv\<close>; \<open>gorm.Open\<close> on \<open>postgres.Open\<close> of a URL; \<open>redis.NewClient\<close> with address, password
  and number of the database; \<open>Ping\<close> of such a client; \<open>Run\<close> of the router on an address, which
  serves the requests and returns only with an error (\<open>Inl\<close>): without one it is still serving when the
  program gets its signal (\<open>Inr\<close>).
\<close>

record 'w clients =
  os_Getenv :: "string \<Rightarrow> string"
  gorm_Open :: "string \<Rightarrow> ('w, error, 'w gorm) cmd"
  redis_NewClient :: "string \<Rightarrow> string \<Rightarrow> int \<Rightarrow> 'w redis"
  redis_Ping :: "'w redis \<Rightarrow> ('w, error, unit) cmd"
  gin_Run :: "'w handler \<Rightarrow> string \<Rightarrow> ('w, error, unit) cmd"

text \<open>
  OpenTelemetry: \<open>otlptracehttp.New\<close> with the endpoint, without TLS; \<open>resource.New\<close> with the
  service's name; \<open>NewTracerProvider\<close> on the two; the two global settings; \<open>Shutdown\<close> of a provider.
\<close>

datatype propagator = TraceContext | Baggage

record 'w otel =
  ot_NewExporter :: "string \<Rightarrow> ('w, error, nat) cmd"
  ot_NewResource :: "string \<Rightarrow> ('w, error, nat) cmd"
  ot_NewTracerProvider :: "nat \<Rightarrow> nat \<Rightarrow> 'w \<Rightarrow> nat \<times> 'w"
  ot_SetTracerProvider :: "nat \<Rightarrow> 'w \<Rightarrow> 'w"
  ot_SetTextMapPropagator :: "propagator list \<Rightarrow> 'w \<Rightarrow> 'w"
  ot_Shutdown :: "nat \<Rightarrow> ('w, error, unit) cmd"

section \<open>tracing.go, redisclient.go\<close>

definition tracing_Init :: "'w otel \<Rightarrow> string \<Rightarrow> string \<Rightarrow> ('w, error, ('w, error, unit) cmd) cmd" where
  "tracing_Init T serviceName jaegerEndpoint =
     bindE (ot_NewExporter T jaegerEndpoint) (\<lambda>exporter.
     bindE (ot_NewResource T serviceName) (\<lambda>res.
     bindS (ot_NewTracerProvider T exporter res) (\<lambda>tp.
     doS (ot_SetTracerProvider T tp)
     (doS (ot_SetTextMapPropagator T [TraceContext, Baggage])
     (okE (ot_Shutdown T tp))))))"

definition redisclient_New :: "'w clients \<Rightarrow> string \<Rightarrow> string \<Rightarrow> int \<Rightarrow> 'w redis" where
  "redisclient_New OS addr password db = redis_NewClient OS addr password db"

section \<open>main\<close>

text \<open>
  What there is when \<open>main\<close> begins to serve: the router; what stops the tracing; the
  connection to RabbitMQ with the relay and the consumers that started, by the queue they read.
\<close>

record 'w server =
  sv_router :: "'w handler"
  sv_shutdown :: "('w, error, unit) cmd option"
  sv_conn :: "'w Conn option"
  sv_relay :: "(relay_event list \<Rightarrow> 'w \<Rightarrow> unit \<times> 'w) option"
  sv_consumers :: "(string \<times> 'w consumer_loop) list"

definition started :: "string \<Rightarrow> 'w consumer_loop option \<Rightarrow> (string \<times> 'w consumer_loop) list" where
  "started queue r = (case r of None \<Rightarrow> [] | Some loop \<Rightarrow> [(queue, loop)])"

definition start_consumers ::
  "lib \<Rightarrow> 'w gorm \<Rightarrow> 'w runtime \<Rightarrow> 'w channel \<Rightarrow> 'w \<Rightarrow> (string \<times> 'w consumer_loop) list \<times> 'w" where
  "start_consumers L G RT CH =
     bindS (audit_consumer L G RT CH) (\<lambda>a.
     bindS (notification_consumer L RT CH) (\<lambda>n.
     bindS (analytics_consumer L RT CH) (\<lambda>y.
     Pair (started ''audit.queue'' a @ started ''notification.queue'' n @ started ''analytics.queue'' y))))"

text \<open>Connecting to RabbitMQ: without it the relay and the consumers do not start.\<close>

definition start_background ::
  "'w amqplib \<Rightarrow> lib \<Rightarrow> 'w gorm \<Rightarrow> 'w runtime \<Rightarrow> string \<Rightarrow> 'w server \<Rightarrow> 'w \<Rightarrow> 'w server \<times> 'w" where
  "start_background A L G RT url sv =
     bindS (Connect A url) (\<lambda>r.
     case r of
       Inl err \<Rightarrow> Pair sv
     | Inr conn \<Rightarrow>
         bindS (start_consumers L G RT (cn_ch conn)) (\<lambda>loops.
         Pair (sv\<lparr>sv_conn := Some conn, sv_relay := Some (Run G RT (cn_ch conn)), sv_consumers := loops\<rparr>)))"

text \<open>
  \<open>main\<close> up to where it serves; \<open>log.Fatalf\<close> ends the program, with the error as the result. The
  clients, the tracing and the AMQP library, and what the server's parts use, are parameters.
\<close>

definition startup ::
  "'w clients \<Rightarrow> 'w otel \<Rightarrow> 'w amqplib \<Rightarrow> lib \<Rightarrow> ginlib \<Rightarrow> jwtlib \<Rightarrow> 'w runtime \<Rightarrow> 'w tracer \<Rightarrow> 'w handler \<Rightarrow>
   ('w, error, 'w server) cmd" where
  "startup OS T A L GL J RT TR prom =
     (let cfg = Load (os_Getenv OS) in
      bindE (gorm_Open OS (cfg_DatabaseURL cfg)) (\<lambda>db.
      (let rdb = redisclient_New OS (cfg_RedisAddr cfg) (cfg_RedisPassword cfg) 0 in
       bindS (redis_Ping OS rdb) (\<lambda>_.
       bindS (tracing_Init T ''rbac-platform'' (cfg_JaegerEndpoint cfg)) (\<lambda>t.
       bindS (start_background A L db RT (cfg_RabbitMQURL cfg)
         \<lparr>sv_router = router L GL J RT TR prom db rdb cfg,
          sv_shutdown = (case t of Inl tErr \<Rightarrow> None | Inr shutdown \<Rightarrow> Some shutdown),
          sv_conn = None, sv_relay = None, sv_consumers = []\<rparr>) okE)))))"

text \<open>
  After the signal: the deferred calls, the last one first. The context is cancelled before, and
  that ends the relay and the consumers (\<open>CtxDone\<close>, \<open>Done\<close>).
\<close>

definition stop :: "'w amqplib \<Rightarrow> 'w server \<Rightarrow> 'w \<Rightarrow> unit \<times> 'w" where
  "stop A sv =
     doS (case sv_conn sv of None \<Rightarrow> id | Some conn \<Rightarrow> conn_Close A conn)
     (case sv_shutdown sv of None \<Rightarrow> Pair () | Some shutdown \<Rightarrow> bindS shutdown (\<lambda>_. Pair ()))"

text \<open>
  The whole of \<open>main\<close>. When the server fails, \<open>log.Fatalf\<close> ends the program at once: the deferred
  calls are not made.
\<close>

definition program ::
  "'w clients \<Rightarrow> 'w otel \<Rightarrow> 'w amqplib \<Rightarrow> lib \<Rightarrow> ginlib \<Rightarrow> jwtlib \<Rightarrow> 'w runtime \<Rightarrow> 'w tracer \<Rightarrow> 'w handler \<Rightarrow>
   ('w, error, unit) cmd" where
  "program OS T A L GL J RT TR prom =
     bindE (startup OS T A L GL J RT TR prom) (\<lambda>sv.
     bindE (gin_Run OS (sv_router sv) ('':'' @ cfg_Port (Load (os_Getenv OS)))) (\<lambda>_.
     bindS (stop A sv) okE))"

section \<open>What starts\<close>

lemma start_background_cases:
  assumes "start_background A L G RT url sv w = (sv', w')"
  obtains (offline) e where "Connect A url w = (Inl e, w')" "sv' = sv"
  | (online) conn loops w1 where "Connect A url w = (Inr conn, w1)"
      "start_consumers L G RT (cn_ch conn) w1 = (loops, w')"
      "sv' = sv\<lparr>sv_conn := Some conn, sv_relay := Some (Run G RT (cn_ch conn)), sv_consumers := loops\<rparr>"
  using assms by (auto simp: start_background_def bindS_def split: sum.splits prod.splits)

lemma startConsumer_run:
  assumes "startConsumer RT CH q name h w = (r, w')"
  shows "\<exists>r1. ch_Consume CH q w = (r1, w') \<and>
    r = (case r1 of Inl e \<Rightarrow> None | Inr _ \<Rightarrow> Some (consume_loop RT CH name h))"
  using assms by (cases "ch_Consume CH q w")
    (auto simp: startConsumer_def Consume_def bindS_def bindE_def okE_def split: sum.splits)

text \<open>The queues whose consumers have started are some of the program's, each at most once.\<close>

lemma start_consumers_queues:
  assumes "start_consumers L G RT CH w = (loops, w')"
  shows "subseq (map fst loops) (map fst queues)"
proof -
  have "map fst (started q r) \<in> {[], [q]}" for q and r :: "'a consumer_loop option"
    by (cases r) (simp_all add: started_def)
  then have *: "subseq (map fst (started q r)) [q]" for q and r :: "'a consumer_loop option"
    by (metis insert_iff empty_iff list_emb_Nil subseq_order.refl)
  from assms obtain a n y where "loops =
      started ''audit.queue'' a @ started ''notification.queue'' n @ started ''analytics.queue'' y"
    by (auto simp: start_consumers_def bindS_def split: prod.splits)
  with list_emb_append_mono [OF * [of "''audit.queue''" a]
      list_emb_append_mono [OF * [of "''notification.queue''" n] * [of "''analytics.queue''" y]]]
  show ?thesis by (simp add: queues_def)
qed

context broker_contract
begin

lemma startConsumer_up:
  assumes run: "startConsumer RT CH q name h w = (r, w')"
    and "up B w" and "queue_of (seen B () w) q \<noteq> None"
  shows "r = Some (consume_loop RT CH name h) \<and> up B w' \<and> seen B () w' = seen B () w"
proof -
  from startConsumer_run [OF run] obtain r1 where c: "ch_Consume CH q w = (r1, w')"
    and r: "r = (case r1 of Inl e \<Rightarrow> None | Inr _ \<Rightarrow> Some (consume_loop RT CH name h))" by blast
  from rpcD(3) [OF ConsumeCall c assms(2,3)] r show ?thesis by simp
qed

lemma start_consumers_up:
  assumes run: "start_consumers L G RT CH w = (loops, w')" and "up B w" and "wired (seen B () w)"
  shows "map fst loops = map fst queues \<and> up B w' \<and> seen B () w' = seen B () w"
proof -
  from assms(3) have q: "queue_of (seen B () w) ''audit.queue'' \<noteq> None"
    "queue_of (seen B () w) ''notification.queue'' \<noteq> None"
    "queue_of (seen B () w) ''analytics.queue'' \<noteq> None"
    by (auto simp: wired_def wired_queue_def queues_def bind_eq_Some_conv)
  from run obtain a w1 n w2 y where a: "audit_consumer L G RT CH w = (a, w1)"
    and n: "notification_consumer L RT CH w1 = (n, w2)" and y: "analytics_consumer L RT CH w2 = (y, w')"
    and loops: "loops =
      started ''audit.queue'' a @ started ''notification.queue'' n @ started ''analytics.queue'' y"
    by (auto simp: start_consumers_def bindS_def split: prod.splits)
  note A = startConsumer_up [OF a [unfolded audit_consumer_def] assms(2) q(1)]
  from A q n have N: "n \<noteq> None \<and> up B w2 \<and> seen B () w2 = seen B () w"
    using startConsumer_up [of RT "''notification.queue''" _ _ w1 n w2]
    by (fastforce simp: notification_consumer_def)
  with q y have "y \<noteq> None \<and> up B w' \<and> seen B () w' = seen B () w"
    using startConsumer_up [of RT "''analytics.queue''" _ _ w2 y w']
    by (fastforce simp: analytics_consumer_def)
  with A N loops show ?thesis by (auto simp: started_def queues_def)
qed

end

end
