(* ===== verification/System.thy ===== *)
theory System
  imports Access Startup
begin

text \<open>
  The whole program at work: requests, ticks of the relay and deliveries to the consumers, one
  after the other in any order, and what a run of them can do to the accounts and their rights.
\<close>

section \<open>Runs of the server\<close>

text \<open>
  \<open>server_run qs w w'\<close>: from \<open>w\<close> the server has come to \<open>w'\<close>, having served the requests \<open>qs\<close>.
  In between the relay runs, consumers handle deliveries, and outside the database anything may
  happen: Redis forgets keys, the broker hands out messages, other programs publish.
\<close>

inductive server_run for V :: "(conn, 'w, tables, 'o) window" and L :: lib and GL :: ginlib
    and J :: jwtlib and RT :: "'w runtime" and TR :: "'w tracer" and prom :: "'w handler"
    and G :: "'w gorm" and D :: "'w redis" and cfg :: Config and CH :: "'w channel" where
  idle: "server_run V L GL J RT TR prom G D cfg CH [] w w"
| served: "server_run V L GL J RT TR prom G D cfg CH qs w w1 \<Longrightarrow>
    router L GL J RT TR prom G D cfg (new_context q) w1 = (c, w2) \<Longrightarrow>
    server_run V L GL J RT TR prom G D cfg CH (qs @ [q]) w w2"
| relayed: "server_run V L GL J RT TR prom G D cfg CH qs w w1 \<Longrightarrow> Run G RT CH es w1 = (u, w2) \<Longrightarrow>
    server_run V L GL J RT TR prom G D cfg CH qs w w2"
| audited: "server_run V L GL J RT TR prom G D cfg CH qs w w1 \<Longrightarrow>
    consume_one RT CH name (audit_Handle L (NewAuditRepository G L)) d w1 = (u, w2) \<Longrightarrow>
    server_run V L GL J RT TR prom G D cfg CH qs w w2"
| notified: "server_run V L GL J RT TR prom G D cfg CH qs w w1 \<Longrightarrow>
    consume_one RT CH name (notification_Handle L) d w1 = (u, w2) \<Longrightarrow>
    server_run V L GL J RT TR prom G D cfg CH qs w w2"
| analysed: "server_run V L GL J RT TR prom G D cfg CH qs w w1 \<Longrightarrow>
    consume_one RT CH name (analytics_Handle L) d w1 = (u, w2) \<Longrightarrow>
    server_run V L GL J RT TR prom G D cfg CH qs w w2"
| elsewhere: "server_run V L GL J RT TR prom G D cfg CH qs w w1 \<Longrightarrow>
    seen V BaseDB w2 = seen V BaseDB w1 \<Longrightarrow>
    server_run V L GL J RT TR prom G D cfg CH qs w w2"

section \<open>The background leaves accounts and rights alone\<close>

text \<open>All of the store but the outbox: the relay marks events there.\<close>

definition sans_events :: "store \<Rightarrow> store" where
  "sans_events s = s\<lparr>st_events := []\<rparr>"

lemma sans_events_outbox:
  "sans_events (store_of (T\<lparr>tb_outbox_events := es\<rparr>)) = sans_events (store_of T)"
  unfolding sans_events_def by (rule store.equality) simp_all

lemma sans_events_audit: "store_of (T\<lparr>tb_audit_logs := ls\<rparr>) = store_of T"
  by (rule store.equality) simp_all

lemma keeps_doS [keeps_intros]:
  "(\<And>w. obs (f w) = obs w) \<Longrightarrow> keeps obs m \<Longrightarrow> keeps obs (doS f m)"
  by (simp add: keeps_def doS_def)

context relay
begin

abbreviation rights :: "'w \<Rightarrow> store" where
  "rights w \<equiv> sans_events (store_of (tables_at w))"

lemma keeps_tables: "reads V BaseDB Q m \<Longrightarrow> keeps rights m"
  by (rule keepsI) (auto dest!: readsD dest: untouched_seen [where d = BaseDB])

lemma keeps_sends:
  assumes "sends B P f m"
  shows "keeps rights m"
proof (rule keepsI)
  fix w a w' assume "m w = (a, w')"
  from apart_sym_rest [OF sendsD(1) [OF assms this], of BaseDB] show "rights w' = rights w" by simp
qed

lemmas keeps_channel = keeps_sends [OF Publish] keeps_sends [OF Ack] keeps_sends [OF Nack]

lemma keeps_marks: "keeps rights (MarkSent G RT i)" "keeps rights (MarkFailed G i)"
proof -
  show "keeps rights (MarkSent G RT i)"
  proof (rule keepsI)
    fix w r w' assume m: "MarkSent G RT i w = (r, w')"
    from writesD [OF MarkSent_writes m] show "rights w' = rights w"
      by (cases r) (auto simp: sans_events_outbox)
  qed
  show "keeps rights (MarkFailed G i)"
  proof (rule keepsI)
    fix w r w' assume m: "MarkFailed G i w = (r, w')"
    from writesD [OF MarkFailed_writes m] show "rights w' = rights w"
      by (cases r) (auto simp: sans_events_outbox)
  qed
qed

lemma keeps_relay_rows: "keeps rights (relay_rows G RT CH rows)"
proof (induction rows)
  case Nil
  show ?case by (simp add: keeps_def)
next
  case (Cons row rows)
  have "keeps rights (relay_row G RT CH row)"
    unfolding relay_row_def
    using keeps_channel keeps_marks by (auto intro!: keeps_intros simp: Inc_seen keeps_def [of _ "Pair ()"])
  with Cons show ?case by (auto intro!: keeps_intros)
qed

lemma keeps_Run: "keeps rights (Run G RT CH es)"
proof (induction es)
  case Nil
  show ?case by (simp add: keeps_def)
next
  case (Cons e es)
  have "keeps rights (relayBatch G RT CH)"
    unfolding relayBatch_def
    using keeps_tables [OF FetchPending_reads] keeps_relay_rows
    by (auto intro!: keeps_intros simp: keeps_def [of _ "Pair ()"])
  moreover have "keeps rights (recordLag G RT)"
    unfolding recordLag_def
    using keeps_tables [OF OldestPendingAge_reads]
    by (auto intro!: keeps_intros simp: SetLag_seen keeps_def [of _ "Pair ()"])
  ultimately show ?case
    using Cons by (cases e) (auto intro!: keeps_intros simp: keeps_def [of _ "Pair ()"])
qed

lemma keeps_consume_one:
  assumes "\<And>k b. keeps rights (handler Background k b)"
  shows "keeps rights (consume_one RT CH name handler d)"
  unfolding consume_one_def Let_def
  using assms keeps_channel by (auto intro!: keeps_intros simp: Inc_seen keeps_def [of _ "Pair ()"])

lemma keeps_audit_Handle: "keeps rights (audit_Handle L (NewAuditRepository G L) c k b)"
proof (rule keepsI)
  fix w r w' assume h: "audit_Handle L (NewAuditRepository G L) c k b w = (r, w')"
  from audit_Handle_run [OF h] show "rights w' = rights w"
    by (auto simp: logged_def sans_events_audit split: sum.splits)
qed

lemma keeps_log_only:
  "keeps rights (notification_Handle L c k b)" "keeps rights (analytics_Handle L c k b)"
  unfolding notification_Handle_def analytics_Handle_def by (auto intro!: keeps_intros)

lemmas keeps_consumers = keeps_audit_Handle [THEN keeps_consume_one]
  keeps_log_only(1) [THEN keeps_consume_one] keeps_log_only(2) [THEN keeps_consume_one]

end

section \<open>Requests without a token\<close>

text \<open>
  \<open>only_signups s s'\<close>: roles, permissions and grants are the same; no account and no assignment is
  lost, and what is assigned in addition is the default role, to a new account.
\<close>

definition only_signups :: "store \<Rightarrow> store \<Rightarrow> bool" where
  "only_signups s s' \<longleftrightarrow>
     st_roles s' = st_roles s \<and> st_perms s' = st_perms s \<and> st_grant s' = st_grant s \<and>
     st_users s \<subseteq> st_users s' \<and> st_assign s \<subseteq> st_assign s' \<and>
     (\<forall>i r. (i, r) \<in> st_assign s' \<longrightarrow> (i, r) \<notin> st_assign s \<longrightarrow> i \<notin> u_ID ` st_users s \<and>
        (\<exists>d\<in>st_roles s. r_Name d = ''developer'' \<and> r_ID d = r))"

lemma only_signups_refl [simp]: "only_signups s s"
  by (simp add: only_signups_def)

lemma only_signups_trans:
  assumes "only_signups s t" and "only_signups t u"
  shows "only_signups s u"
proof -
  note S = assms(1) [unfolded only_signups_def] and T = assms(2) [unfolded only_signups_def]
  have "i \<notin> u_ID ` st_users s \<and> (\<exists>d\<in>st_roles s. r_Name d = ''developer'' \<and> r_ID d = r)"
    if "(i, r) \<in> st_assign u" "(i, r) \<notin> st_assign s" for i r
  proof (cases "(i, r) \<in> st_assign t")
    case True
    with S that show ?thesis by blast
  next
    case False
    with T that have "i \<notin> u_ID ` st_users t" "\<exists>d\<in>st_roles t. r_Name d = ''developer'' \<and> r_ID d = r"
      by blast+
    moreover from S have "u_ID ` st_users s \<subseteq> u_ID ` st_users t" "st_roles t = st_roles s" by auto
    ultimately show ?thesis by auto
  qed
  with S T show ?thesis unfolding only_signups_def by auto
qed

lemma sans_commute: "sans_tokens (sans_events s) = sans_events (sans_tokens s)"
  by (simp add: sans_tokens_def sans_events_def)

lemma only_signups_cong:
  assumes "sans_tokens (sans_events s') = sans_tokens (sans_events s)"
  shows "only_signups s s'"
proof -
  from assms have "st_roles s' = st_roles s" "st_perms s' = st_perms s" "st_grant s' = st_grant s"
    "st_users s' = st_users s" "st_assign s' = st_assign s"
    by (cases s; cases s'; simp add: sans_tokens_def sans_events_def)+
  then show ?thesis by (simp add: only_signups_def)
qed

lemma only_signups_signed_up: "signed_up h email name u s s' \<Longrightarrow> only_signups s s'"
  by (auto simp: signed_up_def default_assignment_def only_signups_def) (metis imageI)+

text \<open>The rights of those who had an account are the same.\<close>

lemma only_signups_perms:
  assumes "only_signups s s'" and "u \<in> u_ID ` st_users s"
  shows "perm_names s' u = perm_names s u"
proof -
  from assms have "(u, r) \<in> st_assign s' \<longleftrightarrow> (u, r) \<in> st_assign s" for r
    unfolding only_signups_def by blast
  with assms(1) show ?thesis by (simp add: only_signups_def perm_names_def user_perms_def)
qed

definition bears_no_token :: "(string \<Rightarrow> Claims \<Rightarrow> bool) \<Rightarrow> request \<Rightarrow> bool" where
  "bears_no_token valid q \<longleftrightarrow>
     (\<forall>tok cl. rq_Header q ''Authorization'' = ''Bearer '' @ tok \<longrightarrow> \<not> valid tok cl)"

context web
begin

lemma passed_store: "passed w w' \<Longrightarrow> db_store V w' = db_store V w"
  by (simp add: passed_def)

lemma outsider_effect:
  assumes run: "router L GL J RT TR prom G D cfg (new_context q) w = (c', w')"
    and q: "bears_no_token (authentic SigningMethodHMAC (cfg_JWTSecret cfg)) q"
  shows "only_signups (db_store V w) (db_store V w')"
  using router_run [OF run new_context_sel(4)]
proof (elim disjE exE conjE)
  assume "passed w w'"
  then show ?thesis by (simp add: passed_store)
next
  fix w1 c2 w2
  assume p: "passed w w1" "passed w2 w'"
    and d: "dispatch (routes L GL J RT prom G D cfg) (new_context q) w1 = (c2, w2)"
  from d have "only_signups (db_store V w1) (db_store V w2)"
  proof (cases rule: dispatch_cases)
    case (route h)
    from route(1) show ?thesis
    proof (cases rule: routes_cases)
      case reads
      from keepsD [OF reads route(2)] show ?thesis
        by (intro only_signups_cong) (simp add: sans_commute)
    next
      case signup
      from auth_Signup_run [OF route(2) [unfolded signup(2)]] only_signups_signed_up show ?thesis by auto
    next
      case (protected h')
      have "\<not> holds_token cfg (gc_Request (new_context q)) cl w1" for cl
        using q by (auto simp: holds_token_def bears_no_token_def)
      with JWTAuth_run [OF route(2) [unfolded protected(1)]] have "passed w1 w2" by blast
      then show ?thesis by (simp add: passed_store)
    qed
  qed simp
  with p show ?thesis by (simp add: passed_store)
qed

end

section \<open>The program\<close>

locale server = web V G jsonb fits coll RT K D ttl L J authentic plain_claims GL TR prom +
  bg: relay V G jsonb fits coll RT B CH
  for V :: "(conn, 'w, tables, 'o) window" and G jsonb fits coll and RT :: "'w runtime"
    and K :: "(unit, 'w, redis_state, 'q) window" and D ttl L J authentic plain_claims GL
    and TR :: "'w tracer" and prom and B :: "(unit, 'w, broker, 'p) window" and CH
begin

lemma outsiders_run:
  assumes "server_run V L GL J RT TR prom G D cfg CH qs w w'"
    and "\<forall>q\<in>set qs. bears_no_token (authentic SigningMethodHMAC (cfg_JWTSecret cfg)) q"
  shows "only_signups (db_store V w) (db_store V w')"
  using assms
proof (induction rule: server_run.induct)
  case (served qs w w1 q c w2)
  with outsider_effect [OF served.hyps(2)] show ?case by (auto intro: only_signups_trans)
next
  case (relayed qs w w1 es u w2)
  then have "only_signups (db_store V w1) (db_store V w2)"
    using keepsD [OF bg.keeps_Run] by (intro only_signups_cong) simp
  with relayed show ?case by (blast intro: only_signups_trans)
next
  case (audited qs w w1 name d u w2)
  then have "only_signups (db_store V w1) (db_store V w2)"
    using keepsD [OF bg.keeps_consumers(1)] by (intro only_signups_cong) simp
  with audited show ?case by (blast intro: only_signups_trans)
next
  case (notified qs w w1 name d u w2)
  then have "only_signups (db_store V w1) (db_store V w2)"
    using keepsD [OF bg.keeps_consumers(2)] by (intro only_signups_cong) simp
  with notified show ?case by (blast intro: only_signups_trans)
next
  case (analysed qs w w1 name d u w2)
  then have "only_signups (db_store V w1) (db_store V w2)"
    using keepsD [OF bg.keeps_consumers(3)] by (intro only_signups_cong) simp
  with analysed show ?case by (blast intro: only_signups_trans)
qed simp_all

end

interpretation ref_server: server ref_window ref_gorm Some "\<lambda>_. True" ref_coll ref_runtime
  ref_redis_window ref_redis "\<lambda>d. d" ref_lib ref_jwt ref_authentic ref_plain ref_gin ref_tracer
  "JSON 200 JNull" ref_broker_window ref_channel
  by (intro server.intro ref_web.web_axioms ref_relay.relay_axioms)

end
