(* ===== verification/Props_System.thy ===== *)
theory Props_System
  imports System
begin

text \<open>
  Properties of the whole program: how it starts when parts of its surroundings are missing, what a
  run of it can do for those without a token, and the way of an assignment into the audit log.
\<close>

section \<open>Starting\<close>



definition ref_dial :: "error option \<Rightarrow> 'x broker_world_scheme amqplib" where
  "ref_dial e = \<lparr>am_Dial = (\<lambda>_. case e of None \<Rightarrow> okE 1 | Some e \<Rightarrow> failE e),
     am_Channel = (\<lambda>_. okE ref_channel), am_CloseChannel = (\<lambda>_. id), am_CloseConn = (\<lambda>_. id)\<rparr>"

text \<open>The example world with a broker that has just been started.\<close>

definition demo_broker :: broker_world where
  "demo_broker = \<lparr>db_base = demo_tables, db_tx = no_tables, db_faults = [], db_clock = 100,
     rw_state = \<lparr>rs_keys = (\<lambda>_. None), rs_now = 0\<rparr>, rw_faults = [], bw_broker = no_broker, bw_faults = []\<rparr>"

lemma demo_broker_up:
  "up ref_broker_window demo_broker" "seen ref_broker_window () demo_broker = no_broker"
  "compatible no_broker"
  by (simp_all add: demo_broker_def ref_broker_window_def compatible_def agrees_def no_broker_def
      case_prod_beta)




text \<open>
  C26. With a broker that is up and accepts the connection, everything in the background starts: the
  relay and all three consumers, on a topology that is complete by then.
\<close>

theorem background_starts:
  assumes "broker_contract B CH" and "am_Dial A url w = (Inr k, w1)" and "am_Channel A k w1 = (Inr CH, w2)"
    and "up B w2" and "compatible (seen B () w2)"
    and "start_background A L G RT url sv w = (sv', w')"
  shows "sv_conn sv' = Some \<lparr>cn_conn = k, cn_ch = CH\<rparr> \<and> sv_relay sv' = Some (Run G RT CH) \<and>
    map fst (sv_consumers sv') = map fst queues \<and> up B w' \<and> wired (seen B () w')"
proof -
  obtain r w3 where t: "setupTopology CH w2 = (r, w3)" by force
  with broker_contract.setupTopology_does [OF assms(1)] assms(4,5)
  have T: "r = Inr ()" "up B w3" "seen B () w3 = topology (seen B () w2)" by (auto simp: does_def)
  note W = wired_topology [OF assms(5)]
  from t T(1) assms(2,3) have "Connect A url w = (Inr \<lparr>cn_conn = k, cn_ch = CH\<rparr>, w3)"
    by (simp add: Connect_def bindE_def bindS_def Let_def okE_def)
  with assms(6) obtain loops where loops: "start_consumers L G RT CH w3 = (loops, w')"
    and sv': "sv' = sv\<lparr>sv_conn := Some \<lparr>cn_conn = k, cn_ch = CH\<rparr>, sv_relay := Some (Run G RT CH),
      sv_consumers := loops\<rparr>"
    by (auto elim!: start_background_cases)
  from broker_contract.start_consumers_up [OF assms(1) loops T(2)] T(3) W sv' show ?thesis by simp
qed

theorem background_starts_witness:
  "map fst (sv_consumers (fst (start_background (ref_dial None) ref_lib ref_gorm ref_runtime []
     \<lparr>sv_router = Pair, sv_shutdown = None, sv_conn = None, sv_relay = None, sv_consumers = []\<rparr> demo_broker))) =
   [''audit.queue'', ''notification.queue'', ''analytics.queue'']"
  using background_starts [where A = "ref_dial None" and w = demo_broker and k = 1 and ?w1.0 = demo_broker
      and ?w2.0 = demo_broker and url = "[]",
      OF ref_broker.broker_contract_axioms _ _ _ _ prod.collapse [symmetric]] demo_broker_up
  by (simp add: ref_dial_def okE_def queues_def)

section \<open>Those without a token\<close>

text \<open>
  C28. In any run of the program, requests, relay and consumers in any order, requests that
  bear no token the server's secret vouches for change nothing about roles, permissions and
  grants; they take no account and no assignment away, and give no user who had an account a right he
  did not have. All they can do is sign up: a new account gets at most the default role.
\<close>

theorem outsiders_gain_nothing:
  assumes "server V G jsonb fits coll RT K D ttl L J authentic plain_claims GL TR prom B CH"
    and "server_run V L GL J RT TR prom G D cfg CH qs w w'"
    and "\<forall>q\<in>set qs. bears_no_token (authentic SigningMethodHMAC (cfg_JWTSecret cfg)) q"
  shows "only_signups (db_store V w) (db_store V w') \<and>
    (\<forall>u\<in>u_ID ` st_users (db_store V w). perm_names (db_store V w') u = perm_names (db_store V w) u)"
  using server.outsiders_run [OF assms] only_signups_perms by blast

text \<open>A request for the list of users, with a header that is no token.\<close>

definition demo_visit :: request where
  "demo_visit = \<lparr>rq_Method = ''GET'', rq_Header = (\<lambda>_. ''Basic''), rq_Param = (\<lambda>_. []), rq_Query = (\<lambda>_. None),
     rq_Body = [], rq_ClientIP = ''10.0.0.1'', rq_FullPath = ''/api/v1/users''\<rparr>"

theorem outsiders_gain_nothing_witness:
  "perm_names (db_store ref_window (snd (Run ref_gorm ref_runtime ref_channel [Tick]
     (snd (router ref_lib ref_gin ref_jwt ref_runtime ref_tracer (JSON 200 JNull) ref_gorm ref_redis
       (Load (\<lambda>_. [])) (new_context demo_visit) demo_broker))))) 1 = {''assign_role''}"
proof -
  let ?w1 = "snd (router ref_lib ref_gin ref_jwt ref_runtime ref_tracer (JSON 200 JNull) ref_gorm ref_redis
      (Load (\<lambda>_. [])) (new_context demo_visit) demo_broker)"
  have run: "server_run ref_window ref_lib ref_gin ref_jwt ref_runtime ref_tracer (JSON 200 JNull) ref_gorm
      ref_redis (Load (\<lambda>_. [])) ref_channel ([] @ [demo_visit]) demo_broker
      (snd (Run ref_gorm ref_runtime ref_channel [Tick] ?w1))"
    by (rule server_run.relayed [OF server_run.served [OF server_run.idle]]) (rule prod.collapse [symmetric])+
  have "\<forall>q\<in>set ([] @ [demo_visit]). bears_no_token valid q" for valid
    by (simp add: bears_no_token_def demo_visit_def)
  from outsiders_gain_nothing [OF ref_server.server_axioms run this]
  have "1 \<in> u_ID ` st_users (db_store ref_window demo_broker) \<longrightarrow>
      perm_names (db_store ref_window (snd (Run ref_gorm ref_runtime ref_channel [Tick] ?w1))) 1 =
      perm_names (db_store ref_window demo_broker) 1" by blast
  moreover have "seen ref_window BaseDB demo_broker = demo_tables"
    by (simp add: demo_broker_def ref_window_def db_get_def)
  moreover have "1 \<in> u_ID ` st_users (store_of demo_tables)"
    by (simp add: store_ids demo_tables_def demo_user_def del: store_of_sel)
  moreover have "perm_names (store_of demo_tables) 1 = {''assign_role''}"
    by (auto simp: perm_names_def user_perms_def demo_tables_def no_tables_def fromPermissionModel_def) force
  ultimately show ?thesis by (simp del: store_of_sel)
qed

section \<open>From the assignment to the audit log\<close>

text \<open>
  C36. The way of an assignment through the program: after \<open>AssignRoleToUser\<close> reports success and the
  relay has run on at most fifty pending events, with database and broker up, a message
  with the assignment waits in the audit queue; and whenever the audit consumer reports it as
  handled, the audit log has one more entry, \<open>role.assigned\<close>, whose actor is who assigned.
  This rests on the payload still having its field \<open>assigned_by\<close> when it is read back from
  the \<open>jsonb\<close> column, and on parsing what a UUID prints as.
\<close>

theorem assignment_reaches_audit_log:
  assumes P: "pg_platform V G jsonb fits coll RT K D ttl L" and R: "relay V G jsonb fits coll RT B CH"
    and a: "AssignRoleToUser L RT (rbacSvc G D L) Background u i a w = (Inr (), w1)"
    and b: "relayBatch G RT CH w1 = (x, w2)"
    and run: "up V w1" "up B w1" "wired (seen B () w1)"
    and few: "length (pending_rows (seen V BaseDB w1)) \<le> 50"
    and json: "\<And>s. encodes L jsonb (role_assigned L u i a) s \<Longrightarrow> \<exists>fs. json_Unmarshal L s = Some (JObj fs) \<and>
      field (JObj fs) ''assigned_by'' = Some (JStr (uuid_String L a))"
    and uuid: "uuid_Parse L (uuid_String L a) = Some a"
  shows "\<exists>m\<in>set (ready (seen B () w2) ''audit.queue''). ms_Key m = ''role.assigned'' \<and>
    (\<forall>c w3 w4. audit_Handle L (NewAuditRepository G L) c (ms_Key m) (ms_Body m) w3 = (Inr (), w4) \<longrightarrow>
      (\<exists>e. tb_audit_logs (seen V BaseDB w4) = tb_audit_logs (seen V BaseDB w3) @ [e] \<and>
        am_Action e = ''role.assigned'' \<and> am_ActorID e = Some a))"
proof -
  from pg_platform.AssignRoleToUser_run(1) [OF P a] obtain s
    where s: "encodes L jsonb (role_assigned L u i a) s"
      and ev: "(''role.assigned'', s, ''pending'') \<in> set (st_events (db_store V w1))"
    by (auto simp: committed_def recorded_def simp del: store_of_sel)
  from ev obtain e where e: "e \<in> set (pending_rows (seen V BaseDB w1))"
    "om_EventType e = ''role.assigned''" "om_Payload e = s"
    by (auto simp: pending_rows_def)
  from relay.relayBatch_reaches_audit [OF R b _ few] run
  obtain zs where zs: "mset zs = mset (pending_rows (seen V BaseDB w1))"
    and q: "ready (seen B () w2) ''audit.queue'' = ready (seen B () w1) ''audit.queue'' @ map event_message zs"
    by (auto simp: relay.running_def [OF R])
  have m: "event_message e \<in> set (ready (seen B () w2) ''audit.queue'')"
    using e(1) mset_eq_setD [OF zs] by (simp add: q)
  from json [OF s] obtain fs where fs: "payload_of L s = Some (JObj fs)" "actorID L (JObj fs) = Some a"
    by (auto simp: payload_of_def actorID_def uuid)
  have G: "gorm_contract V G jsonb fits coll"
    using P by (simp add: pg_platform_def pg_clock_def)
  have "\<exists>e. tb_audit_logs (seen V BaseDB w4) = tb_audit_logs (seen V BaseDB w3) @ [e] \<and>
      am_Action e = ''role.assigned'' \<and> am_ActorID e = Some a"
    if "audit_Handle L (NewAuditRepository G L) c ''role.assigned'' s w3 = (Inr (), w4)" for c w3 w4
    using gorm_contract.audit_Handle_run [OF G that] fs by (auto simp: logged_def)
  with m e show ?thesis by (intro bexI [OF _ m]) (simp add: event_message_def)
qed

abbreviation demo_assign :: "(error + unit) \<times> broker_world" where
  "demo_assign \<equiv> AssignRoleToUser ref_lib ref_runtime (rbacSvc ref_gorm ref_redis ref_lib) Background 2 7 1
     (demo_broker\<lparr>bw_broker := topology no_broker\<rparr>)"

lemma demo_assign_run:
  "case demo_assign of (r, w) \<Rightarrow> r = Inr () \<and> up ref_window w \<and> bw_faults w = [] \<and> wired (bw_broker w) \<and>
     length (pending_rows (seen ref_window BaseDB w)) \<le> 50"
  by code_simp

theorem assignment_reaches_audit_log_witness:
  "\<exists>m\<in>set (ready (bw_broker (snd (relayBatch ref_gorm ref_runtime ref_channel (snd demo_assign)))) ''audit.queue'').
     ms_Key m = ''role.assigned''"
proof -
  have json: "\<exists>fs. json_Unmarshal ref_lib s = Some (JObj fs) \<and>
      field (JObj fs) ''assigned_by'' = Some (JStr (uuid_String ref_lib 1))"
    if "encodes ref_lib Some (role_assigned ref_lib 2 7 1) s" for s
  proof -
    from that have "json_Unmarshal ref_lib s = Some (role_assigned ref_lib 2 7 1)"
      by (auto simp: encodes_def ref_lib_def dest: ref_Unmarshal_Marshal)
    then show ?thesis by (simp add: role_assigned_def field_def)
  qed
  obtain r w1 where w1: "demo_assign = (r, w1)" by force
  with demo_assign_run have run: "r = Inr ()" "up ref_window w1" "up ref_broker_window w1"
    "wired (seen ref_broker_window () w1)" "length (pending_rows (seen ref_window BaseDB w1)) \<le> 50"
    by (simp_all add: ref_broker_window_def)
  have "\<exists>m\<in>set (ready (seen ref_broker_window () (snd (relayBatch ref_gorm ref_runtime ref_channel w1)))
      ''audit.queue''). ms_Key m = ''role.assigned''"
    using assignment_reaches_audit_log [OF ref_platform.pg_platform_axioms ref_relay.relay_axioms
        w1 [unfolded run(1)] prod.collapse [symmetric] run(2-5) json ref_Parse_String] by blast
  then show ?thesis unfolding w1 by (simp add: ref_broker_window_def)
qed

end
