(* ===== verification/Sessions.thy ===== *)
theory Sessions
  imports AuthService Threads
begin

text \<open>
  \<open>internal/auth/service.go\<close> under concurrency: \<open>Signup\<close>, \<open>Login\<close>, \<open>Refresh\<close> and \<open>Logout\<close> as sequences
  of steps, one per call of a repository or of the blacklist, and what holds of any number of them
  that run at the same time on the same database.
\<close>

section \<open>The operations step by step\<close>

text \<open>
  Where an operation stands: the call that it makes next, with the local variables that are still
  needed, or what it has returned.
\<close>

datatype session =
  SignupLookup string string string
| SignupCreate string string string
| SignupRole User
| SignupAssign User uuid
| SignedUp "error + User"
| LoginLookup string string
| RefreshLookup string
| RefreshTest RefreshToken
| RefreshRevoke RefreshToken
| RefreshUser uuid
| IssueRoles User
| IssueStore string string RefreshToken
| Issued "error + TokenPair"
| LogoutBan string string duration
| LogoutLookup string
| LogoutRevoke uuid
| LoggedOut "error + unit"

text \<open>What \<open>Login\<close> does with the answer of \<open>GetByEmail\<close>.\<close>

definition login_check ::
  "lib \<Rightarrow> 'w runtime \<Rightarrow> string \<Rightarrow> error + User \<Rightarrow> 'w \<Rightarrow> session \<times> 'w" where
  "login_check L RT password r = (case r of
     Inl err \<Rightarrow>
       if err = ErrNotFound
       then doS (rt_Inc RT LoginFailureTotal) (Pair (Issued (Inl ErrInvalidCredentials)))
       else Pair (Issued (Inl err))
   | Inr u \<Rightarrow>
       if \<not> u_IsActive u
       then doS (rt_Inc RT LoginFailureTotal) (Pair (Issued (Inl ErrInvalidCredentials)))
       else if \<not> bcrypt_Compare L (u_PasswordHash u) password
       then doS (rt_Inc RT LoginFailureTotal) (Pair (Issued (Inl ErrInvalidCredentials)))
       else doS (rt_Inc RT LoginSuccessTotal) (Pair (IssueRoles u)))"

text \<open>\<open>issueTokenPair\<close> up to the call that stores the new token.\<close>

definition make_pair ::
  "lib \<Rightarrow> jwtlib \<Rightarrow> 'w runtime \<Rightarrow> 'w AuthService \<Rightarrow> ctx \<Rightarrow> User \<Rightarrow>
   ('w, error, string \<times> string \<times> RefreshToken) cmd" where
  "make_pair L J RT S c u =
     bindE (users_GetRoles (au_users S) c (u_ID u)) (\<lambda>roles.
     bindE (GenerateAccessToken L J RT (au_jwtMgr S) (u_ID u) (map r_Name roles)) (\<lambda>(access, _).
     bindS (generateRefreshToken L RT) (\<lambda>(rawRefresh, hash).
     bindS (rt_Now RT) (\<lambda>now.
     okE (access, rawRefresh, new_token (u_ID u) hash (now + au_refreshTTL S))))))"

fun session_step ::
  "lib \<Rightarrow> jwtlib \<Rightarrow> 'w runtime \<Rightarrow> 'w AuthService \<Rightarrow> ctx \<Rightarrow> session \<Rightarrow> 'w \<Rightarrow> session \<times> 'w" where
  "session_step L J RT S c (SignupLookup email password fullName) =
     bindS (users_GetByEmail (au_users S) c email) (\<lambda>r.
     Pair (case r of
       Inr _ \<Rightarrow> SignedUp (Inl ErrAlreadyExists)
     | Inl err \<Rightarrow> if err \<noteq> ErrNotFound then SignedUp (Inl err) else SignupCreate email password fullName))"
| "session_step L J RT S c (SignupCreate email password fullName) =
     bindS (bindE (rt_Bcrypt RT password) (\<lambda>hash. users_Create (au_users S) c (new_user email hash fullName))) (\<lambda>r.
     case r of
       Inl err \<Rightarrow> Pair (SignedUp (Inl err))
     | Inr u \<Rightarrow> doS (rt_Inc RT UsersCreatedTotal) (Pair (SignupRole u)))"
| "session_step L J RT S c (SignupRole u) =
     bindS (roles_GetByName (au_roles S) c ''developer'') (\<lambda>r.
     Pair (case r of Inl _ \<Rightarrow> SignedUp (Inr u) | Inr defaultRole \<Rightarrow> SignupAssign u (r_ID defaultRole)))"
| "session_step L J RT S c (SignupAssign u i) =
     bindS (users_AssignRole (au_users S) c (u_ID u) i (u_ID u)) (\<lambda>_. Pair (SignedUp (Inr u)))"
| "session_step L J RT S c (SignedUp r) = Pair (SignedUp r)"
| "session_step L J RT S c (LoginLookup email password) =
     bindS (users_GetByEmail (au_users S) c email) (login_check L RT password)"
| "session_step L J RT S c (RefreshLookup raw) =
     bindS (tokens_GetByHash (au_tokens S) c (hashToken L raw)) (\<lambda>r.
     Pair (case r of Inl _ \<Rightarrow> Issued (Inl ErrInvalidCredentials) | Inr tok \<Rightarrow> RefreshTest tok))"
| "session_step L J RT S c (RefreshTest tok) =
     bindS (token_spent RT tok) (\<lambda>spent.
     Pair (if spent then Issued (Inl ErrTokenExpired) else RefreshRevoke tok))"
| "session_step L J RT S c (RefreshRevoke tok) =
     bindS (tokens_Revoke (au_tokens S) c (t_ID tok)) (\<lambda>r.
     Pair (case r of Inl err \<Rightarrow> Issued (Inl err) | Inr _ \<Rightarrow> RefreshUser (t_UserID tok)))"
| "session_step L J RT S c (RefreshUser i) =
     bindS (users_GetByID (au_users S) c i) (\<lambda>r.
     Pair (case r of Inl err \<Rightarrow> Issued (Inl err) | Inr u \<Rightarrow> IssueRoles u))"
| "session_step L J RT S c (IssueRoles u) =
     bindS (make_pair L J RT S c u) (\<lambda>r.
     Pair (case r of Inl err \<Rightarrow> Issued (Inl err) | Inr (access, raw, tok) \<Rightarrow> IssueStore access raw tok))"
| "session_step L J RT S c (IssueStore access raw tok) =
     bindS (tokens_Create (au_tokens S) c tok) (\<lambda>r.
     Pair (case r of Inl err \<Rightarrow> Issued (Inl err)
       | Inr _ \<Rightarrow> Issued (Inr \<lparr>tp_AccessToken = access, tp_RefreshToken = raw\<rparr>)))"
| "session_step L J RT S c (Issued r) = Pair (Issued r)"
| "session_step L J RT S c (LogoutBan raw jti d) =
     bindS (if au_blacklist S \<noteq> None \<and> jti \<noteq> [] then blacklist_Add (au_blacklist S) jti d else okE ())
       (\<lambda>_. Pair (LogoutLookup raw))"
| "session_step L J RT S c (LogoutLookup raw) =
     bindS (tokens_GetByHash (au_tokens S) c (hashToken L raw)) (\<lambda>r.
     Pair (case r of Inl _ \<Rightarrow> LoggedOut (Inr ()) | Inr tok \<Rightarrow> LogoutRevoke (t_ID tok)))"
| "session_step L J RT S c (LogoutRevoke i) =
     bindS (tokens_Revoke (au_tokens S) c i) (\<lambda>r. Pair (LoggedOut r))"
| "session_step L J RT S c (LoggedOut r) = Pair (LoggedOut r)"

text \<open>The steps of one operation on its own are the operation.\<close>

lemma drive_done [simp]:
  "drive (session_step L J RT S c) n (Issued r) = Pair (Issued r)"
  "drive (session_step L J RT S c) n (LoggedOut r') = Pair (LoggedOut r')"
  "drive (session_step L J RT S c) n (SignedUp r'') = Pair (SignedUp r'')"
  by (rule drive_stop, simp)+

lemma drive_issue:
  "drive (session_step L J RT S c) (Suc (Suc n)) (IssueRoles u) w =
     (case issueTokenPair L J RT S c u w of (r, w') \<Rightarrow> (Issued r, w'))"
  by (simp add: issueTokenPair_def make_pair_def bindE_def bindS_def okE_def
      split: prod.split sum.split)

lemma drive_Signup:
  "drive (session_step L J RT S c) (Suc (Suc (Suc (Suc n)))) (SignupLookup email password fullName) w =
     (case Signup RT S c email password fullName w of (r, w') \<Rightarrow> (SignedUp r, w'))"
  by (simp add: Signup_def assignDefaultRole_def bindS_def bindE_def doS_def okE_def failE_def
      split: prod.split sum.split)

lemma drive_Login:
  "drive (session_step L J RT S c) (Suc (Suc (Suc n))) (LoginLookup email password) w =
     (case Login L J RT S c email password w of (r, w') \<Rightarrow> (Issued r, w'))"
proof -
  obtain r w1 where g: "users_GetByEmail (au_users S) c email w = (r, w1)" by force
  show ?thesis
    by (cases r) (simp_all add: Login_def login_check_def bindS_def doS_def failE_def g drive_issue
        del: drive.simps(2) add: drive.simps(2) [of _ "Suc (Suc n)"] split: prod.split)
qed

lemma drive_Refresh:
  "drive (session_step L J RT S c) (Suc (Suc (Suc (Suc (Suc (Suc n)))))) (RefreshLookup raw) w =
     (case Refresh L J RT S c raw w of (r, w') \<Rightarrow> (Issued r, w'))"
proof -
  let ?d = "drive (session_step L J RT S c)"
  have user: "?d (Suc (Suc (Suc n))) (RefreshUser i) w =
      (case bindE (users_GetByID (au_users S) c i) (issueTokenPair L J RT S c) w of (r, w') \<Rightarrow> (Issued r, w'))" for i w
    by (simp add: drive.simps(2) [of _ "Suc (Suc n)"] bindS_def bindE_def drive_issue del: drive.simps(2)
        split: prod.split sum.split)
  have revoke: "?d (Suc (Suc (Suc (Suc n)))) (RefreshRevoke t) w =
      (case bindE (tokens_Revoke (au_tokens S) c (t_ID t)) (\<lambda>_.
         bindE (users_GetByID (au_users S) c (t_UserID t)) (issueTokenPair L J RT S c)) w of (r, w') \<Rightarrow> (Issued r, w'))"
    for t w
    by (simp add: drive.simps(2) [of _ "Suc (Suc (Suc n))"] bindS_def bindE_def [of "tokens_Revoke _ _ _"] user
        del: drive.simps(2) split: prod.split sum.split)
  show ?thesis
    by (simp add: Refresh_def drive.simps(2) [of _ "Suc (Suc (Suc (Suc (Suc n))))"]
        drive.simps(2) [of _ "Suc (Suc (Suc (Suc n)))"] bindS_def revoke failE_def
        del: drive.simps(2) split: prod.split sum.split)
qed

lemma drive_Logout:
  "drive (session_step L J RT S c) (Suc (Suc (Suc n))) (LogoutBan raw jti d) w =
     (case Logout L S c raw jti d w of (r, w') \<Rightarrow> (LoggedOut r, w'))"
  by (simp add: Logout_def bindS_def okE_def split: prod.split sum.split)

section \<open>Accounts and tokens over time\<close>

text \<open>
  An identifier is spent when the tokens that carry it are all revoked, and there is one. From
  \<open>s\<close> to \<open>s'\<close> the accounts are kept, and so are the tokens: none disappears, changes anything but its
  revocation, or comes back to life.
\<close>

definition spent :: "uuid \<Rightarrow> store \<Rightarrow> bool" where
  "spent i s \<longleftrightarrow> i \<in> t_ID ` st_tokens s \<and> (\<forall>t\<in>st_tokens s. t_ID t = i \<longrightarrow> t_RevokedAt t \<noteq> None)"

definition token_stored :: "RefreshToken \<Rightarrow> store \<Rightarrow> bool" where
  "token_stored t s \<longleftrightarrow> (\<exists>r. t\<lparr>t_RevokedAt := r\<rparr> \<in> st_tokens s)"

definition kept :: "store \<Rightarrow> store \<Rightarrow> bool" where
  "kept s s' \<longleftrightarrow> st_users s \<subseteq> st_users s' \<and> (\<forall>t. token_stored t s \<longrightarrow> token_stored t s') \<and>
     (\<forall>i. spent i s \<longrightarrow> spent i s')"

lemma kept_refl [simp]: "kept s s"
  by (simp add: kept_def)

lemma kept_trans: "kept s s1 \<Longrightarrow> kept s1 s2 \<Longrightarrow> kept s s2"
  unfolding kept_def by blast

lemma kept_same: "st_tokens s' = st_tokens s \<Longrightarrow> st_users s \<subseteq> st_users s' \<Longrightarrow> kept s s'"
  by (simp add: kept_def spent_def token_stored_def)

lemma stored_in: "t \<in> st_tokens s \<Longrightarrow> token_stored t s"
  unfolding token_stored_def by (rule exI [of _ "t_RevokedAt t"]) simp

lemma stored_id: "token_stored t s \<Longrightarrow> t_ID t \<in> t_ID ` st_tokens s"
  unfolding token_stored_def by (elim exE, erule rev_image_eqI) simp

lemma kept_insert:
  assumes "t_ID t \<notin> t_ID ` st_tokens s"
  shows "kept s (s\<lparr>st_tokens := insert t (st_tokens s)\<rparr>)"
  using assms by (auto simp: kept_def spent_def token_stored_def)

lemma revoked_spent:
  assumes "revoked i s s'"
  shows "kept s s'" and "i \<in> t_ID ` st_tokens s \<Longrightarrow> spent i s'"
proof -
  from assms obtain u where s': "st_tokens s' =
      (\<lambda>x. if t_ID x = i then x\<lparr>t_RevokedAt := Some u\<rparr> else x) ` st_tokens s"
    and users: "st_users s' = st_users s"
    by (auto simp: revoked_def)
  have ids: "t_ID ` st_tokens s' = t_ID ` st_tokens s"
    unfolding s' image_image by (rule image_cong) simp_all
  have "token_stored t s'" if "token_stored t s" for t
  proof -
    from that obtain r where r: "t\<lparr>t_RevokedAt := r\<rparr> \<in> st_tokens s" by (auto simp: token_stored_def)
    have "t\<lparr>t_RevokedAt := if t_ID t = i then Some u else r\<rparr> \<in> st_tokens s'"
      unfolding s' by (rule image_eqI [OF _ r]) simp
    then show ?thesis unfolding token_stored_def by blast
  qed
  moreover have "spent j s'" if "spent j s" for j
    using that unfolding spent_def ids by (auto simp: s')
  ultimately show "kept s s'" by (simp add: kept_def users)
  show "spent i s'" if "i \<in> t_ID ` st_tokens s"
    using that unfolding spent_def ids by (auto simp: s')
qed

section \<open>What holds of operations that run at the same time\<close>

text \<open>
  \<open>unexpired\<close>: the clock, when it was looked at, had not passed the expiry of the token.
  \<open>entitled\<close>: what gives an operation that was begun at \<open>q\<close> the right to a pair for the user \<open>i\<close>.
  For a refresh it is a token with the hash of the one presented which was not spent when it all
  began, and is now; for a login it is an account with that email and password which was
  active at some moment on the way.
\<close>

definition unexpired :: "'w runtime \<Rightarrow> RefreshToken \<Rightarrow> bool" where
  "unexpired RT t \<longleftrightarrow> (\<exists>now w1 w2. rt_Now RT w1 = (now, w2) \<and> now \<le> t_ExpiresAt t)"

definition vouched :: "lib \<Rightarrow> string \<Rightarrow> string \<Rightarrow> uuid \<Rightarrow> store \<Rightarrow> bool" where
  "vouched L email password i s \<longleftrightarrow> (\<exists>u\<in>st_users s. u_ID u = i \<and> u_Email u = email \<and> u_IsActive u \<and>
     bcrypt_Compare L (u_PasswordHash u) password)"

definition redeemed :: "lib \<Rightarrow> 'w runtime \<Rightarrow> string \<Rightarrow> uuid \<Rightarrow> store \<Rightarrow> store \<Rightarrow> bool" where
  "redeemed L RT raw i s s' \<longleftrightarrow> (\<exists>t. token_stored t s' \<and> t_TokenHash t = hashToken L raw \<and> t_UserID t = i \<and>
     unexpired RT t \<and> \<not> spent (t_ID t) s \<and> spent (t_ID t) s')"

fun entitled ::
  "lib \<Rightarrow> 'w runtime \<Rightarrow> ('w \<Rightarrow> store) \<Rightarrow> session \<Rightarrow> uuid \<Rightarrow> 'w list \<Rightarrow> bool" where
  "entitled L RT data (LoginLookup email password) i H =
     (\<exists>w\<in>set H. vouched L email password i (data w))"
| "entitled L RT data (RefreshLookup raw) i H = redeemed L RT raw i (data (last H)) (data (hd H))"
| "entitled L RT data q i H = False"

lemma redeemed_mono: "redeemed L RT raw i s s1 \<Longrightarrow> kept s1 s2 \<Longrightarrow> redeemed L RT raw i s s2"
  by (auto simp: redeemed_def kept_def)

lemma entitled_mono:
  assumes "entitled L RT data q i H" and "H \<noteq> []" and "kept (data (hd H)) (data w')"
  shows "entitled L RT data q i (w' # H)"
  using assms by (cases q) (auto intro: redeemed_mono)

text \<open>
  \<open>joined\<close>: the account that a signup begun at \<open>q\<close> has made. The email was free when it all began.
\<close>

fun joined :: "'w runtime \<Rightarrow> session \<Rightarrow> User \<Rightarrow> store \<Rightarrow> store \<Rightarrow> bool" where
  "joined RT (SignupLookup email password fullName) u s s' \<longleftrightarrow> u \<in> st_users s' \<and> u_Email u = email \<and>
     u_FullName u = fullName \<and> u_IsActive u \<and> email \<notin> u_Email ` st_users s \<and>
     (\<exists>w1 w2. rt_Bcrypt RT password w1 = (Inr (u_PasswordHash u), w2))"
| "joined RT q u s s' \<longleftrightarrow> False"

lemma joined_mono: "joined RT q u s s1 \<Longrightarrow> kept s1 s2 \<Longrightarrow> joined RT q u s s2"
  by (cases q) (auto simp: kept_def)

text \<open>What an operation that was begun at \<open>q\<close> has made sure of when it is at \<open>p\<close>.\<close>

fun session_at ::
  "lib \<Rightarrow> 'w runtime \<Rightarrow> ('w \<Rightarrow> store) \<Rightarrow> ('w \<Rightarrow> bool) \<Rightarrow> session \<Rightarrow> session \<Rightarrow> 'w list \<Rightarrow> bool" where
  "session_at L RT data ok q (SignupCreate email password fullName) H \<longleftrightarrow> q = SignupLookup email password fullName"
| "session_at L RT data ok q (SignupRole u) H \<longleftrightarrow> joined RT q u (data (last H)) (data (hd H))"
| "session_at L RT data ok q (SignupAssign u i) H \<longleftrightarrow> joined RT q u (data (last H)) (data (hd H))"
| "session_at L RT data ok q (SignedUp r) H \<longleftrightarrow>
     (\<forall>u. r = Inr u \<longrightarrow> joined RT q u (data (last H)) (data (hd H)))"
| "session_at L RT data ok q (RefreshTest t) H \<longleftrightarrow>
     (\<exists>raw. q = RefreshLookup raw \<and> t_TokenHash t = hashToken L raw) \<and> token_stored t (data (hd H)) \<and>
     (t_RevokedAt t = None \<longrightarrow> \<not> spent (t_ID t) (data (last H)))"
| "session_at L RT data ok q (RefreshRevoke t) H \<longleftrightarrow>
     (\<exists>raw. q = RefreshLookup raw \<and> t_TokenHash t = hashToken L raw) \<and> token_stored t (data (hd H)) \<and>
     \<not> spent (t_ID t) (data (last H)) \<and> unexpired RT t"
| "session_at L RT data ok q (RefreshUser i) H \<longleftrightarrow> entitled L RT data q i H"
| "session_at L RT data ok q (IssueRoles u) H \<longleftrightarrow> entitled L RT data q (u_ID u) H"
| "session_at L RT data ok q (IssueStore access raw t) H \<longleftrightarrow> entitled L RT data q (t_UserID t) H \<and>
     t_TokenHash t = hashToken L raw \<and> t_ID t = 0 \<and> t_RevokedAt t = None"
| "session_at L RT data ok q (Issued r) H \<longleftrightarrow> (\<forall>p. r = Inr p \<longrightarrow> (\<exists>t. token_stored t (data (hd H)) \<and>
     t_TokenHash t = hashToken L (tp_RefreshToken p) \<and> entitled L RT data q (t_UserID t) H))"
| "session_at L RT data ok q (LogoutLookup raw) H \<longleftrightarrow> (\<exists>jti d. q = LogoutBan raw jti d)"
| "session_at L RT data ok q (LogoutRevoke i) H \<longleftrightarrow> (\<exists>raw jti d t. q = LogoutBan raw jti d \<and>
     token_stored t (data (hd H)) \<and> t_TokenHash t = hashToken L raw \<and> t_ID t = i)"
| "session_at L RT data ok q (LoggedOut r) H \<longleftrightarrow> (\<exists>raw jti d. q = LogoutBan raw jti d \<and>
     (ok (last H) \<longrightarrow> r = Inr () \<and>
       (\<forall>t. token_stored t (data (last H)) \<longrightarrow> t_TokenHash t = hashToken L raw \<longrightarrow>
         (\<exists>t'. token_stored t' (data (hd H)) \<and> t_TokenHash t' = hashToken L raw \<and> spent (t_ID t') (data (hd H))))))"
| "session_at L RT data ok q p H \<longleftrightarrow> p = q"

lemma session_at_mono:
  assumes "session_at L RT data ok q p H" and "H \<noteq> []" and "kept (data (hd H)) (data w')"
  shows "session_at L RT data ok q p (w' # H)"
proof -
  note e = entitled_mono [OF _ assms(2,3)]
  note j = joined_mono [OF _ assms(3)]
  from assms(3) have k: "token_stored t (data (hd H)) \<Longrightarrow> token_stored t (data w')"
    "spent i (data (hd H)) \<Longrightarrow> spent i (data w')" for t i
    by (simp_all add: kept_def)
  show ?thesis
  proof (cases p)
    case (LoggedOut r)
    with assms(1,2) show ?thesis by simp (metis k)
  next
    case (LogoutRevoke i)
    with assms(1,2) show ?thesis by simp (metis k(1))
  next
    case (Issued r)
    with assms(1,2) show ?thesis by simp (metis k(1) e)
  qed (use assms(1,2) in \<open>auto simp: k e j\<close>)
qed

definition session_inv :: "('w \<Rightarrow> store) \<Rightarrow> ('w \<Rightarrow> bool) \<Rightarrow> 'w list \<Rightarrow> bool" where
  "session_inv data ok H \<longleftrightarrow> kept (data (last H)) (data (hd H)) \<and> (ok (last H) \<longrightarrow> ok (hd H))"

context auth_service
begin

text \<open>Each call that a step makes, and what it is to the tokens.\<close>

lemma make_pair_quiet:
  assumes run: "make_pair L J RT S Background u w = (r, w')"
  shows "untouched W w w' \<and> (\<forall>access raw t. r = Inr (access, raw, t) \<longrightarrow>
    t_UserID t = u_ID u \<and> t_TokenHash t = hashToken L raw \<and> t_ID t = 0 \<and> t_RevokedAt t = None)"
proof -
  obtain r1 w1 where g: "users_GetRoles (au_users S) Background (u_ID u) w = (r1, w1)" by force
  note G = readsD [OF users.GetRoles g, THEN conjunct1]
  show ?thesis
  proof (cases r1)
    case (Inl e)
    with run g G show ?thesis by (auto simp: make_pair_def bindE_def)
  next
    case (Inr rs)
    obtain r2 w2 where a: "GenerateAccessToken L J RT (au_jwtMgr S) (u_ID u) (map r_Name rs) w1 = (r2, w2)"
      by force
    note A = untouched_trans [OF G silentD [OF Generate_quiet a]]
    show ?thesis
    proof (cases r2)
      case (Inl e)
      with run g Inr a A show ?thesis by (auto simp: make_pair_def bindE_def)
    next
      case acc: (Inr aj)
      obtain raw hash w3 where h: "generateRefreshToken L RT w2 = ((raw, hash), w3)" by (metis surj_pair)
      obtain now w4 where n: "rt_Now RT w3 = (now, w4)" by force
      from run g Inr a acc h n have "w' = w4"
        "r = Inr (fst aj, raw, new_token (u_ID u) hash (now + au_refreshTTL S))"
        by (auto simp: make_pair_def bindE_def bindS_def okE_def case_prod_beta)
      with untouched_trans [OF A untouched_trans [OF rand_quiet(1) [OF h] silentD [OF db.Now_silent n]]]
        rand_quiet(2) [OF h] show ?thesis by (auto simp: new_token_def)
    qed
  qed
qed

lemma ban_quiet:
  assumes "(if au_blacklist S \<noteq> None \<and> jti \<noteq> [] then blacklist_Add (au_blacklist S) jti d else okE ()) w = (r, w')"
  shows "data w' = data w \<and> (up W w \<longrightarrow> up W w')"
proof (cases "au_blacklist S \<noteq> None \<and> jti \<noteq> []")
  case True
  with assms have "blacklist_Add (au_blacklist S) jti d w = (r, w')" by simp
  from apartD(3,4) [OF apart writesD [OF banlist.Add this, THEN conjunct1]] show ?thesis by simp
next
  case False
  with assms show ?thesis by (auto simp: okE_def)
qed

lemma Revoke_does:
  assumes "tokens_Revoke (au_tokens S) Background i w = (r, w')"
  shows "(up W w \<longrightarrow> up W w' \<and> r = Inr ()) \<and> kept (data w) (data w') \<and>
    (r = Inr () \<longrightarrow> i \<in> t_ID ` st_tokens (data w) \<longrightarrow> spent i (data w'))"
proof -
  note R = writesD [OF tokens.TokenRevoke assms]
  show ?thesis
  proof (cases r)
    case (Inl e)
    with R show ?thesis by (auto simp: touched_up)
  next
    case (Inr x)
    with R have "revoked i (data w) (data w')" by (auto simp: revoked_def)
    with R Inr show ?thesis by (auto simp: touched_up revoked_spent)
  qed
qed

lemma Create_does:
  assumes run: "tokens_Create (au_tokens S) Background t w = (r, w')"
    and t: "t_ID t = 0" "t_RevokedAt t = None"
  shows "(up W w \<longrightarrow> up W w') \<and> kept (data w) (data w') \<and>
    (\<forall>t'. r = Inr t' \<longrightarrow> token_stored t' (data w') \<and> t_TokenHash t' = t_TokenHash t \<and> t_UserID t' = t_UserID t)"
proof -
  note C = writesD [OF tokens.TokenCreate [OF t] run]
  show ?thesis
  proof (cases r)
    case (Inl e)
    with C show ?thesis by (auto simp: touched_up)
  next
    case (Inr t')
    with C have "t_ID t' \<notin> t_ID ` st_tokens (data w)"
      "data w' = (data w)\<lparr>st_tokens := insert t' (st_tokens (data w))\<rparr>"
      "t_TokenHash t' = t_TokenHash t" "t_UserID t' = t_UserID t" by auto
    with C Inr show ?thesis by (auto simp: touched_up kept_insert intro!: stored_in)
  qed
qed

abbreviation sat :: "lib \<Rightarrow> session \<Rightarrow> session \<Rightarrow> 'w list \<Rightarrow> bool" where
  "sat L \<equiv> session_at L RT data (up W)"

text \<open>
  \<open>moves L q H w' p\<close>: a step from the present world to \<open>w'\<close> that leaves the operation at \<open>p\<close>
  keeps the database up and the tokens, and is in order for an operation begun at \<open>q\<close>.
\<close>

definition moves :: "lib \<Rightarrow> session \<Rightarrow> 'w list \<Rightarrow> 'w \<Rightarrow> session \<Rightarrow> bool" where
  "moves L q H w' p \<longleftrightarrow> (up W (hd H) \<longrightarrow> up W w') \<and> kept (data (hd H)) (data w') \<and> sat L q p (w' # H)"

lemma moves_same:
  assumes "data w' = data (hd H) \<and> (up W (hd H) \<longrightarrow> up W w')" and "sat L q p (w' # H)"
  shows "moves L q H w' p"
  using assms by (simp add: moves_def)

lemma moves_quiet:
  assumes "untouched W (hd H) w'" and "sat L q p (w' # H)"
  shows "moves L q H w' p"
  using assms by (intro moves_same) (simp_all add: untouched_seen untouched_up)

lemma step_signup:
  assumes step: "session_step L J RT S Background p (hd H) = (p', w')"
    and at: "sat L q p H" and H: "H \<noteq> []" and inv: "session_inv data (up W) H"
    and p: "p = SignupLookup email password fullName \<or> p = SignupCreate email password fullName \<or>
      p = SignupRole u \<or> p = SignupAssign u i"
  shows "moves L q H w' p'"
  using p
proof (elim disjE)
  assume p: "p = SignupLookup email password fullName"
  obtain r where g: "users_GetByEmail (au_users S) Background email (hd H) = (r, w')"
    and p': "p' = (case r of Inr _ \<Rightarrow> SignedUp (Inl ErrAlreadyExists)
      | Inl err \<Rightarrow> if err \<noteq> ErrNotFound then SignedUp (Inl err) else SignupCreate email password fullName)"
    using step p by (auto simp: bindS_eq)
  note G = readsD [OF users.UserGetByEmail g]
  with at p p' show ?thesis by (intro moves_quiet) (auto split: sum.splits)
next
  assume p: "p = SignupCreate email password fullName"
  obtain r1 w1 where b: "rt_Bcrypt RT password (hd H) = (r1, w1)" by force
  note B = silentD [OF db.Bcrypt_silent b]
  show ?thesis
  proof (cases r1)
    case (Inl e)
    with step p b have "p' = SignedUp (Inl e)" "w' = w1" by (simp_all add: bindS_def bindE_def)
    with B show ?thesis by (intro moves_quiet) auto
  next
    case (Inr hash)
    obtain r2 w2 where c: "users_Create (au_users S) Background (new_user email hash fullName) w1 = (r2, w2)" by force
    have "u_ID (new_user email hash fullName) = 0" by (simp add: new_user_def)
    note C = writesD [OF users.UserCreate [OF this] c]
    show ?thesis
    proof (cases r2)
      case (Inl e)
      with step p b Inr c \<open>r1 = Inr hash\<close> have "p' = SignedUp (Inl e)" "w' = w2"
        by (simp_all add: bindS_def bindE_def)
      with B C Inl show ?thesis by (intro moves_same) (auto simp: untouched_seen untouched_up touched_up)
    next
      case u: (Inr u)
      with step p b c Inr have p': "p' = SignupRole u" and w': "w' = rt_Inc RT UsersCreatedTotal w2"
        by (simp_all add: bindS_def bindE_def doS_def)
      from C u have user: "u_Email u = email" "u_FullName u = fullName" "u_IsActive u" "u_PasswordHash u = hash"
        and free: "email \<notin> u_Email ` st_users (data w1)"
        and new: "data w2 = (data w1)\<lparr>st_users := insert (u\<lparr>u_IsActive := True\<rparr>) (st_users (data w1))\<rparr>"
        by (auto simp: new_user_def)
      have "u\<lparr>u_IsActive := True\<rparr> = u" using user(3) by (cases u) simp
      with new B w' have s': "data w' = (data (hd H))\<lparr>st_users := insert u (st_users (data (hd H)))\<rparr>"
        by (simp add: db.Inc_seen untouched_seen)
      have "st_users (data (last H)) \<subseteq> st_users (data (hd H))"
        using inv by (simp add: session_inv_def kept_def)
      with free B have "email \<notin> u_Email ` st_users (data (last H))" by (auto simp: untouched_seen)
      with user b Inr s' have "joined RT (SignupLookup email password fullName) u (data (last H)) (data w')"
        by auto
      moreover have "kept (data (hd H)) (data w')" unfolding s' by (rule kept_same) auto
      moreover have "up W (hd H) \<longrightarrow> up W w'"
        using B C w' by (auto simp: untouched_up touched_up intro: db.Inc_up)
      ultimately show ?thesis using at p H by (simp add: moves_def p')
    qed
  qed
next
  assume p: "p = SignupRole u"
  obtain r where g: "roles_GetByName (au_roles S) Background ''developer'' (hd H) = (r, w')"
    and p': "p' = (case r of Inl _ \<Rightarrow> SignedUp (Inr u) | Inr d \<Rightarrow> SignupAssign u (r_ID d))"
    using step p by (auto simp: bindS_eq)
  note G = readsD [OF roles.RoleGetByName g]
  with at p p' H show ?thesis by (intro moves_quiet) (auto simp: untouched_seen split: sum.splits)
next
  assume p: "p = SignupAssign u i"
  obtain r where a: "users_AssignRole (au_users S) Background (u_ID u) i (u_ID u) (hd H) = (r, w')"
    and p': "p' = SignedUp (Inr u)"
    using step p by (auto simp: bindS_eq)
  note A = writesD [OF users.AssignRole a]
  then have "kept (data (hd H)) (data w')" by (cases r) (auto intro!: kept_same)
  with A at p p' H joined_mono show ?thesis by (auto simp: moves_def touched_up)
qed

lemma step_login:
  assumes "session_step L J RT S Background (LoginLookup email password) (hd H) = (p, w')" and "H \<noteq> []"
  shows "moves L (LoginLookup email password) H w' p"
proof -
  obtain r w1 where g: "users_GetByEmail (au_users S) Background email (hd H) = (r, w1)" by force
  note G = readsD [OF users.UserGetByEmail g]
  have inc: "data (rt_Inc RT m w1) = data (hd H) \<and> (up W (hd H) \<longrightarrow> up W (rt_Inc RT m w1))" for m
    using G by (auto simp: db.Inc_seen untouched_seen untouched_up intro: db.Inc_up)
  show ?thesis
  proof (cases "\<exists>u. p = IssueRoles u")
    case False
    with assms(1) g G inc show ?thesis
      by (auto simp: bindS_def login_check_def doS_def split: sum.splits if_splits intro!: moves_same simp: untouched_seen)
  next
    case True
    then obtain u where p: "p = IssueRoles u" ..
    with assms(1) g have r: "r = Inr u" "u_IsActive u" "bcrypt_Compare L (u_PasswordHash u) password"
      and w': "w' = rt_Inc RT LoginSuccessTotal w1"
      by (auto simp: bindS_def login_check_def doS_def split: sum.splits if_splits)
    with G have "vouched L email password (u_ID u) (data (hd H))"
      unfolding vouched_def by auto
    with assms(2) inc w' p show ?thesis by (intro moves_same) auto
  qed
qed

lemma step_refresh:
  assumes step: "session_step L J RT S Background p (hd H) = (p', w')"
    and at: "sat L q p H" and H: "H \<noteq> []" and inv: "session_inv data (up W) H"
    and p: "p = RefreshLookup raw \<or> p = RefreshTest t \<or> p = RefreshRevoke t \<or> p = RefreshUser i"
  shows "moves L q H w' p'"
  using p
proof (elim disjE)
  assume p: "p = RefreshLookup raw"
  obtain r where g: "tokens_GetByHash (au_tokens S) Background (hashToken L raw) (hd H) = (r, w')"
    and p': "p' = (case r of Inl _ \<Rightarrow> Issued (Inl ErrInvalidCredentials) | Inr tok \<Rightarrow> RefreshTest tok)"
    using step p by (auto simp: bindS_eq)
  note G = readsD [OF tokens.TokenGetByHash g]
  show ?thesis
  proof (cases r)
    case (Inr t)
    with G have t: "t \<in> st_tokens (data (hd H))" "t_TokenHash t = hashToken L raw" by auto
    then have "t_RevokedAt t = None \<longrightarrow> \<not> spent (t_ID t) (data (hd H))" by (auto simp: spent_def)
    with inv have "t_RevokedAt t = None \<longrightarrow> \<not> spent (t_ID t) (data (last H))"
      by (auto simp: session_inv_def kept_def)
    with G p p' Inr t at H show ?thesis
      by (intro moves_quiet) (auto simp: untouched_seen intro!: stored_in)
  qed (use G p' in \<open>auto intro!: moves_quiet\<close>)
next
  assume p: "p = RefreshTest t"
  obtain b where sp: "token_spent RT t (hd H) = (b, w')"
    and p': "p' = (if b then Issued (Inl ErrTokenExpired) else RefreshRevoke t)"
    using step p by (auto simp: bindS_eq)
  note T = token_spent_quiet [OF sp]
  with p p' at H show ?thesis
    by (intro moves_quiet) (auto simp: untouched_seen unexpired_def)
next
  assume p: "p = RefreshRevoke t"
  obtain r where v: "tokens_Revoke (au_tokens S) Background (t_ID t) (hd H) = (r, w')"
    and p': "p' = (case r of Inl err \<Rightarrow> Issued (Inl err) | Inr _ \<Rightarrow> RefreshUser (t_UserID t))"
    using step p by (auto simp: bindS_eq)
  note V = Revoke_does [OF v]
  from at p have id: "t_ID t \<in> t_ID ` st_tokens (data (hd H))"
    by (auto dest: stored_id)
  from at p V H have "redeemed L RT raw (t_UserID t) (data (last H)) (data w')"
    if "r = Inr ()" "q = RefreshLookup raw" for raw
    using that id unfolding redeemed_def kept_def by (intro exI [of _ t]) auto
  with at p p' V H show ?thesis
    by (cases r) (auto simp: moves_def)
next
  assume p: "p = RefreshUser i"
  obtain r where u: "users_GetByID (au_users S) Background i (hd H) = (r, w')"
    and p': "p' = (case r of Inl err \<Rightarrow> Issued (Inl err) | Inr u \<Rightarrow> IssueRoles u)"
    using step p by (auto simp: bindS_eq)
  note U = readsD [OF users.UserGetByID u]
  with p p' at H show ?thesis
    by (intro moves_quiet) (auto split: sum.splits simp: untouched_seen intro!: entitled_mono)
qed

lemma step_issue:
  assumes step: "session_step L J RT S Background p (hd H) = (p', w')"
    and at: "sat L q p H" and H: "H \<noteq> []" and p: "p = IssueRoles u \<or> p = IssueStore access raw t"
  shows "moves L q H w' p'"
  using p
proof (elim disjE)
  assume p: "p = IssueRoles u"
  obtain r where m: "make_pair L J RT S Background u (hd H) = (r, w')"
    and p': "p' = (case r of Inl err \<Rightarrow> Issued (Inl err) | Inr (access, raw, tok) \<Rightarrow> IssueStore access raw tok)"
    using step p by (auto simp: bindS_eq)
  from make_pair_quiet [OF m] p p' at H show ?thesis
    by (intro moves_quiet) (auto split: sum.splits simp: untouched_seen intro!: entitled_mono)
next
  assume p: "p = IssueStore access raw t"
  obtain r where c: "tokens_Create (au_tokens S) Background t (hd H) = (r, w')"
    and p': "p' = (case r of Inl err \<Rightarrow> Issued (Inl err)
      | Inr _ \<Rightarrow> Issued (Inr \<lparr>tp_AccessToken = access, tp_RefreshToken = raw\<rparr>))"
    using step p by (auto simp: bindS_eq)
  from at p have t: "t_ID t = 0" "t_RevokedAt t = None" by simp_all
  note C = Create_does [OF c t]
  show ?thesis
  proof (cases r)
    case (Inr t')
    with C p at have s: "token_stored t' (data w')" "t_TokenHash t' = hashToken L raw" "t_UserID t' = t_UserID t" by auto
    have e: "entitled L RT data q (t_UserID t') (w' # H)"
      using at p H C s(3) by (intro entitled_mono) auto
    from C p' Inr s(1,2) e show ?thesis by (auto simp: moves_def)
  qed (use C p' in \<open>auto simp: moves_def\<close>)
qed

lemma step_logout:
  assumes step: "session_step L J RT S Background p (hd H) = (p', w')"
    and at: "sat L q p H" and H: "H \<noteq> []" and inv: "session_inv data (up W) H"
    and p: "p = LogoutBan raw jti d \<or> p = LogoutLookup raw \<or> p = LogoutRevoke i"
  shows "moves L q H w' p'"
  using p
proof (elim disjE)
  assume p: "p = LogoutBan raw jti d"
  from step obtain r where "(if au_blacklist S \<noteq> None \<and> jti \<noteq> [] then blacklist_Add (au_blacklist S) jti d
      else okE ()) (hd H) = (r, w')" and p': "p' = LogoutLookup raw"
    unfolding p session_step.simps bindS_eq by auto
  from ban_quiet [OF this(1)] p p' at show ?thesis by (intro moves_same) auto
next
  assume p: "p = LogoutLookup raw"
  obtain r where g: "tokens_GetByHash (au_tokens S) Background (hashToken L raw) (hd H) = (r, w')"
    and p': "p' = (case r of Inl _ \<Rightarrow> LoggedOut (Inr ()) | Inr tok \<Rightarrow> LogoutRevoke (t_ID tok))"
    using step p by (auto simp: bindS_eq)
  note G = readsD [OF tokens.TokenGetByHash g]
  show ?thesis
  proof (cases r)
    case (Inl e)
    have "t_TokenHash t \<noteq> hashToken L raw" if "up W (last H)" "token_stored t (data (last H))" for t
    proof -
      from that inv have "up W (hd H)" "token_stored t (data (hd H))"
        by (simp_all add: session_inv_def kept_def)
      with G Inl show ?thesis by (force simp: token_stored_def)
    qed
    with G p p' Inl at H show ?thesis by (intro moves_quiet) auto
  next
    case (Inr t)
    with G p p' at H show ?thesis
      by (intro moves_quiet) (auto simp: untouched_seen intro!: exI [of _ t] stored_in)
  qed
next
  assume p: "p = LogoutRevoke i"
  then have v: "tokens_Revoke (au_tokens S) Background i (hd H) = (case p' of LoggedOut r \<Rightarrow> r, w')"
    and p': "\<exists>r. p' = LoggedOut r"
    using step by (auto simp: bindS_eq)
  then obtain r where p': "p' = LoggedOut r" and v: "tokens_Revoke (au_tokens S) Background i (hd H) = (r, w')"
    by auto
  note V = Revoke_does [OF v]
  from at p obtain raw jti d t where q: "q = LogoutBan raw jti d" and t: "token_stored t (data (hd H))"
    "t_TokenHash t = hashToken L raw" "t_ID t = i" by auto
  from V t have t': "token_stored t (data w')" by (simp add: kept_def)
  from inv V have "up W (last H) \<Longrightarrow> r = Inr ()" by (simp add: session_inv_def)
  moreover from V t stored_id [OF t(1)] have "r = Inr () \<Longrightarrow> spent (t_ID t) (data w')" by simp
  ultimately have "sat L q p' (w' # H)" using q t(2) t' H unfolding p' by auto
  with V show ?thesis by (simp add: moves_def)
qed

lemma session_moves:
  assumes step: "session_step L J RT S Background p (hd H) = (p', w')"
    and at: "sat L q p H" and H: "H \<noteq> []" and inv: "session_inv data (up W) H"
  shows "moves L q H w' p'"
proof (cases p)
  case (LoginLookup email password)
  with at have "q = LoginLookup email password" by simp
  with step_login [OF step [unfolded LoginLookup] H] show ?thesis by simp
next
  case (SignedUp r)
  with step have "p' = p" "w' = hd H" by auto
  with session_at_mono [OF at H] show ?thesis by (intro moves_same) auto
next
  case (Issued r)
  with step have "p' = p" "w' = hd H" by auto
  with session_at_mono [OF at H] show ?thesis by (intro moves_same) auto
next
  case (LoggedOut r)
  with step have "p' = p" "w' = hd H" by auto
  with session_at_mono [OF at H] show ?thesis by (intro moves_same) auto
qed (auto intro: step_signup [OF step at H inv] step_refresh [OF step at H inv] step_issue [OF step at H] step_logout [OF step at H inv])

end

text \<open>Two signups can not both have made an account for the same email.\<close>

fun new_account :: "session \<Rightarrow> User option" where
  "new_account (SignupRole u) = Some u"
| "new_account (SignupAssign u i) = Some u"
| "new_account (SignedUp (Inr u)) = Some u"
| "new_account p = None"

definition rivals :: "session \<Rightarrow> session \<Rightarrow> bool" where
  "rivals p p1 \<longleftrightarrow> (\<forall>u v. new_account p = Some u \<longrightarrow> new_account p1 = Some v \<longrightarrow> u_Email u \<noteq> u_Email v)"

context auth_service
begin

lemma Create_new:
  assumes step: "session_step L J RT S Background (SignupCreate email password fullName) w = (p', w')"
    and new: "new_account p' = Some u"
  shows "u_Email u \<notin> u_Email ` st_users (data w)"
proof -
  obtain r1 w1 where b: "rt_Bcrypt RT password w = (r1, w1)" by force
  note B = silentD [OF db.Bcrypt_silent b]
  from step new b obtain hash where "r1 = Inr hash" by (cases r1) (auto simp: bindS_def bindE_def)
  obtain r2 w2 where c: "users_Create (au_users S) Background (new_user email hash fullName) w1 = (r2, w2)" by force
  have "u_ID (new_user email hash fullName) = 0" by (simp add: new_user_def)
  note C = writesD [OF users.UserCreate [OF this] c]
  from step new b c \<open>r1 = Inr hash\<close> have "r2 = Inr u"
    by (cases r2) (auto simp: bindS_def bindE_def doS_def)
  with B C show ?thesis by (auto simp: new_user_def untouched_seen)
qed

lemma new_account_free:
  assumes "session_step L J RT S Background p w = (p', w')" and "new_account p' = Some u"
  shows "new_account p = Some u \<or> u_Email u \<notin> u_Email ` st_users (data w)"
proof (cases p)
  case (SignupCreate email password fullName)
  with Create_new assms show ?thesis by blast
qed (use assms in \<open>auto simp: bindS_def login_check_def doS_def split: sum.splits if_splits prod.splits\<close>)

lemma new_account_stored:
  assumes "sat L q p H" and "new_account p = Some u"
  shows "u \<in> st_users (data (hd H))"
proof -
  from assms have "joined RT q u (data (last H)) (data (hd H))" by (cases p rule: new_account.cases) auto
  then show ?thesis by (cases q) auto
qed

end

sublocale auth_service \<subseteq> sessions: threads "session_step L J RT S Background" "session_inv data (up W)"
  "session_at L RT data (up W)" rivals for L J
proof
  fix H q p p' w' assume "H \<noteq> []" "session_inv data (up W) H" "session_at L RT data (up W) q p H"
    "session_step L J RT S Background p (hd H) = (p', w')"
  then have "moves L q H w' p'" by (intro session_moves)
  with \<open>H \<noteq> []\<close> \<open>session_inv data (up W) H\<close>
  show "session_inv data (up W) (w' # H) \<and> session_at L RT data (up W) q p' (w' # H)"
    unfolding moves_def session_inv_def
    using kept_trans [of "data (last H)" "data (hd H)" "data w'"] by simp
next
  fix H q p q1 p1 p' w' assume "H \<noteq> []" "session_inv data (up W) H" "session_at L RT data (up W) q p H"
    "session_at L RT data (up W) q1 p1 H" "session_step L J RT S Background p1 (hd H) = (p', w')"
  then have "moves L q1 H w' p'" by (intro session_moves)
  then have "kept (data (hd H)) (data w')" by (simp add: moves_def)
  with \<open>session_at L RT data (up W) q p H\<close> \<open>H \<noteq> []\<close>
  show "session_at L RT data (up W) q p (w' # H)" by (rule session_at_mono)
next
  fix p p1 assume "rivals p p1"
  then show "rivals p1 p" by (auto simp: rivals_def)
next
  fix H q p q1 p1 p' w' assume at: "session_at L RT data (up W) q1 p1 H" and r: "rivals p p1"
    and step: "session_step L J RT S Background p (hd H) = (p', w')"
  have "u_Email u \<noteq> u_Email v" if u: "new_account p' = Some u" and v: "new_account p1 = Some v" for u v
    using new_account_free [OF step u] new_account_stored [OF at v] r v by (auto simp: rivals_def)
  then show "rivals p' p1" by (simp add: rivals_def)
qed

text \<open>The points at which an operation is about to begin.\<close>

fun session_start :: "session \<Rightarrow> bool" where
  "session_start (SignupLookup email password fullName) = True"
| "session_start (LoginLookup email password) = True"
| "session_start (RefreshLookup raw) = True"
| "session_start (LogoutBan raw jti d) = True"
| "session_start p = False"

context auth_service
begin

lemma sessions_run:
  assumes run: "interleave (session_step L J RT S Background) is (ps, [w]) = (ps', H)"
    and start: "\<And>p. p \<in> set ps \<Longrightarrow> session_start p"
  shows "H \<noteq> [] \<and> last H = w \<and> kept (data w) (data (hd H)) \<and> length ps' = length ps \<and>
    (\<forall>j<length ps. sat L (ps ! j) (ps' ! j) H) \<and>
    (\<forall>j<length ps. \<forall>k<length ps. j \<noteq> k \<longrightarrow> rivals (ps' ! j) (ps' ! k))"
proof -
  have inv: "session_inv data (up W) [w]" by (simp add: session_inv_def)
  have "new_account p = None" if "session_start p" for p
    using that by (cases p) auto
  with start have apart: "sessions.all_apart ps" by (simp add: sessions.all_apart_def rivals_def)
  have "sat L p p [w]" if "session_start p" for p
    using that by (cases p) auto
  with start have "sat L (ps ! j) (ps ! j) [w]" if "j < length ps" for j using that by simp
  note R = sessions.run_in_order [OF run inv apart refl this]
  from R(2,3) have "kept (data w) (data (hd H))" by (auto simp: session_inv_def)
  with R show ?thesis by simp
qed

end

end
