(* ===== verification/Checks.thy ===== *)
theory Checks
  imports RbacService Threads
begin

text \<open>
  \<open>internal/rbac/service.go\<close> under concurrency: the check and the changes of assignments and grants
  as sequences of steps, one per transaction, query or call of the cache, and what holds of any
  number of them that run at the same time.
\<close>

section \<open>The operations step by step\<close>

datatype access =
  CheckGet uuid string
| CheckRead uuid string
| CheckSet uuid "string list" bool
| Checked "error + bool"
| AssignTx uuid uuid uuid
| RemoveTx uuid uuid
| AttachTx uuid uuid
| Holders uuid
| DropOne uuid
| DropAll "uuid list"
| RoleDelete uuid
| PermDelete uuid
| Changed "error + unit"

fun access_step ::
  "lib \<Rightarrow> 'w runtime \<Rightarrow> 'w RbacService \<Rightarrow> ctx \<Rightarrow> access \<Rightarrow> 'w \<Rightarrow> access \<times> 'w" where
  "access_step L RT S c (CheckGet u p) =
     bindS (case rb_cache S of None \<Rightarrow> Pair None | Some _ \<Rightarrow> cache_Get L (rb_cache S) u) (\<lambda>got.
     case got of
       Some hit \<Rightarrow>
         (let allowed = go_index hit p in
          doS (rt_Inc RT RedisCacheHitTotal)
          (doS (rt_Inc RT (PermissionChecksTotal ''hit'' (resultLabel allowed)))
          (Pair (Checked (Inr allowed)))))
     | None \<Rightarrow> doS (rt_Inc RT RedisCacheMissTotal) (Pair (CheckRead u p)))"
| "access_step L RT S c (CheckRead u p) =
     bindS (users_GetPermissions (rb_users S) c u) (\<lambda>r.
     Pair (case r of
       Inl err \<Rightarrow> Checked (Inl err)
     | Inr perms \<Rightarrow> (let (names, allowed) = scan_perms p perms ([], False) in CheckSet u names allowed)))"
| "access_step L RT S c (CheckSet u names allowed) =
     bindS (case rb_cache S of None \<Rightarrow> Pair () | Some _ \<Rightarrow> cache_Set L (rb_cache S) u names) (\<lambda>_.
     doS (rt_Inc RT (PermissionChecksTotal ''miss'' (resultLabel allowed)))
     (Pair (Checked (Inr allowed))))"
| "access_step L RT S c (Checked r) = Pair (Checked r)"
| "access_step L RT S c (AssignTx u i a) =
     bindS (RunInTx (rb_txRunner S) c (\<lambda>c.
       bindE (users_AssignRole (rb_users S) c u i a) (\<lambda>_.
       outbox_Create (rb_outbox S) c ''role.assigned'' (role_assigned L u i a)))) (\<lambda>r.
     case r of
       Inl err \<Rightarrow> Pair (Changed (Inl err))
     | Inr _ \<Rightarrow> doS (rt_Inc RT RoleAssignmentsTotal) (Pair (DropOne u)))"
| "access_step L RT S c (RemoveTx u i) =
     bindS (RunInTx (rb_txRunner S) c (\<lambda>c.
       bindE (users_RemoveRole (rb_users S) c u i) (\<lambda>_.
       outbox_Create (rb_outbox S) c ''role.revoked'' (role_revoked L u i)))) (\<lambda>r.
     Pair (case r of Inl err \<Rightarrow> Changed (Inl err) | Inr _ \<Rightarrow> DropOne u))"
| "access_step L RT S c (AttachTx i j) =
     bindS (RunInTx (rb_txRunner S) c (\<lambda>c.
       bindE (roles_AttachPermission (rb_roles S) c i j) (\<lambda>_.
       outbox_Create (rb_outbox S) c ''permission.attached'' (permission_attached L i j)))) (\<lambda>r.
     Pair (case r of
       Inl err \<Rightarrow> Changed (Inl err)
     | Inr _ \<Rightarrow> (case rb_cache S of None \<Rightarrow> Changed (Inr ()) | Some _ \<Rightarrow> Holders i)))"
| "access_step L RT S c (Holders i) =
     bindS (roles_GetUserIDsForRole (rb_roles S) c i) (\<lambda>r.
     Pair (case r of Inl _ \<Rightarrow> Changed (Inr ()) | Inr us \<Rightarrow> DropAll us))"
| "access_step L RT S c (DropOne u) = bindS (invalidate L S u) (\<lambda>r. Pair (Changed r))"
| "access_step L RT S c (DropAll []) = Pair (Changed (Inr ()))"
| "access_step L RT S c (DropAll (u # us)) =
     bindS (cache_Invalidate L (rb_cache S) u) (\<lambda>_. Pair (DropAll us))"
| "access_step L RT S c (RoleDelete i) = bindS (DeleteRole S c i) (\<lambda>r. Pair (Changed r))"
| "access_step L RT S c (PermDelete i) = bindS (DeletePermission S c i) (\<lambda>r. Pair (Changed r))"
| "access_step L RT S c (Changed r) = Pair (Changed r)"

text \<open>The steps of one operation on its own are the operation.\<close>

lemma access_drive_done [simp]:
  "drive (access_step L RT S c) n (Checked r) = Pair (Checked r)"
  "drive (access_step L RT S c) n (Changed r') = Pair (Changed r')"
  by (rule drive_stop, simp)+

lemma drive_Authorize:
  "drive (access_step L RT S c) (Suc (Suc (Suc n))) (CheckGet u p) w =
     (case Authorize L RT S c u p w of (r, w') \<Rightarrow> (Checked r, w'))"
  by (simp add: Authorize_def bindS_def bindE_def doS_def okE_def Let_def case_prod_beta
      split: prod.split option.split sum.split)

lemma drive_AssignRole:
  "drive (access_step L RT S c) (Suc (Suc n)) (AssignTx u i a) w =
     (case AssignRoleToUser L RT S c u i a w of (r, w') \<Rightarrow> (Changed r, w'))"
  by (simp add: AssignRoleToUser_def bindS_def bindE_def doS_def split: prod.split sum.split)

lemma drive_RemoveRole:
  "drive (access_step L RT S c) (Suc (Suc n)) (RemoveTx u i) w =
     (case RemoveRoleFromUser L S c u i w of (r, w') \<Rightarrow> (Changed r, w'))"
  by (simp add: RemoveRoleFromUser_def bindS_def bindE_def split: prod.split sum.split)

lemma drive_DropAll:
  "drive (access_step L RT S c) (Suc (length us + n)) (DropAll us) w =
     (case invalidate_all L S us w of (r, w') \<Rightarrow> (Changed r, w'))"
  by (induction us arbitrary: w) (simp_all add: bindS_def okE_def split: prod.split)

text \<open>How many steps a grant takes depends on the number of holders of the role.\<close>

lemma drive_AttachPermission:
  "\<exists>n. \<forall>k. drive (access_step L RT S c) (n + k) (AttachTx i j) w =
     (case AttachPermissionToRole L S c i j w of (r, w') \<Rightarrow> (Changed r, w'))"
proof -
  let ?tx = "RunInTx (rb_txRunner S) c (\<lambda>c. bindE (roles_AttachPermission (rb_roles S) c i j) (\<lambda>_.
       outbox_Create (rb_outbox S) c ''permission.attached'' (permission_attached L i j)))"
  obtain r w1 where t: "?tx w = (r, w1)" by force
  obtain r2 w2 where g: "roles_GetUserIDsForRole (rb_roles S) c i w1 = (r2, w2)" by force
  let ?n = "Suc (Suc (Suc (case r2 of Inr us \<Rightarrow> length us | Inl _ \<Rightarrow> 0)))"
  have "drive (access_step L RT S c) (?n + k) (AttachTx i j) w =
     (case AttachPermissionToRole L S c i j w of (r, w') \<Rightarrow> (Changed r, w'))" for k
    using drive_DropAll [of L RT S c _ k w2]
    by (cases r; cases "rb_cache S"; cases r2)
      (simp_all add: AttachPermissionToRole_def bindS_def bindE_def t g okE_def)
  then show ?thesis by blast
qed

section \<open>What holds of operations that run at the same time\<close>

text \<open>
  The cache may lag behind the database, and an answer may come from a database that has changed
  meanwhile; but every set that the cache may answer with, every set on its way into the cache
  and every answer was right at some moment of the run. And a change that has been committed
  has its event in the outbox.
\<close>

definition once :: "('w \<Rightarrow> store) \<Rightarrow> 'w list \<Rightarrow> uuid \<Rightarrow> string set \<Rightarrow> bool" where
  "once data H u N \<longleftrightarrow> (\<exists>w\<in>set H. N = perm_names (data w) u)"

definition pending_event :: "(json \<Rightarrow> string \<Rightarrow> bool) \<Rightarrow> string \<Rightarrow> json \<Rightarrow> store \<Rightarrow> bool" where
  "pending_event enc ty j s \<longleftrightarrow> (\<exists>b. enc j b \<and> (ty, b, ''pending'') \<in> set (st_events s))"

fun announced :: "lib \<Rightarrow> (json \<Rightarrow> string \<Rightarrow> bool) \<Rightarrow> access \<Rightarrow> store \<Rightarrow> bool" where
  "announced L enc (AssignTx u i a) s = pending_event enc ''role.assigned'' (role_assigned L u i a) s"
| "announced L enc (RemoveTx u i) s = pending_event enc ''role.revoked'' (role_revoked L u i) s"
| "announced L enc (AttachTx i j) s = pending_event enc ''permission.attached'' (permission_attached L i j) s"
| "announced L enc q s = True"

fun access_at ::
  "lib \<Rightarrow> (json \<Rightarrow> string \<Rightarrow> bool) \<Rightarrow> ('w \<Rightarrow> store) \<Rightarrow> ('w \<Rightarrow> bool) \<Rightarrow> access \<Rightarrow> access \<Rightarrow> 'w list \<Rightarrow> bool" where
  "access_at L enc data ok q (CheckRead u p) H \<longleftrightarrow> q = CheckGet u p"
| "access_at L enc data ok q (CheckSet u names allowed) H \<longleftrightarrow>
     (\<exists>p. q = CheckGet u p \<and> once data H u (set names) \<and> allowed = (p \<in> set names))"
| "access_at L enc data ok q (Checked r) H \<longleftrightarrow> (\<exists>u p. q = CheckGet u p \<and> (case r of
     Inr b \<Rightarrow> \<exists>N. once data H u N \<and> b = (p \<in> N) | Inl e \<Rightarrow> \<not> ok (last H)))"
| "access_at L enc data ok q (Holders i) H \<longleftrightarrow> announced L enc q (data (hd H))"
| "access_at L enc data ok q (DropOne u) H \<longleftrightarrow> announced L enc q (data (hd H))"
| "access_at L enc data ok q (DropAll us) H \<longleftrightarrow> announced L enc q (data (hd H))"
| "access_at L enc data ok q (Changed r) H \<longleftrightarrow> (r = Inr () \<longrightarrow> announced L enc q (data (hd H)))"
| "access_at L enc data ok q p H \<longleftrightarrow> p = q"

definition access_inv ::
  "('w \<Rightarrow> store) \<Rightarrow> ('w \<Rightarrow> uuid \<Rightarrow> string set option) \<Rightarrow> ('w \<Rightarrow> bool) \<Rightarrow> 'w list \<Rightarrow> bool" where
  "access_inv data cache ok H \<longleftrightarrow> (\<forall>u N. cache (hd H) u = Some N \<longrightarrow> once data H u N) \<and> (ok (last H) \<longrightarrow> ok (hd H))"

text \<open>\<open>extends s s'\<close>: no event has gone from the outbox. (The relay is not part of these runs.)\<close>

definition extends :: "store \<Rightarrow> store \<Rightarrow> bool" where
  "extends s s' \<longleftrightarrow> set (st_events s) \<subseteq> set (st_events s')"

lemma map_le_Some: "c' \<subseteq>\<^sub>m c \<Longrightarrow> c' v = Some N \<Longrightarrow> c v = Some N"
  by (auto simp: map_le_def dom_def)

lemma once_Cons: "once data H u N \<Longrightarrow> once data (w # H) u N"
  by (auto simp: once_def)

lemma once_now: "once data (w # H) u (perm_names (data w) u)"
  by (auto simp: once_def)

lemma announced_mono: "announced L enc q s \<Longrightarrow> extends s s' \<Longrightarrow> announced L enc q s'"
  by (cases q) (auto simp: pending_event_def extends_def)

lemma access_at_mono:
  assumes "access_at L enc data ok q p H" and "H \<noteq> []" and "extends (data (hd H)) (data w')"
  shows "access_at L enc data ok q p (w' # H)"
proof (cases p)
  case (Checked r)
  with assms show ?thesis by (cases r) (auto intro: once_Cons)
qed (use assms announced_mono [OF _ assms(3), of L enc q] in \<open>auto intro: once_Cons\<close>)

lemma extends_refl [simp]: "extends s s"
  by (simp add: extends_def)

lemma extends_recorded:
  assumes "recorded enc f ty j s s'" and "\<And>s. st_events (f s) = st_events s"
  shows "extends s s'" and "pending_event enc ty j s'"
  using assms by (auto simp: recorded_def extends_def pending_event_def)

lemma drop_events [simp]: "st_events (drop_role i s) = st_events s" "st_events (drop_perm i s) = st_events s"
  by (simp_all add: drop_role_def drop_perm_def)

context rbac_service
begin

abbreviation aat :: "access \<Rightarrow> access \<Rightarrow> 'w list \<Rightarrow> bool" where
  "aat \<equiv> access_at L encodes data (up W)"

definition acts :: "access \<Rightarrow> 'w list \<Rightarrow> 'w \<Rightarrow> access \<Rightarrow> bool" where
  "acts q H w' p \<longleftrightarrow> (up W (hd H) \<longrightarrow> up W w') \<and> extends (data (hd H)) (data w') \<and>
     (\<forall>u N. cache w' u = Some N \<longrightarrow> cache (hd H) u = Some N \<or> once data (w' # H) u N) \<and> aat q p (w' # H)"

text \<open>A transaction with its event, which leaves the cache alone.\<close>

lemma tx_acts:
  assumes run: "RunInTx (rb_txRunner S) Background (\<lambda>c. bindE (m c) (\<lambda>_. outbox_Create (rb_outbox S) c ty j))
      (hd H) = (r, w')"
    and m: "writes W InTx (\<lambda>h s. changed h (P (st s)) (\<lambda>_ s'. st s' = f (st s) \<and> P (st s)) s) (m InTx)"
    and keep: "\<And>s. st_events (f s) = st_events s"
  shows "(up W (hd H) \<longrightarrow> up W w') \<and> extends (data (hd H)) (data w') \<and> cache w' = cache (hd H) \<and>
    (r = Inr () \<longrightarrow> pending_event encodes ty j (data w'))"
proof -
  note T = event_tx [OF run m keep]
  note K = apart_rest [OF apart, OF T [THEN conjunct1]]
  from T have "extends (data (hd H)) (data w') \<and> (r = Inr () \<longrightarrow> pending_event encodes ty j (data w'))"
    using extends_recorded [OF _ keep] by (cases r) auto
  with T K show ?thesis by simp
qed

abbreviation committed_to :: "'w \<Rightarrow> string \<Rightarrow> json \<Rightarrow> error + unit \<Rightarrow> 'w \<Rightarrow> bool" where
  "committed_to w ty j r w' \<equiv> (up W w \<longrightarrow> up W w') \<and> extends (data w) (data w') \<and> cache w' = cache w \<and>
    (r = Inr () \<longrightarrow> pending_event encodes ty j (data w'))"

lemma assign_tx:
  assumes "RunInTx (rb_txRunner S) Background (\<lambda>c. bindE (users_AssignRole (rb_users S) c u i a) (\<lambda>_.
      outbox_Create (rb_outbox S) c ty j)) (hd H) = (r, w')"
  shows "committed_to (hd H) ty j r w'"
proof (rule tx_acts [where P = "assignable u i a", OF assms _ step_sel(1)])
  show "writes W InTx (\<lambda>h s. changed h (assignable u i a (st s))
      (\<lambda>_ s'. st s' = assign u i (st s) \<and> assignable u i a (st s)) s) (users_AssignRole (rb_users S) InTx u i a)"
    unfolding assignable_def assign_def by (rule users.AssignRole)
qed

lemma attach_tx:
  assumes "RunInTx (rb_txRunner S) Background (\<lambda>c. bindE (roles_AttachPermission (rb_roles S) c i p) (\<lambda>_.
      outbox_Create (rb_outbox S) c ty j)) (hd H) = (r, w')"
  shows "committed_to (hd H) ty j r w'"
proof (rule tx_acts [where P = "grantable i p", OF assms _ step_sel(3)])
  show "writes W InTx (\<lambda>h s. changed h (grantable i p (st s))
      (\<lambda>_ s'. st s' = grant i p (st s) \<and> grantable i p (st s)) s) (roles_AttachPermission (rb_roles S) InTx i p)"
    unfolding grantable_def grant_def by (rule roles.AttachPermission)
qed

lemma remove_tx:
  assumes "RunInTx (rb_txRunner S) Background (\<lambda>c. bindE (users_RemoveRole (rb_users S) c u i) (\<lambda>_.
      outbox_Create (rb_outbox S) c ty j)) (hd H) = (r, w')"
  shows "committed_to (hd H) ty j r w'"
proof (rule tx_acts [where P = "\<lambda>_. True", OF assms _ step_sel(2)])
  show "writes W InTx (\<lambda>h s. changed h True (\<lambda>_ s'. st s' = unassign u i (st s) \<and> True) s)
      (users_RemoveRole (rb_users S) InTx u i)"
    unfolding unassign_def simp_thms by (rule users.RemoveRole)
qed

text \<open>A call of the cache.\<close>

lemma cache_call:
  assumes "touched K () w w'"
  shows "data w' = data w" and "up W w \<Longrightarrow> up W w'"
  using apartD(3,4) [OF apart assms] by simp_all

lemma lookup_does:
  assumes "(case rb_cache S of None \<Rightarrow> Pair None | Some _ \<Rightarrow> cache_Get L (rb_cache S) u) w = (got, w')"
  shows "data w' = data w" and "up W w \<Longrightarrow> up W w'" and "cache w' \<subseteq>\<^sub>m cache w"
    and "got = Some f \<Longrightarrow> \<exists>N. cache w u = Some N \<and> (\<forall>p. go_index f p \<longleftrightarrow> p \<in> N)"
proof -
  have "data w' = data w \<and> (up W w \<longrightarrow> up W w') \<and> cache w' \<subseteq>\<^sub>m cache w \<and>
    (got = Some f \<longrightarrow> (\<exists>N. cache w u = Some N \<and> (\<forall>p. go_index f p \<longleftrightarrow> p \<in> N)))"
  proof (cases "rb_cache S")
    case None
    with assms show ?thesis by simp
  next
    case (Some C)
    with assms have "cache_Get L (rb_cache S) u w = (got, w')" by simp
    from writesD [OF cache.Get this] cache_call show ?thesis by auto
  qed
  then show "data w' = data w" "up W w \<Longrightarrow> up W w'" "cache w' \<subseteq>\<^sub>m cache w"
    "got = Some f \<Longrightarrow> \<exists>N. cache w u = Some N \<and> (\<forall>p. go_index f p \<longleftrightarrow> p \<in> N)" by auto
qed

lemma put_does:
  assumes "(case rb_cache S of None \<Rightarrow> Pair () | Some _ \<Rightarrow> cache_Set L (rb_cache S) u names) w = (x, w')"
  shows "data w' = data w" and "up W w \<Longrightarrow> up W w'"
    and "cache w' v = Some N \<Longrightarrow> cache w v = Some N \<or> v = u \<and> N = set names"
proof -
  have "data w' = data w \<and> (up W w \<longrightarrow> up W w') \<and>
    (cache w' \<subseteq>\<^sub>m cache w \<or> cache w' \<subseteq>\<^sub>m (cache w)(u \<mapsto> set names))"
  proof (cases "rb_cache S")
    case None
    with assms show ?thesis by simp
  next
    case (Some C)
    with assms have "cache_Set L (rb_cache S) u names w = (x, w')" by simp
    from writesD [OF cache.Put this] cache_call show ?thesis by auto
  qed
  then show "data w' = data w" "up W w \<Longrightarrow> up W w'"
    "cache w' v = Some N \<Longrightarrow> cache w v = Some N \<or> v = u \<and> N = set names"
    by (auto dest: map_le_Some split: if_splits)
qed

lemma acts_same:
  assumes "up W (hd H) \<Longrightarrow> up W w'" and "data w' = data (hd H)" and "cache w' \<subseteq>\<^sub>m cache (hd H)"
    and "aat q p (w' # H)"
  shows "acts q H w' p"
  using assms by (auto simp: acts_def dest: map_le_Some)

lemma once_hd: "H \<noteq> [] \<Longrightarrow> once data H u (perm_names (data (hd H)) u)"
  unfolding once_def by (intro bexI [of _ "hd H"]) auto

lemma step_check:
  assumes step: "access_step L RT S Background p (hd H) = (p', w')" and at: "aat q p H" and H: "H \<noteq> []"
    and inv: "access_inv data cache (up W) H"
    and p: "p = CheckGet u n \<or> p = CheckRead u n \<or> p = CheckSet u names allowed"
  shows "acts q H w' p'"
  using p
proof (elim disjE)
  assume p: "p = CheckGet u n"
  obtain got w1 where g: "(case rb_cache S of None \<Rightarrow> Pair None | Some _ \<Rightarrow> cache_Get L (rb_cache S) u) (hd H) = (got, w1)"
    by (metis surj_pair)
  note G = lookup_does [OF g]
  show ?thesis
  proof (cases got)
    case None
    with step p g have "p' = CheckRead u n" "w' = rt_Inc RT RedisCacheMissTotal w1"
      by (auto simp: bindS_def doS_def)
    with G at p show ?thesis
      by (intro acts_same) (auto simp: db.Inc_seen rd.Inc_seen intro: db.Inc_up)
  next
    case (Some f)
    with step p g have p': "p' = Checked (Inr (go_index f n))" and w': "w' =
        rt_Inc RT (PermissionChecksTotal ''hit'' (resultLabel (go_index f n))) (rt_Inc RT RedisCacheHitTotal w1)"
      by (auto simp: bindS_def doS_def Let_def)
    from G(4) [OF Some] obtain N where N: "cache (hd H) u = Some N" "go_index f n = (n \<in> N)" by blast
    with inv have "once data (w' # H) u N" by (auto simp: access_inv_def intro: once_Cons)
    with G w' N at p show ?thesis unfolding p'
      by (intro acts_same) (auto simp: db.Inc_seen rd.Inc_seen intro: db.Inc_up)
  qed
next
  assume p: "p = CheckRead u n"
  obtain r where g: "users_GetPermissions (rb_users S) Background u (hd H) = (r, w')"
    and p': "p' = (case r of Inl err \<Rightarrow> Checked (Inl err)
      | Inr perms \<Rightarrow> (let (names, allowed) = scan_perms n perms ([], False) in CheckSet u names allowed))"
    using step p by (auto simp: bindS_eq)
  note G = readsD [OF users.GetPermissions g]
  note K2 = apart_untouched [OF apart, OF G [THEN conjunct1]]
  have "aat q p' (w' # H)"
  proof (cases r)
    case (Inl e)
    with G inv have "\<not> up W (last H)" by (auto simp: access_inv_def)
    with Inl p' at p H show ?thesis by auto
  next
    case (Inr ps)
    with G have "p_Name ` set ps = perm_names (data (hd H)) u" by (simp add: perm_names_def)
    with once_Cons [OF once_hd [OF H]] p' Inr at p show ?thesis by (simp add: scan_perms_eq)
  qed
  with G K2 show ?thesis by (intro acts_same) (auto simp: untouched_seen untouched_up)
next
  assume p: "p = CheckSet u names allowed"
  obtain x w1 where g: "(case rb_cache S of None \<Rightarrow> Pair ()
      | Some _ \<Rightarrow> cache_Set L (rb_cache S) u names) (hd H) = (x, w1)" by (metis surj_pair)
  note G = put_does [OF g]
  from step p g have p': "p' = Checked (Inr allowed)"
    and w': "w' = rt_Inc RT (PermissionChecksTotal ''miss'' (resultLabel allowed)) w1"
    by (auto simp: bindS_def doS_def)
  from at p have c: "once data (w' # H) u (set names)" and at': "aat q p' (w' # H)"
    unfolding p' by (auto intro: once_Cons)
  show ?thesis unfolding acts_def
  proof (intro conjI allI impI)
    show "up W (hd H) \<Longrightarrow> up W w'" using G(2) w' by (auto intro: db.Inc_up)
    show "extends (data (hd H)) (data w')" using G(1) w' by (simp add: db.Inc_seen)
    show "aat q p' (w' # H)" by (rule at')
    fix v N assume "cache w' v = Some N"
    with G(3) [of v N] w' c show "cache (hd H) v = Some N \<or> once data (w' # H) v N" by (auto simp: rd.Inc_seen)
  qed
qed

lemma acts_tx:
  assumes "committed_to (hd H) ty j r w'" and "r = Inr () \<Longrightarrow> pending_event encodes ty j (data w') \<Longrightarrow> aat q p (w' # H)"
    and "\<And>e. r = Inl e \<Longrightarrow> aat q p (w' # H)"
  shows "acts q H w' p"
  using assms by (cases r) (auto simp: acts_def)

lemma step_change:
  assumes step: "access_step L RT S Background p (hd H) = (p', w')" and at: "aat q p H" and H: "H \<noteq> []"
    and p: "p = AssignTx u i a \<or> p = RemoveTx u i \<or> p = AttachTx i j"
  shows "acts q H w' p'"
  using p
proof (elim disjE)
  assume p: "p = AssignTx u i a"
  obtain r w1 where t: "RunInTx (rb_txRunner S) Background (\<lambda>c. bindE (users_AssignRole (rb_users S) c u i a) (\<lambda>_.
       outbox_Create (rb_outbox S) c ''role.assigned'' (role_assigned L u i a))) (hd H) = (r, w1)" by force
  note T = assign_tx [OF t]
  show ?thesis
  proof (cases r)
    case (Inl e)
    with step p t have "w' = w1" "p' = Changed (Inl e)" by (simp_all add: bindS_def)
    with T Inl show ?thesis by (intro acts_tx [OF T [folded \<open>w' = w1\<close>]]) simp_all
  next
    case (Inr x)
    with step p t have "w' = rt_Inc RT RoleAssignmentsTotal w1" "p' = DropOne u"
      by (simp_all add: bindS_def doS_def)
    with T Inr at p show ?thesis
      by (auto simp: acts_def db.Inc_seen rd.Inc_seen intro: db.Inc_up)
  qed
next
  assume p: "p = RemoveTx u i"
  obtain r where t: "RunInTx (rb_txRunner S) Background (\<lambda>c. bindE (users_RemoveRole (rb_users S) c u i) (\<lambda>_.
       outbox_Create (rb_outbox S) c ''role.revoked'' (role_revoked L u i))) (hd H) = (r, w')"
    and p': "p' = (case r of Inl err \<Rightarrow> Changed (Inl err) | Inr _ \<Rightarrow> DropOne u)"
    using step p by (auto simp: bindS_eq)
  show ?thesis by (rule acts_tx [OF remove_tx [OF t]]) (use at p p' in auto)
next
  assume p: "p = AttachTx i j"
  obtain r where t: "RunInTx (rb_txRunner S) Background (\<lambda>c. bindE (roles_AttachPermission (rb_roles S) c i j) (\<lambda>_.
       outbox_Create (rb_outbox S) c ''permission.attached'' (permission_attached L i j))) (hd H) = (r, w')"
    and p': "p' = (case r of Inl err \<Rightarrow> Changed (Inl err)
      | Inr _ \<Rightarrow> (case rb_cache S of None \<Rightarrow> Changed (Inr ()) | Some _ \<Rightarrow> Holders i))"
    using step p by (auto simp: bindS_eq)
  show ?thesis by (rule acts_tx [OF attach_tx [OF t]]) (use at p p' in \<open>auto split: option.splits\<close>)
qed

lemma step_drop:
  assumes step: "access_step L RT S Background p (hd H) = (p', w')" and at: "aat q p H" and H: "H \<noteq> []"
    and p: "p = Holders i \<or> p = DropOne u \<or> p = DropAll us \<or> p = RoleDelete i \<or> p = PermDelete i"
  shows "acts q H w' p'"
  using p
proof (elim disjE)
  assume p: "p = Holders i"
  obtain r where g: "roles_GetUserIDsForRole (rb_roles S) Background i (hd H) = (r, w')"
    and p': "p' = (case r of Inl _ \<Rightarrow> Changed (Inr ()) | Inr us \<Rightarrow> DropAll us)"
    using step p by (auto simp: bindS_eq)
  note G = readsD [OF roles.GetUserIDsForRole g, THEN conjunct1]
  from G apart_untouched [OF apart G] at p show ?thesis
    by (intro acts_same) (auto simp: p' untouched_seen untouched_up split: sum.splits)
next
  assume p: "p = DropOne u"
  with step obtain r where i: "invalidate L S u (hd H) = (r, w')" and p': "p' = Changed r" by (auto simp: bindS_eq)
  from invalidate_run [OF i] at p p' show ?thesis by (intro acts_same) auto
next
  assume p: "p = DropAll us"
  show ?thesis
  proof (cases us)
    case Nil
    with step p at show ?thesis by (intro acts_same) auto
  next
    case (Cons u us')
    with step p obtain r where i: "cache_Invalidate L (rb_cache S) u (hd H) = (r, w')" and p': "p' = DropAll us'"
      by (auto simp: bindS_eq)
    note I = writesD [OF cache.Invalidate i]
    from I cache_call [OF I [THEN conjunct1]] at p p' show ?thesis by (intro acts_same) auto
  qed
next
  assume p: "p = RoleDelete i"
  with step obtain r where d: "DeleteRole S Background i (hd H) = (r, w')" and p': "p' = Changed r"
    by (auto simp: bindS_eq)
  note D = DeleteRole_run [OF d] writesD [OF roles.RoleDelete d [unfolded DeleteRole_def], THEN conjunct1]
  from at p have q: "q = RoleDelete i" by simp
  with D show ?thesis unfolding p' by (cases r) (auto simp: acts_def extends_def touched_up)
next
  assume p: "p = PermDelete i"
  with step obtain r where d: "DeletePermission S Background i (hd H) = (r, w')" and p': "p' = Changed r"
    by (auto simp: bindS_eq)
  note D = DeletePermission_run [OF d] writesD [OF perms.PermDelete d [unfolded DeletePermission_def], THEN conjunct1]
  from at p have q: "q = PermDelete i" by simp
  with D show ?thesis unfolding p' by (cases r) (auto simp: acts_def extends_def touched_up)
qed

lemma access_acts:
  assumes step: "access_step L RT S Background p (hd H) = (p', w')" and at: "aat q p H" and H: "H \<noteq> []"
    and inv: "access_inv data cache (up W) H"
  shows "acts q H w' p'"
proof (cases p)
  case (Checked r)
  with step have "p' = p" "w' = hd H" by auto
  with access_at_mono [OF at H] show ?thesis by (intro acts_same) auto
next
  case (Changed r)
  with step have "p' = p" "w' = hd H" by auto
  with access_at_mono [OF at H] show ?thesis by (intro acts_same) auto
qed (auto intro: step_check [OF step at H inv] step_change [OF step at H] step_drop [OF step at H])

end

sublocale rbac_service \<subseteq> checks: free_threads "access_step L RT S Background" "access_inv data cache (up W)"
  "access_at L encodes data (up W)"
proof
  fix H q p p' w' assume H: "H \<noteq> []" and I: "access_inv data cache (up W) H"
    and "access_at L encodes data (up W) q p H" "access_step L RT S Background p (hd H) = (p', w')"
  then have A: "acts q H w' p'" by (intro access_acts)
  have "once data (w' # H) u N" if "cache w' u = Some N" for u N
    using A I that once_Cons [of data H u N w'] unfolding acts_def access_inv_def by blast
  with A I H have "access_inv data cache (up W) (w' # H)" by (auto simp: acts_def access_inv_def)
  with A show "access_inv data cache (up W) (w' # H) \<and> access_at L encodes data (up W) q p' (w' # H)"
    by (simp add: acts_def)
next
  fix H q p q1 p1 p' w' assume "H \<noteq> []" "access_inv data cache (up W) H" "access_at L encodes data (up W) q p H"
    "access_at L encodes data (up W) q1 p1 H" "access_step L RT S Background p1 (hd H) = (p', w')"
  then have "acts q1 H w' p'" by (intro access_acts)
  then have "extends (data (hd H)) (data w')" by (simp add: acts_def)
  with \<open>access_at L encodes data (up W) q p H\<close> \<open>H \<noteq> []\<close>
  show "access_at L encodes data (up W) q p (w' # H)" by (rule access_at_mono)
qed

text \<open>The points at which an operation is about to begin.\<close>

fun access_start :: "access \<Rightarrow> bool" where
  "access_start (CheckGet u p) = True"
| "access_start (AssignTx u i a) = True"
| "access_start (RemoveTx u i) = True"
| "access_start (AttachTx i j) = True"
| "access_start (RoleDelete i) = True"
| "access_start (PermDelete i) = True"
| "access_start p = False"

context rbac_service
begin

lemma checks_run:
  assumes run: "interleave (access_step L RT S Background) is (ps, [w]) = (ps', H)"
    and start: "\<And>p. p \<in> set ps \<Longrightarrow> access_start p" and coh: "fresh_cache w"
  shows "H \<noteq> [] \<and> last H = w \<and> (\<forall>u N. cache (hd H) u = Some N \<longrightarrow> once data H u N) \<and>
    length ps' = length ps \<and> (\<forall>k<length ps. aat (ps ! k) (ps' ! k) H)"
proof -
  have inv: "access_inv data cache (up W) [w]"
    using coh by (auto simp: access_inv_def once_def coherent_def)
  have "aat p p [w]" if "access_start p" for p
    using that by (cases p) auto
  with start have "aat (ps ! j) (ps ! j) [w]" if "j < length ps" for j using that by simp
  note R = checks.run_in_order [OF run inv checks.free_apart refl this]
  then show ?thesis by (simp add: access_inv_def)
qed

end

end
