(* ===== verification/Props_Threads.thy ===== *)
theory Props_Threads
  imports Props_Auth Sessions Checks
begin

text \<open>
  Properties of operations that run at the same time: what survives every interleaving of their
  steps, and the examples of what does not.
\<close>

section \<open>Sessions\<close>

text \<open>Operations on the example world with the refresh token \<open>r\<close>, and whether one got its pair.\<close>

abbreviation demo_sessions :: "nat list \<Rightarrow> session list \<Rightarrow> session list \<times> redis_world list" where
  "demo_sessions is ps \<equiv> interleave (session_step ref_lib brief_jwt brief_runtime brief_auth Background) is
     (ps, [demo_session])"

definition got_pair :: "session \<Rightarrow> bool" where
  "got_pair p = (case p of Issued (Inr _) \<Rightarrow> True | _ \<Rightarrow> False)"

lemma got_pairE: "got_pair p \<Longrightarrow> (\<And>t. p = Issued (Inr t) \<Longrightarrow> P) \<Longrightarrow> P"
  by (auto simp: got_pair_def split: session.splits sum.splits)

context pg_platform
begin

lemmas sessions_run = auth.sessions_run [unfolded pg_window_sel dbFromContext_simps]

end

text \<open>
  C14. Signups, logins, refreshes and logouts at the same time, any number of them in any interleaving of
  their calls: no account and no stored token disappears and no token that was revoked comes back to
  life. A signup that succeeds has made an active account for its email, which was free when it all
  began, and no two signups succeed for the same email. A refresh that
  ends with a pair had a stored token with the hash of the one presented that was not expired,
  was not revoked when it all began, and is revoked now; the token of the new pair is stored for
  the same user. A logout that ends while the database is up reports success and leaves a
  token with the hash of the one presented revoked, if there was one. A login that ends with a pair
  had, at some moment, an active account with that email and password.
\<close>

theorem concurrent_sessions:
  assumes "pg_platform V G jsonb fits coll RT K D ttl L"
    and "interleave (session_step L J RT (authSvc G D RT m d) Background) is (ps, [w]) = (ps', H)"
    and "\<And>p. p \<in> set ps \<Longrightarrow> session_start p"
  shows "kept (db_store V w) (db_store V (hd H)) \<and>
    (\<forall>j email pw name u. j < length ps \<longrightarrow> ps ! j = SignupLookup email pw name \<longrightarrow> ps' ! j = SignedUp (Inr u) \<longrightarrow>
      u \<in> st_users (db_store V (hd H)) \<and> u_Email u = email \<and> u_FullName u = name \<and> u_IsActive u \<and>
      email \<notin> u_Email ` st_users (db_store V w) \<and>
      (\<forall>k v. k < length ps \<longrightarrow> k \<noteq> j \<longrightarrow> ps' ! k = SignedUp (Inr v) \<longrightarrow> u_Email v \<noteq> email)) \<and>
    (\<forall>j raw p. j < length ps \<longrightarrow> ps ! j = RefreshLookup raw \<longrightarrow> ps' ! j = Issued (Inr p) \<longrightarrow>
      (\<exists>i t. redeemed L RT raw i (db_store V w) (db_store V (hd H)) \<and> token_stored t (db_store V (hd H)) \<and>
        t_UserID t = i \<and> t_TokenHash t = hashToken L (tp_RefreshToken p))) \<and>
    (\<forall>j raw jti left r t. j < length ps \<longrightarrow> ps ! j = LogoutBan raw jti left \<longrightarrow> ps' ! j = LoggedOut r \<longrightarrow>
      up V w \<longrightarrow> r = Inr () \<and> (token_stored t (db_store V w) \<longrightarrow> t_TokenHash t = hashToken L raw \<longrightarrow>
        (\<exists>t'. token_stored t' (db_store V (hd H)) \<and> t_TokenHash t' = hashToken L raw \<and>
          spent (t_ID t') (db_store V (hd H))))) \<and>
    (\<forall>j email pw p. j < length ps \<longrightarrow> ps ! j = LoginLookup email pw \<longrightarrow> ps' ! j = Issued (Inr p) \<longrightarrow>
      (\<exists>i. \<exists>v\<in>set H. vouched L email pw i (db_store V v)))"
proof -
  note R = pg_platform.sessions_run [OF assms]
  from R have at: "session_at L RT (db_store V) (up V) (ps ! j) (ps' ! j) H" if "j < length ps" for j
    using that by blast
  from R have riv: "rivals (ps' ! j) (ps' ! k)" if "j < length ps" "k < length ps" "j \<noteq> k" for j k
    using that by blast
  from R have last: "last H = w" and kept: "kept (db_store V w) (db_store V (hd H))" by blast+
  have joined: "joined RT (SignupLookup email pw name) u (db_store V w) (db_store V (hd H))"
    if "j < length ps" "ps ! j = SignupLookup email pw name" "ps' ! j = SignedUp (Inr u)" for j email pw name u
    using at [OF that(1)] that(2,3) last by simp
  have other: "u_Email v \<noteq> u_Email u"
    if "j < length ps" "k < length ps" "k \<noteq> j" "ps' ! j = SignedUp (Inr u)" "ps' ! k = SignedUp (Inr v)" for j k u v
    using riv [OF that(2,1,3)] that(4,5) by (simp add: rivals_def)
  have signup: "u \<in> st_users (db_store V (hd H)) \<and> u_Email u = email \<and> u_FullName u = name \<and> u_IsActive u \<and>
      email \<notin> u_Email ` st_users (db_store V w) \<and>
      (\<forall>k v. k < length ps \<longrightarrow> k \<noteq> j \<longrightarrow> ps' ! k = SignedUp (Inr v) \<longrightarrow> u_Email v \<noteq> email)"
    if j: "j < length ps" "ps ! j = SignupLookup email pw name" "ps' ! j = SignedUp (Inr u)" for j email pw name u
    using joined [OF j] other [OF j(1) _ _ j(3)] by (simp del: store_of_sel)
  have refresh: "\<exists>i t. redeemed L RT raw i (db_store V w) (db_store V (hd H)) \<and>
      token_stored t (db_store V (hd H)) \<and> t_UserID t = i \<and> t_TokenHash t = hashToken L (tp_RefreshToken p)"
    if "j < length ps" "ps ! j = RefreshLookup raw" "ps' ! j = Issued (Inr p)" for j raw p
    using at [OF that(1)] that(2,3) last by auto
  have login: "\<exists>i. \<exists>v\<in>set H. vouched L email pw i (db_store V v)"
    if "j < length ps" "ps ! j = LoginLookup email pw" "ps' ! j = Issued (Inr p)" for j email pw p
    using at [OF that(1)] that(2,3) by auto
  have logout: "r = Inr () \<and> (token_stored t (db_store V w) \<longrightarrow> t_TokenHash t = hashToken L raw \<longrightarrow>
      (\<exists>t'. token_stored t' (db_store V (hd H)) \<and> t_TokenHash t' = hashToken L raw \<and>
        spent (t_ID t') (db_store V (hd H))))"
    if "j < length ps" "ps ! j = LogoutBan raw jti left" "ps' ! j = LoggedOut r" "up V w" for j raw jti left r t
    using at [OF that(1)] that(2-4) last by auto
  show ?thesis by (intro conjI kept allI impI signup refresh login logout; assumption)
qed

theorem concurrent_sessions_witness:
  "case demo_sessions [0,1,0,1,0,1,0,0,0] [RefreshLookup ''r'', LoginLookup ''ben@x'' ''secret''] of (ps, H) \<Rightarrow>
     got_pair (ps ! 0) \<and> got_pair (ps ! 1) \<and>
     (\<exists>i. redeemed ref_lib brief_runtime ''r'' i (db_store ref_window demo_session) (db_store ref_window (hd H))) \<and>
     (\<exists>i. \<exists>v\<in>set H. vouched ref_lib ''ben@x'' ''secret'' i (db_store ref_window v))"
proof -
  let ?ps = "[RefreshLookup ''r'', LoginLookup ''ben@x'' ''secret'']"
  obtain ps H where run: "demo_sessions [0,1,0,1,0,1,0,0,0] ?ps = (ps, H)" by force
  have "case demo_sessions [0,1,0,1,0,1,0,0,0] ?ps of (ps, H) \<Rightarrow> got_pair (ps ! 0) \<and> got_pair (ps ! 1)"
    by code_simp
  with run have got: "got_pair (ps ! 0)" "got_pair (ps ! 1)" by simp_all
  then obtain p0 p1 where p: "ps ! 0 = Issued (Inr p0)" "ps ! 1 = Issued (Inr p1)" by (elim got_pairE)
  have start: "q \<in> set ?ps \<Longrightarrow> session_start q" for q by auto
  note C = concurrent_sessions [OF brief_platform.pg_platform_axioms run start]
  from C [THEN conjunct2, THEN conjunct2, THEN conjunct1, rule_format, of 0 "''r''" p0] p(1)
    C [THEN conjunct2, THEN conjunct2, THEN conjunct2, THEN conjunct2, rule_format, of 1 "''ben@x''" "''secret''" p1] p(2)
  show ?thesis unfolding run by (auto simp: got_pair_def simp del: store_of_sel)
qed

text \<open>
  The limit of this: the token is read and tested before it is revoked, and the revocation does not
  say whether it changed anything, so two refreshes that present the same token at the same time
  may both get a pair.
\<close>

lemma refresh_race:
  "list_all got_pair (fst (demo_sessions [0,1,0,1,0,1,0,1,0,1,0,1] [RefreshLookup ''r'', RefreshLookup ''r'']))"
  by code_simp

text \<open>
  And of two signups with the same email that have both found it free, one fails with the error of the
  database's unique index, which is not \<open>ErrAlreadyExists\<close>.
\<close>

lemma signup_race:
  "case demo_sessions [0,1,0,1] [SignupLookup ''cy@x'' ''p'' ''Cy'', SignupLookup ''cy@x'' ''p'' ''Cy''] of (ps, H) \<Rightarrow>
     (case ps ! 1 of SignedUp (Inl e) \<Rightarrow> e \<noteq> ErrAlreadyExists | _ \<Rightarrow> False)"
  by code_simp

section \<open>Checks and changes\<close>







context pg_platform
begin

lemmas checks_run = rbac.checks_run [unfolded pg_window_sel dbFromContext_simps]

end




end
