(* ===== verification/Spec2Isabelle.thy ===== *)
theory Spec2Isabelle
  imports Answers Seed Props_Rbac Props_Auth Props_Http Props_Cache Props_Events Props_System Props_Threads
begin

text \<open>
  A model of the RBAC platform: the Go program \<open>cmd/server\<close>, an HTTP service for users, roles,
  permissions and assignments, on Postgres, with Redis and RabbitMQ as optional helpers.

  \<^bold>\<open>The program's parts and how they interact.\<close> A request passes the middleware (recovery, metrics,
  tracing, rate limit), and on protected routes the check of its JWT; some routes have a gate in
  front that takes a permission, or a handler that asks for one. The handlers call the
  services (\<open>internal/auth\<close>, \<open>internal/rbac\<close>, \<open>internal/user\<close>), which call the repositories
  (\<open>internal/repository/postgres\<close>) and the wrappers of Redis (\<open>internal/platform/cache\<close>). A change
  of an assignment or a grant writes an event into an outbox table in the same transaction; the
  relay (\<open>internal/outbox\<close>) publishes the pending events to a topic exchange, and three consumers
  (\<open>internal/audit\<close>, \<open>notification\<close>, \<open>analytics\<close>) read them from their queues, with retries and
  dead-letter queues (\<open>internal/platform/rabbitmq\<close>).

  \<^bold>\<open>How the code is modelled.\<close> A Go function that calls outside code is a command: a function from
  a world to a result and a world; an \<open>error\<close> result is the left side of a sum. The world is
  arbitrary: Postgres, Redis, the broker, the clock and so on are records of operations (\<open>gorm\<close>,
  \<open>redis\<close>, \<open>channel\<close>, \<open>runtime\<close>, \<open>lib\<close>, \<open>jwtlib\<close>, \<open>ginlib\<close>, \<open>clients\<close>, \<open>otel\<close>) that the definitions
  take as arguments. What is relied on of each is a locale over a window on the world, which
  says what of the world is visible of it, and whether it is up. Every locale is interpreted on
  an executable reference implementation, which the examples run on; every interface of the
  code's own (its repositories, cache, blacklist, transaction runner, consumers' handlers) is a
  locale that is interpreted on the model of the code that implements it, so that the services
  are verified against the contracts and composed in \<open>Wiring\<close>.

  \<^item> \<open>Prelude\<close>: commands (\<open>bindE\<close> is Go's \<open>if err != nil { return err }\<close>, \<open>bindS\<close> looks at the error),
    64-bit \<open>int\<close>s are left unbounded except where they wrap or saturate (\<open>Atoi\<close>, retry counts on
    32 bits, event numbers on 64); \<open>Contracts\<close>: windows, reads, writes, transactions.
  \<^item> \<open>Domain\<close>: \<open>internal/domain\<close>, the abstract store, and the repositories' contracts.
  \<^item> \<open>Schema\<close>, \<open>Seed\<close>: the tables of \<open>migrations\<close> with their keys, and the data inserted. \<open>Gorm\<close>: the
    calls of GORM that the code makes and what they do to tables.
  \<^item> \<open>PgBase\<close>, \<open>UserRepo\<close>, \<open>RoleRepo\<close>, \<open>TokenRepo\<close>, \<open>OutboxRepo\<close>, \<open>AuditRepo\<close>: the repositories.
  \<^item> \<open>Platform\<close>, \<open>Redis\<close>, \<open>Jwt\<close>, \<open>Cache\<close>: \<open>internal/platform\<close> with the libraries it uses.
  \<^item> \<open>RbacService\<close>, \<open>AuthService\<close>, \<open>UserService\<close>; \<open>Wiring\<close>: the services on Postgres and Redis;
    \<open>Coherence\<close>: the RBAC service without its cache, and runs of its operations, whatever their outcome
    and whether or not their invalidations of the cache take effect.
  \<^item> \<open>Http\<close> (the error envelope and what is used of gin), \<open>Middleware\<close>, \<open>AuthHandler\<close>, \<open>RbacHandler\<close>,
    \<open>UserHandler\<close>, \<open>AuditHandler\<close>, \<open>Config\<close>; \<open>Server\<close>: the router of \<open>main\<close>, and what it
    means that a request presents a token (\<open>presents\<close>), by the clock and the blacklist as they are when the request
    reaches its route; \<open>Access\<close>, \<open>Answers\<close>: what
    holds of every route.
  \<^item> \<open>Broker\<close>, \<open>Rabbit\<close>, \<open>Relay\<close>, \<open>Consumers\<close>: an AMQP broker, the topology and the consumers' loop, the
    relay, the three handlers.
  \<^item> \<open>Startup\<close>: \<open>main\<close> from the configuration to the end (\<open>program\<close>), with the two ways it fails; \<open>System\<close>: runs of the whole program,
    requests, relay and consumers in any order, as an inductive relation.
  \<^item> \<open>Threads\<close>: operations as sequences of steps, each with at most one call to the outside, and the
    interleavings of any number of them by a schedule, with a rule for invariants in the manner of
    Owicki and Gries as a locale. \<open>Sessions\<close> (signup, login, refresh and logout), \<open>Checks\<close> (the check, the
    assignments, revocations, grants and deletions), \<open>Relays\<close> (batches of several relays) and \<open>Workers\<close>
    (deliveries to several consumers) give these operations of \<open>AuthService\<close>, \<open>RbacService\<close>, \<open>Relay\<close>
    and \<open>Rabbit\<close> step by step, show that the steps of one
    operation on its own are the operation, and instantiate the locale.

  \<^bold>\<open>What is shown.\<close> \<open>Props_Rbac\<close>, \<open>Props_Cache\<close>: a check answers by the roles in the database, with
  the cache as without; assignments, revocations and grants are atomic with their events and
  keep the cache coherent, and over any run a check answers by the database as it is, or, after a deletion or
  an invalidation that was lost, as it was less than ten minutes ago. \<open>Props_Auth\<close>: signup,
  login, refresh with rotation, logout, tokens. \<open>Props_Http\<close>, and here: what a request may change
  and on whose behalf, for every route; the gates, the rate limit, the blacklist, the pages; every
  request is answered. \<open>Props_Events\<close>: the topology, the relay, no event left behind, retries that end.
  \<open>Props_System\<close>: starting without Redis, tracing or RabbitMQ, an invariant of all runs, and the way of an
  assignment into the audit log. \<open>Props_Threads\<close>, and \<open>Props_Events\<close> for the relays and
  consumers: what survives every
  interleaving, and by example what does not: of two signups for one email the loser gets an error of
  the database, two refreshes may redeem one token, a set read before a revocation may enter the
  cache after it, two relays may publish one event.

  \<^bold>\<open>Bounds.\<close> There is no fuel. The loops that run for ever, the relay's and the consumers', are
  functions of the list of what their \<open>select\<close> sees: ticks, deliveries, the end. Batches are
  of fifty events and a message is retried three times, as in the code.

  \<^bold>\<open>Not modelled.\<close> Log lines; the registration of the metrics (their counts are calls of the
  runtime); cancellation of contexts and time-outs. Operations interleave call by call in the theories
  above for sessions, checks, relays and consumers, each group on its own; everywhere else an operation runs as
  one step, and a transaction always does, though its calls may fail at any point, Redis may
  lose keys and a commit may be lost. Signing, hashing, JSON, UUIDs and \<open>Run\<close> of the router are library functions, the first four with
  hypotheses on them. The logger, the front end, the deployment files, and
  the protobuf files, which no Go code uses, are outside.
\<close>


section \<open>Who may do what\<close>

text \<open>
  C1. The check is right: with a coherent cache, \<open>Authorize\<close> answers whether the user holds
  the permission through one of his roles, on a cache hit as on a miss; it fails only
  when the database does, whatever Redis does; it changes nothing in the database and
  leaves a coherent cache.
\<close>

theorem authorize_correct:
  assumes "pg_platform V G jsonb fits coll RT K D ttl L"
    and "Authorize L RT (rbacSvc G D L) Background u p w = (r, w')"
    and "coherent (cache_of L K D w) (perm_names (db_store V w))"
  shows "(case r of Inr b \<Rightarrow> b = (p \<in> perm_names (db_store V w) u) | Inl e \<Rightarrow> \<not> up V w) \<and>
    db_store V w' = db_store V w \<and>
    coherent (cache_of L K D w') (perm_names (db_store V w'))"
  using pg_platform.Authorize_correct [OF assms] by simp

theorem authorize_correct_witness:
  "fst (Authorize ref_lib ref_runtime ref_rbac Background 2 ''view_profile'' demo) = Inr True \<and>
   ''view_profile'' \<in> perm_names (db_store ref_window demo) 2"
proof -
  have run: "fst (Authorize ref_lib ref_runtime ref_rbac Background 2 ''view_profile'' demo) = Inr True"
    by code_simp
  from authorize_correct [where u = 2 and p = "''view_profile''",
      OF ref_platform.pg_platform_axioms prod.collapse [symmetric] demo_coherent] run
  show ?thesis by simp
qed


text \<open>
  C3. Without such a token a protected route answers 401, or 429 before that, and neither the
  database nor the permission cache nor the blacklist changes, but for the time that passes: so it is
  for a request with no token, with one that was not signed with the secret, with one that has expired,
  or is not valid yet, when \<open>JWTAuth\<close> reads the clock, and, while Redis is up, with one that is on the
  blacklist when \<open>JWTAuth\<close> asks.
\<close>

theorem unauthenticated_refused:
  assumes "web V G jsonb fits coll RT K D ttl L J authentic plain_claims GL TR prom"
    and "router L GL J RT TR prom G D cfg (new_context q) w = (c', w')"
    and "(rq_Method q, rq_FullPath q) \<in> fst ` set (under ''/api/v1'' (protected_routes L GL RT G D cfg))"
    and "\<And>cl. \<not> presents K RT TR D (authentic SigningMethodHMAC (cfg_JWTSecret cfg)) q cl w"
  shows "(status_of c' = Some 401 \<or> status_of c' = Some 429) \<and> waited V K L D w w'"
  by (rule web.unauthenticated [OF assms(1-3) assms(4) [unfolded presents_def]])

text \<open>A request to delete a role, with no token.\<close>

definition demo_request :: request where
  "demo_request = \<lparr>rq_Method = ''DELETE'', rq_Header = (\<lambda>_. []), rq_Param = (\<lambda>_. ref_bytes 7 16),
     rq_Query = (\<lambda>_. None), rq_Body = [], rq_ClientIP = ''10.0.0.1'',
     rq_FullPath = ''/api/v1/roles/:id''\<rparr>"

abbreviation demo_serve :: "request \<Rightarrow> redis_world \<Rightarrow> gin_context \<times> redis_world" where
  "demo_serve q \<equiv> router ref_lib ref_gin ref_jwt ref_runtime ref_tracer (JSON 200 JNull) ref_gorm ref_redis
     (Load (\<lambda>_. [])) (new_context q)"



text \<open>
  Two requests whose tokens are signed with the secret: the first has expired, on a clock that moves on
  with each reading, and the second is on the blacklist, in an entry with a time to live.
\<close>

definition demo_claims_of :: "time option \<Rightarrow> Claims" where
  "demo_claims_of exp = \<lparr>cl_UserID = 1, cl_Roles = [''admin''], cl_Issuer = [], cl_Subject = [],
     cl_Audience = [], cl_ExpiresAt = exp, cl_NotBefore = None, cl_IssuedAt = None, cl_ID = ''j''\<rparr>"

definition demo_bearer :: "time option \<Rightarrow> request" where
  "demo_bearer exp = demo_request\<lparr>rq_Header := (\<lambda>_. ''Bearer '' @
     the (ref_Signed (demo_claims_of exp) (cfg_JWTSecret (Load (\<lambda>_. [])))))\<rparr>"

definition demo_listed :: redis_world where
  "demo_listed = demo\<lparr>rw_state := \<lparr>rs_keys = [blacklist_key ''j'' \<mapsto> (RStr ''1'', Some 1000)], rs_now = 0\<rparr>\<rparr>"

lemma demo_bearer_claims:
  assumes "exp = None \<or> exp = Some 50"
    and "rq_Header (demo_bearer exp) ''Authorization'' = ''Bearer '' @ tok"
    and "ref_authentic SigningMethodHMAC (cfg_JWTSecret (Load (\<lambda>_. []))) tok cl"
  shows "cl = demo_claims_of exp"
proof -
  from assms(1) obtain s where s: "ref_Signed (demo_claims_of exp) (cfg_JWTSecret (Load (\<lambda>_. []))) = Some s"
    by (auto simp: ref_Signed_def ref_plain_def demo_claims_of_def)
  with assms(2) have "tok = s" by (simp add: demo_bearer_def)
  with ref_claims_signed [OF s] ref_claims_signed assms(3) show ?thesis
    by (fastforce simp: ref_authentic_def)
qed

lemma demo_expired_token:
  "\<not> presents ref_redis_window ref_runtime ref_tracer ref_redis
     (ref_authentic SigningMethodHMAC (cfg_JWTSecret (Load (\<lambda>_. [])))) (demo_bearer (Some 50)) cl demo"
proof -
  have now: "50 < fst (rt_Now ref_runtime (at_route ref_runtime ref_tracer ref_redis (demo_bearer (Some 50)) demo))"
    by code_simp
  show ?thesis
  proof
    assume p: "presents ref_redis_window ref_runtime ref_tracer ref_redis
      (ref_authentic SigningMethodHMAC (cfg_JWTSecret (Load (\<lambda>_. [])))) (demo_bearer (Some 50)) cl demo"
    then have "cl = demo_claims_of (Some 50)" by (auto simp: presents_def holds_def intro: demo_bearer_claims)
    then have "cl_ExpiresAt cl = Some 50" by (simp add: demo_claims_of_def)
    with p now show False by (simp add: presents_def holds_def in_force_def case_prod_beta)
  qed
qed

lemma demo_listed_token:
  "\<not> presents ref_redis_window ref_runtime ref_tracer ref_redis
     (ref_authentic SigningMethodHMAC (cfg_JWTSecret (Load (\<lambda>_. [])))) (demo_bearer None) cl demo_listed"
proof -
  let ?v = "at_route ref_runtime ref_tracer ref_redis (demo_bearer None) demo_listed"
  have up: "up ref_redis_window ?v"
    and listed: "listed (seen ref_redis_window () ?v) ''j'' (rs_now (seen ref_redis_window ()
      (snd (IsBlacklisted (blacklist ref_redis) ''j'' (snd (rt_Now ref_runtime ?v))))))"
    by code_simp+
  show ?thesis
  proof
    assume p: "presents ref_redis_window ref_runtime ref_tracer ref_redis
      (ref_authentic SigningMethodHMAC (cfg_JWTSecret (Load (\<lambda>_. [])))) (demo_bearer None) cl demo_listed"
    then have "cl = demo_claims_of None" by (auto simp: presents_def holds_def intro: demo_bearer_claims)
    then have "cl_ID cl = ''j''" by (simp add: demo_claims_of_def)
    with p up listed show False by (simp add: presents_def holds_def case_prod_beta)
  qed
qed

theorem unauthenticated_refused_witness:
  "status_of (fst (demo_serve (demo_bearer (Some 50)) demo)) \<in> {Some 401, Some 429} \<and>
   status_of (fst (demo_serve (demo_bearer None) demo_listed)) \<in> {Some 401, Some 429} \<and>
   waited ref_window ref_redis_window ref_lib ref_redis demo_listed (snd (demo_serve (demo_bearer None) demo_listed))"
proof -
  have "(rq_Method (demo_bearer e), rq_FullPath (demo_bearer e)) \<in> fst ` set (under ''/api/v1''
      (protected_routes ref_lib ref_gin ref_runtime ref_gorm ref_redis (Load (\<lambda>_. []))))" for e
    by (simp add: demo_bearer_def demo_request_def protected_routes_def rbac_RegisterRoutes_def Let_def)
  note R = unauthenticated_refused [OF ref_web.web_axioms prod.collapse [symmetric] this]
  from R [OF demo_expired_token] R [OF demo_listed_token] show ?thesis by blast
qed

section \<open>Every request is answered\<close>

text \<open>
  C40. Every request is answered: whatever the route, the body, the parameters and the state of the
  database and of Redis, the router sets a response; it is the metrics page alone whose handler is
  not the repository's, and it is taken to respond.
\<close>

theorem every_request_is_answered:
  assumes "\<And>c w. gc_Response (fst (prom c w)) \<noteq> None"
  shows "\<exists>status body. gc_Response (fst (router L GL J RT TR prom G D cfg (new_context q) w)) = Some (status, body)"
  using router_responds [of prom L GL J RT TR G D cfg "new_context q" w] assms
  by (auto simp: responds_def)

theorem every_request_is_answered_witness:
  "\<exists>status body. gc_Response (fst (router ref_lib ref_gin ref_jwt ref_runtime ref_tracer (JSON 200 JNull)
     ref_gorm ref_redis (Load (\<lambda>_. [])) (new_context
       \<lparr>rq_Method = ''PUT'', rq_Header = (\<lambda>_. []), rq_Param = (\<lambda>_. []), rq_Query = (\<lambda>_. None), rq_Body = [],
        rq_ClientIP = ''10.0.0.1'', rq_FullPath = ''/nowhere''\<rparr>) demo)) = Some (status, body)"
  by (rule every_request_is_answered) (simp add: JSON_def)

end
